(* ===== verification/Raft_Types.thy ===== *)
theory Raft_Types
  imports Flood_Prelude
begin

text \<open>
  The data types of the consensus layer, \<^verbatim>\<open>firmware/fog/src/raft/raft_types.hpp\<close>: the compile-time
  configuration, the roles and error codes, log entries, the six remote procedure calls with
  their tagged union, and the per-peer bookkeeping of a leader. Every integer keeps its width. A
  field \<^verbatim>\<open>m_x\<close> of a struct carries a short prefix for its struct, since record selectors
  are global names.
\<close>

section \<open>Configuration\<close>

definition MAX_NODES :: nat where [config_defs]: "MAX_NODES = 3"
definition LOG_CAPACITY :: nat where [config_defs]: "LOG_CAPACITY = 64"
definition MAX_ENTRY_DATA :: nat where [config_defs]: "MAX_ENTRY_DATA = 96"
definition MAX_APPEND_ENTRIES :: nat where [config_defs]: "MAX_APPEND_ENTRIES = 8"
definition SNAPSHOT_MAX :: nat where [config_defs]: "SNAPSHOT_MAX = 512"
definition SNAPSHOT_CHUNK :: nat where [config_defs]: "SNAPSHOT_CHUNK = 256"
definition SNAPSHOT_THRESHOLD :: nat where [config_defs]: "SNAPSHOT_THRESHOLD = LOG_CAPACITY div 2"
definition ELECTION_TIMEOUT_MIN_MS :: u32 where [config_defs]: "ELECTION_TIMEOUT_MIN_MS = 2500"
definition ELECTION_TIMEOUT_SPREAD_MS :: u32 where [config_defs]: "ELECTION_TIMEOUT_SPREAD_MS = 1000"
definition HEARTBEAT_INTERVAL_MS :: u32 where [config_defs]: "HEARTBEAT_INTERVAL_MS = 1000"

type_synonym Term = u64
type_synonym Index = u64
type_synonym NodeId = u64
type_synonym Time = u64

definition BAD_NODE :: NodeId where
  "BAD_NODE = - 1"

section \<open>Roles, errors and entries\<close>

datatype State = FOLLOWER | CANDIDATE | LEADER

definition state_to_string :: "State \<Rightarrow> string" where
  "state_to_string state = (case state of FOLLOWER \<Rightarrow> ''FOLLOWER'' | CANDIDATE \<Rightarrow> ''CANDIDATE'' | LEADER \<Rightarrow> ''LEADER'')"

datatype Error = OK | NOT_LEADER | LOG_FULL | SHUTDOWN | BAD_ARG | NOT_FOUND

definition ok :: "Error \<Rightarrow> bool" where
  "ok err \<longleftrightarrow> err = OK"

type_synonym 'a Result = "Error + 'a"

text \<open>
  The enumeration has a byte as its underlying type, and entries arrive by a copy of their bytes, so
  that a value without an enumerator is possible: \<open>UNNAMED b\<close>, with \<open>b\<close> beyond the
  three named values.
\<close>

datatype EntryType = NOOP | SENSOR_DATA | EGRESS_MSG | UNNAMED u8

record Entry =
  e_term :: Term
  e_index :: Index
  e_type :: EntryType
  e_data_len :: u16
  e_data :: "u8 list"

text \<open>The default-initialised entry; its payload array has \<^verbatim>\<open>MAX_ENTRY_DATA\<close> zero bytes.\<close>

definition default_entry :: Entry where
  "default_entry = \<lparr>e_term = 0, e_index = 0, e_type = NOOP, e_data_len = 0,
     e_data = replicate MAX_ENTRY_DATA 0\<rparr>"

definition payload :: "Entry \<Rightarrow> u8 list" where
  "payload e = take (unat (e_data_len e)) (e_data e)"

section \<open>Messages\<close>

record RequestVote =
  rv_term :: Term
  rv_candidate_id :: NodeId
  rv_last_log_index :: Index
  rv_last_log_term :: Term
  rv_pre_vote :: bool

record RequestVoteResp =
  rvr_term :: Term
  rvr_vote_granted :: bool
  rvr_pre_vote :: bool

record AppendEntries =
  ae_term :: Term
  ae_leader_id :: NodeId
  ae_prev_log_index :: Index
  ae_prev_log_term :: Term
  ae_leader_commit :: Index
  ae_n_entries :: u16
  ae_entries :: "Entry list"

text \<open>
  The span \<^verbatim>\<open>view()\<close> covers the first \<^verbatim>\<open>n_entries\<close> elements of the
  array of \<^verbatim>\<open>MAX_APPEND_ENTRIES\<close>; it is in bounds when \<open>view_ok\<close> holds.
\<close>

definition view :: "AppendEntries \<Rightarrow> Entry list" where
  "view ae = take (unat (ae_n_entries ae)) (ae_entries ae)"

definition view_ok :: "AppendEntries \<Rightarrow> bool" where
  "view_ok ae \<longleftrightarrow> unat (ae_n_entries ae) \<le> length (ae_entries ae)"

record AppendEntriesResp =
  aer_term :: Term
  aer_success :: bool
  aer_conflict_index :: Index
  aer_conflict_term :: Term
  aer_last_log_index :: Index

definition default_aer :: AppendEntriesResp where
  "default_aer = \<lparr>aer_term = 0, aer_success = False, aer_conflict_index = 0,
     aer_conflict_term = 0, aer_last_log_index = 0\<rparr>"

record InstallSnapshot =
  is_term :: Term
  is_leader_id :: NodeId
  is_last_included_index :: Index
  is_last_included_term :: Term
  is_offset :: u32
  is_total_len :: u32
  is_data_len :: u16
  is_done :: bool
  is_data :: "u8 list"

record InstallSnapshotResp =
  isr_term :: Term
  isr_last_included_index :: Index

datatype Payload =
    PRequestVote RequestVote
  | PRequestVoteResp RequestVoteResp
  | PAppendEntries AppendEntries
  | PAppendEntriesResp AppendEntriesResp
  | PInstallSnapshot InstallSnapshot
  | PInstallSnapshotResp InstallSnapshotResp

record Message =
  msg_from :: NodeId
  msg_to :: NodeId
  msg_payload :: Payload

section \<open>Peers\<close>

record Peer =
  p_id :: NodeId
  p_next_index :: Index
  p_match_index :: Index
  p_last_contact :: Time
  p_snap_offset :: u32
  p_vote_granted :: bool
  p_is_self :: bool

definition default_peer :: Peer where
  "default_peer = \<lparr>p_id = BAD_NODE, p_next_index = 1, p_match_index = 0, p_last_contact = 0,
     p_snap_offset = 0, p_vote_granted = False, p_is_self = False\<rparr>"

section \<open>Log positions\<close>

text \<open>
  The up-to-date rule of an election compares the term of the last entry first and its index
  second. \<open>log_pos\<close> names that pair with the order the rule means, so that the comparison of the
  code can be stated as one inequality.
\<close>

datatype log_pos = LogPos (lp_term: Term) (lp_index: Index)

instantiation log_pos :: linorder
begin

definition less_eq_log_pos :: "log_pos \<Rightarrow> log_pos \<Rightarrow> bool" where
  "less_eq_log_pos p q \<longleftrightarrow>
     lp_term p < lp_term q \<or> lp_term p = lp_term q \<and> lp_index p \<le> lp_index q"

definition less_log_pos :: "log_pos \<Rightarrow> log_pos \<Rightarrow> bool" where
  "less_log_pos p q \<longleftrightarrow>
     lp_term p < lp_term q \<or> lp_term p = lp_term q \<and> lp_index p < lp_index q"

instance
  by standard (auto simp: less_eq_log_pos_def less_log_pos_def intro: log_pos.expand)

end

end
