(* ===== verification/Log_Ring.thy ===== *)
theory Log_Ring
  imports Raft_Types
begin

text \<open>
  The in-memory log, \<^verbatim>\<open>firmware/fog/src/raft/log/log_ring.hpp\<close>: a ring buffer of
  \<^verbatim>\<open>LOG_CAPACITY\<close> entries behind a snapshot edge (\<open>lr_base\<close>, \<open>lr_base_term\<close>).
  The operations are followed by the abstract log they implement (a snapshot edge and a plain
  list of entries), the refinement lemmas, and the interface \<open>log_store\<close> that the replication
  proofs use.
\<close>

section \<open>State and operations\<close>

record LogRing =
  lr_buf :: "Entry list"
  lr_base :: Index
  lr_base_term :: Term
  lr_count :: u32
  lr_head :: u32

definition new_ring :: LogRing where
  "new_ring = \<lparr>lr_buf = replicate LOG_CAPACITY default_entry, lr_base = 0, lr_base_term = 0,
     lr_count = 0, lr_head = 0\<rparr>"

definition full :: "LogRing \<Rightarrow> bool" where
  "full r \<longleftrightarrow> LOG_CAPACITY \<le> unat (lr_count r)"

definition last_index :: "LogRing \<Rightarrow> Index" where
  "last_index r = lr_base r + ucast (lr_count r)"

definition at :: "LogRing \<Rightarrow> Index \<Rightarrow> Entry option" where
  "at r index =
     (let last = last_index r
      in if index \<le> lr_base r \<or> last < index then None
         else let slot = unat ((ucast (lr_head r) + (index - lr_base r - 1)) mod of_nat LOG_CAPACITY)
              in Some (lr_buf r ! slot))"

definition term_at :: "LogRing \<Rightarrow> Index \<Rightarrow> Term option" where
  "term_at r index =
     (if index = 0 then Some 0
      else if index = lr_base r then Some (lr_base_term r)
      else case at r index of
             Some entry \<Rightarrow> Some (e_term entry)
           | None \<Rightarrow> None)"

definition last_term :: "LogRing \<Rightarrow> Term" where
  "last_term r =
     (let last = last_index r
      in if last = lr_base r then lr_base_term r
         else case at r last of
                Some entry \<Rightarrow> e_term entry
              | None \<Rightarrow> lr_base_term r)"

definition push :: "Entry \<Rightarrow> LogRing \<Rightarrow> Error \<times> LogRing" where
  "push entry r =
     (if full r then (LOG_FULL, r)
      else let slot = unat ((lr_head r + lr_count r) mod of_nat LOG_CAPACITY)
           in (OK, r\<lparr>lr_buf := (lr_buf r)[slot := entry], lr_count := lr_count r + 1\<rparr>))"

definition truncate_suffix :: "Index \<Rightarrow> LogRing \<Rightarrow> LogRing" where
  "truncate_suffix from_index r =
     (if from_index \<le> lr_base r + 1 then r\<lparr>lr_count := 0\<rparr>
      else if last_index r < from_index then r
      else r\<lparr>lr_count := ucast (from_index - lr_base r - 1)\<rparr>)"

definition compact_to :: "Index \<Rightarrow> Term \<Rightarrow> LogRing \<Rightarrow> LogRing" where
  "compact_to index trm r =
     (let remaining = ucast (last_index r - index)
      in r\<lparr>lr_head := ucast ((ucast (lr_head r) + (index - lr_base r)) mod of_nat LOG_CAPACITY :: u64),
           lr_count := remaining,
           lr_base := index,
           lr_base_term := trm\<rparr>)"

definition reset_to_snapshot :: "Index \<Rightarrow> Term \<Rightarrow> LogRing \<Rightarrow> LogRing" where
  "reset_to_snapshot index trm r =
     r\<lparr>lr_head := 0, lr_count := 0, lr_base := index, lr_base_term := trm\<rparr>"

section \<open>Well-formed rings and the log they hold\<close>

definition wf_ring :: "LogRing \<Rightarrow> bool" where
  "wf_ring r \<longleftrightarrow>
     length (lr_buf r) = LOG_CAPACITY \<and> unat (lr_count r) \<le> LOG_CAPACITY \<and>
     unat (lr_head r) < LOG_CAPACITY \<and> unat (lr_base r) + unat (lr_count r) + 1 < 2 ^ 64"

definition entries :: "LogRing \<Rightarrow> Entry list" where
  "entries r =
     map (\<lambda>i. lr_buf r ! ((unat (lr_head r) + i) mod LOG_CAPACITY)) [0..<unat (lr_count r)]"

lemma length_entries [simp]: "length (entries r) = unat (lr_count r)"
  by (simp add: entries_def)

lemma nth_entries:
  "i < unat (lr_count r) \<Longrightarrow>
   entries r ! i = lr_buf r ! ((unat (lr_head r) + i) mod LOG_CAPACITY)"
  by (simp add: entries_def)

lemma capacity_pos [simp]: "0 < LOG_CAPACITY"
  by (simp add: LOG_CAPACITY_def)

lemma unat_of_nat_capacity [simp]:
  "unat (of_nat LOG_CAPACITY :: u64) = LOG_CAPACITY"
  "unat (of_nat LOG_CAPACITY :: u32) = LOG_CAPACITY"
  by (simp_all add: LOG_CAPACITY_def)

lemma unat_last_index:
  "wf_ring r \<Longrightarrow> unat (last_index r) = unat (lr_base r) + unat (lr_count r)"
  by (simp add: wf_ring_def last_index_def unat_add_no_wrap)

lemma wf_new_ring [simp, wf_intros]: "wf_ring new_ring"
  by (simp add: wf_ring_def new_ring_def LOG_CAPACITY_def)

lemma entries_new_ring [simp]: "entries new_ring = []"
  by (simp add: entries_def new_ring_def)

text \<open>Reading an index returns the entry of the abstract log at that position.\<close>

lemma slot_eq:
  assumes "wf_ring r" and "lr_base r < index" and "index \<le> last_index r"
  shows "unat ((ucast (lr_head r) + (index - lr_base r - 1)) mod (of_nat LOG_CAPACITY :: u64)) =
    (unat (lr_head r) + (unat index - unat (lr_base r) - 1)) mod LOG_CAPACITY"
proof -
  have le: "unat (lr_base r) < unat index" "unat index \<le> unat (lr_base r) + unat (lr_count r)"
    using assms by (simp_all add: word_cmp_unat unat_last_index)
  have d: "unat (index - lr_base r) = unat index - unat (lr_base r)"
    using le by (simp add: unat_sub_no_wrap)
  have "unat (1 :: u64) \<le> unat (index - lr_base r)"
    using le d by simp
  then have d1: "unat (index - lr_base r - 1) = unat index - unat (lr_base r) - 1"
    by (simp only: unat_sub_no_wrap d) simp
  have small: "unat index - unat (lr_base r) - 1 < LOG_CAPACITY" "unat (lr_head r) < LOG_CAPACITY"
    using le assms(1) by (auto simp: wf_ring_def)
  have "unat (ucast (lr_head r) + (index - lr_base r - 1) :: u64) =
      unat (lr_head r) + (unat index - unat (lr_base r) - 1)"
    using small by (subst unat_add_no_wrap) (simp_all add: d1 LOG_CAPACITY_def)
  then show ?thesis
    by (simp add: unat_mod)
qed

lemma at_eq:
  assumes "wf_ring r"
  shows "at r index =
    (if unat (lr_base r) < unat index \<and> unat index \<le> unat (lr_base r) + unat (lr_count r)
     then Some (entries r ! (unat index - unat (lr_base r) - 1)) else None)"
proof (cases "lr_base r < index \<and> index \<le> last_index r")
  case True
  then have le: "unat (lr_base r) < unat index"
      "unat index \<le> unat (lr_base r) + unat (lr_count r)"
    using assms by (simp_all add: word_cmp_unat unat_last_index)
  then have "unat index - unat (lr_base r) - 1 < unat (lr_count r)"
    by linarith
  with True le assms show ?thesis
    by (simp add: at_def slot_eq nth_entries linorder_not_le linorder_not_less Let_def)
next
  case False
  then show ?thesis
    using assms by (auto simp: at_def Let_def word_cmp_unat unat_last_index)
qed

lemma entries_update_outside:
  assumes "wf_ring r" and "unat (lr_count r) < LOG_CAPACITY"
  shows "map (\<lambda>i. (lr_buf r)[(unat (lr_head r) + unat (lr_count r)) mod LOG_CAPACITY := e] !
      ((unat (lr_head r) + i) mod LOG_CAPACITY)) [0..<unat (lr_count r)] = entries r"
proof -
  have "(unat (lr_head r) + unat (lr_count r)) mod LOG_CAPACITY \<noteq> (unat (lr_head r) + i) mod LOG_CAPACITY"
    if "i < unat (lr_count r)" for i
    using that assms
    by (auto simp: mod_add_left_eq wf_ring_def mod_if LOG_CAPACITY_def split: if_splits)
  then show ?thesis
    by (simp add: entries_def)
qed

lemma push_slot_eq:
  assumes "wf_ring r"
  shows "unat ((lr_head r + lr_count r) mod (of_nat LOG_CAPACITY :: u32)) =
    (unat (lr_head r) + unat (lr_count r)) mod LOG_CAPACITY"
proof -
  have "unat (lr_head r + lr_count r) = unat (lr_head r) + unat (lr_count r)"
    using assms by (subst unat_add_no_wrap) (simp_all add: wf_ring_def LOG_CAPACITY_def)
  then show ?thesis
    by (simp add: unat_mod)
qed

lemma push_full: "full r \<Longrightarrow> push e r = (LOG_FULL, r)"
  by (simp add: push_def)

lemma push_ok:
  assumes "wf_ring r" and "\<not> full r" and "unat (lr_base r) + unat (lr_count r) + 2 < 2 ^ 64"
  shows "fst (push e r) = OK" and "wf_ring (snd (push e r))"
    and "entries (snd (push e r)) = entries r @ [e]"
    and "lr_base (snd (push e r)) = lr_base r" and "lr_base_term (snd (push e r)) = lr_base_term r"
proof -
  have room: "unat (lr_count r) < LOG_CAPACITY"
    using assms(2) by (simp add: full_def)
  have c: "unat (lr_count r + 1) = Suc (unat (lr_count r))"
    using room by (subst unat_add_no_wrap) (simp_all add: LOG_CAPACITY_def)
  show "wf_ring (snd (push e r))"
    using assms room by (simp add: push_def Let_def wf_ring_def c)
  have "(unat (lr_head r) + unat (lr_count r)) mod LOG_CAPACITY < length (lr_buf r)"
    using assms(1) by (simp add: wf_ring_def LOG_CAPACITY_def)
  then show "entries (snd (push e r)) = entries r @ [e]"
    using assms room
    by (simp add: push_def Let_def entries_def [of "_\<lparr>lr_buf := _, lr_count := _\<rparr>"] c push_slot_eq
        entries_update_outside)
qed (use assms(2) in \<open>simp_all add: push_def Let_def\<close>)

lemma truncate_suffix_wf:
  assumes "wf_ring r"
  shows "wf_ring (truncate_suffix i r)"
    and "entries (truncate_suffix i r) = take (unat i - unat (lr_base r) - 1) (entries r)"
    and "lr_base (truncate_suffix i r) = lr_base r"
    and "lr_base_term (truncate_suffix i r) = lr_base_term r"
proof -
  have b1: "unat (lr_base r + 1) = Suc (unat (lr_base r))"
    using assms by (subst unat_add_no_wrap) (simp_all add: wf_ring_def)
  have c: "unat (ucast (i - lr_base r - 1) :: u32) = unat i - unat (lr_base r) - 1"
    if "\<not> i \<le> lr_base r + 1" "\<not> last_index r < i"
  proof -
    have le: "Suc (unat (lr_base r)) < unat i" "unat i \<le> unat (lr_base r) + unat (lr_count r)"
      using that assms by (simp_all add: word_cmp_unat unat_last_index b1)
    have "unat (i - lr_base r) = unat i - unat (lr_base r)"
      using le by (simp add: unat_sub_no_wrap)
    with le have "unat (i - lr_base r - 1) = unat i - unat (lr_base r) - 1"
      by (subst unat_sub_no_wrap) simp_all
    moreover have "unat i - unat (lr_base r) - 1 < 4294967296"
      using le unat_lt_32 [of "lr_count r"] by linarith
    ultimately show ?thesis
      by (simp add: unsigned_ucast_eq take_bit_nat_eq_self)
  qed
  show "wf_ring (truncate_suffix i r)"
    using assms c by (auto simp: truncate_suffix_def wf_ring_def word_cmp_unat unat_last_index b1)
  show "entries (truncate_suffix i r) = take (unat i - unat (lr_base r) - 1) (entries r)"
  proof (cases "i \<le> lr_base r + 1")
    case True
    then show ?thesis
      by (simp add: truncate_suffix_def entries_def word_cmp_unat b1)
  next
    case False
    with assms c show ?thesis
      by (auto simp: truncate_suffix_def entries_def [of "_\<lparr>lr_count := _\<rparr>"] word_cmp_unat
          unat_last_index take_map entries_def [of r] take_upt)
  qed
qed (simp_all add: truncate_suffix_def)

lemma compact_to_wf:
  assumes "wf_ring r" and "lr_base r \<le> i" and "i \<le> last_index r"
  shows "wf_ring (compact_to i t r)"
    and "entries (compact_to i t r) = drop (unat i - unat (lr_base r)) (entries r)"
    and "lr_base (compact_to i t r) = i" and "lr_base_term (compact_to i t r) = t"
proof -
  have le: "unat (lr_base r) \<le> unat i" "unat i \<le> unat (lr_base r) + unat (lr_count r)"
    using assms by (simp_all add: word_cmp_unat unat_last_index)
  have cap: "unat (lr_count r) \<le> LOG_CAPACITY" "unat (lr_head r) < LOG_CAPACITY"
    using assms(1) by (simp_all add: wf_ring_def)
  have "unat (last_index r - i) = unat (lr_base r) + unat (lr_count r) - unat i"
    using le assms(1) by (simp add: unat_sub_no_wrap unat_last_index)
  moreover have "\<dots> < 4294967296"
    using le cap by (simp add: LOG_CAPACITY_def)
  ultimately have rest: "unat (ucast (last_index r - i) :: u32) =
      unat (lr_base r) + unat (lr_count r) - unat i"
    by (simp add: unsigned_ucast_eq take_bit_nat_eq_self)
  have "unat (ucast (lr_head r) + (i - lr_base r) :: u64) =
      unat (lr_head r) + (unat i - unat (lr_base r))"
    using le cap by (subst unat_add_no_wrap) (simp_all add: unat_sub_no_wrap LOG_CAPACITY_def)
  then have "unat ((ucast (lr_head r) + (i - lr_base r)) mod of_nat LOG_CAPACITY :: u64) =
      (unat (lr_head r) + (unat i - unat (lr_base r))) mod LOG_CAPACITY"
    by (simp add: unat_mod)
  moreover have "\<dots> < 4294967296"
    by (rule less_trans [of _ LOG_CAPACITY]) (simp_all add: LOG_CAPACITY_def)
  ultimately have head: "unat (ucast ((ucast (lr_head r) + (i - lr_base r)) mod of_nat LOG_CAPACITY :: u64) :: u32) =
      (unat (lr_head r) + (unat i - unat (lr_base r))) mod LOG_CAPACITY"
    by (simp add: unsigned_ucast_eq take_bit_nat_eq_self)
  show "wf_ring (compact_to i t r)"
    using assms(1) le by (auto simp: compact_to_def Let_def wf_ring_def rest head)
  show "entries (compact_to i t r) = drop (unat i - unat (lr_base r)) (entries r)"
  proof (rule nth_equalityI)
    show "length (entries (compact_to i t r)) =
        length (drop (unat i - unat (lr_base r)) (entries r))"
      using le by (simp add: compact_to_def Let_def rest)
  next
    fix k
    assume "k < length (entries (compact_to i t r))"
    then have "k < unat (lr_base r) + unat (lr_count r) - unat i"
      by (simp add: compact_to_def Let_def rest)
    then show "entries (compact_to i t r) ! k =
        drop (unat i - unat (lr_base r)) (entries r) ! k"
      using le by (simp add: compact_to_def Let_def entries_def rest head mod_simps add.assoc)
  qed
qed (simp_all add: compact_to_def Let_def)

lemma reset_to_snapshot_wf:
  assumes "wf_ring r" and "unat i + 1 < 2 ^ 64"
  shows "wf_ring (reset_to_snapshot i t r)" and "entries (reset_to_snapshot i t r) = []"
    and "lr_base (reset_to_snapshot i t r) = i" and "lr_base_term (reset_to_snapshot i t r) = t"
  using assms by (simp_all add: reset_to_snapshot_def wf_ring_def entries_def LOG_CAPACITY_def)

section \<open>The abstract log\<close>

text \<open>
  What the ring promises: a snapshot edge (an index and its term) followed by a list of at most
  \<^verbatim>\<open>LOG_CAPACITY\<close> entries at consecutive indices.
\<close>

record abs_log =
  al_base :: nat
  al_base_term :: Term
  al_list :: "Entry list"

definition abs_ring :: "LogRing \<Rightarrow> abs_log" where
  "abs_ring r = \<lparr>al_base = unat (lr_base r), al_base_term = lr_base_term r, al_list = entries r\<rparr>"

definition al_at :: "abs_log \<Rightarrow> nat \<Rightarrow> Entry option" where
  "al_at l i = (if al_base l < i \<and> i \<le> al_base l + length (al_list l)
                then Some (al_list l ! (i - al_base l - 1)) else None)"

definition al_push :: "Entry \<Rightarrow> abs_log \<Rightarrow> Error \<times> abs_log" where
  "al_push e l = (if length (al_list l) < LOG_CAPACITY
                  then (OK, l\<lparr>al_list := al_list l @ [e]\<rparr>) else (LOG_FULL, l))"

definition al_truncate :: "nat \<Rightarrow> abs_log \<Rightarrow> abs_log" where
  "al_truncate i l = l\<lparr>al_list := take (i - al_base l - 1) (al_list l)\<rparr>"

definition al_compact :: "nat \<Rightarrow> Term \<Rightarrow> abs_log \<Rightarrow> abs_log" where
  "al_compact i t l = \<lparr>al_base = i, al_base_term = t, al_list = drop (i - al_base l) (al_list l)\<rparr>"

lemma push_refines:
  assumes "wf_ring r" and "unat (lr_base r) + unat (lr_count r) + 2 < 2 ^ 64"
  shows "map_prod id abs_ring (push e r) = al_push e (abs_ring r)"
proof (cases "full r")
  case True
  then show ?thesis
    by (simp add: push_full al_push_def abs_ring_def full_def)
next
  case False
  note facts = push_ok [OF assms(1) False assms(2), of e]
  have "push e r = (OK, snd (push e r))"
    using facts(1) by (metis prod.collapse)
  with facts False show ?thesis
    by (metis (mono_tags, lifting) abs_log.select_convs(3) abs_log.update_convs(3) abs_ring_def
        al_push_def full_def id_apply length_entries linorder_not_le map_prod_simp)
qed

lemma truncate_refines:
  "wf_ring r \<Longrightarrow> abs_ring (truncate_suffix i r) = al_truncate (unat i) (abs_ring r)"
  by (simp add: abs_ring_def al_truncate_def truncate_suffix_wf)

lemma compact_refines:
  assumes "wf_ring r" and "lr_base r \<le> i" and "i \<le> last_index r"
  shows "abs_ring (compact_to i t r) = al_compact (unat i) t (abs_ring r)"
  using compact_to_wf [OF assms] by (simp add: abs_ring_def al_compact_def)

lemma term_at_eq:
  assumes "wf_ring r"
  shows "term_at r i =
    (if i = 0 then Some 0 else if i = lr_base r then Some (lr_base_term r)
     else map_option e_term (al_at (abs_ring r) (unat i)))"
  using assms by (auto simp: term_at_def at_eq al_at_def abs_ring_def)

lemma last_term_eq:
  assumes "wf_ring r"
  shows "last_term r = (if entries r = [] then lr_base_term r else e_term (last (entries r)))"
proof (cases "entries r = []")
  case True
  then have "lr_count r = 0"
    by (metis length_entries list.size(3) unat_eq_zero)
  with True show ?thesis
    by (simp add: last_term_def last_index_def)
next
  case False
  then have pos: "0 < unat (lr_count r)"
    by (metis length_entries length_greater_0_conv)
  then have "last_index r \<noteq> lr_base r"
    using unat_last_index [OF assms] by auto
  with False pos show ?thesis
    by (simp add: last_term_def Let_def at_eq [OF assms] unat_last_index [OF assms] last_conv_nth)
qed

section \<open>The interface the replication code relies on\<close>

text \<open>
  \<open>log_store\<close> is what the server needs of its log: entries at consecutive indices behind an
  edge, a bounded append and a suffix truncation. The lemmas inside are proved from these laws
  alone.
\<close>

locale log_store =
  fixes lookup :: "'r \<Rightarrow> Index \<Rightarrow> Entry option"
    and edge :: "'r \<Rightarrow> Index"
    and stored :: "'r \<Rightarrow> Entry list"
    and append :: "Entry \<Rightarrow> 'r \<Rightarrow> Error \<times> 'r"
    and cut :: "Index \<Rightarrow> 'r \<Rightarrow> 'r"
    and invar :: "'r \<Rightarrow> bool"
    and room :: "'r \<Rightarrow> bool"
  assumes lookup_law: "invar r \<Longrightarrow> lookup r i =
      (if unat (edge r) < unat i \<and> unat i \<le> unat (edge r) + length (stored r)
       then Some (stored r ! (unat i - unat (edge r) - 1)) else None)"
    and append_law: "invar r \<Longrightarrow> room r \<Longrightarrow> unat (edge r) + length (stored r) + 2 < 2 ^ 64 \<Longrightarrow>
      append e r = (OK, r') \<Longrightarrow> invar r' \<and> edge r' = edge r \<and> stored r' = stored r @ [e]"
    and append_room: "room r \<longleftrightarrow> fst (append e r) = OK"
    and append_fail: "\<not> room r \<Longrightarrow> snd (append e r) = r"
    and cut_law: "invar r \<Longrightarrow> invar (cut i r) \<and> edge (cut i r) = edge r \<and>
      stored (cut i r) = take (unat i - unat (edge r) - 1) (stored r)"
begin

lemma lookup_append_old:
  assumes "invar r" and "room r" and "unat (edge r) + length (stored r) + 2 < 2 ^ 64"
    and "append e r = (OK, r')" and "unat i \<le> unat (edge r) + length (stored r)"
  shows "lookup r' i = lookup r i"
proof -
  have "invar r' \<and> edge r' = edge r \<and> stored r' = stored r @ [e]"
    using append_law assms(1-4) .
  with assms(1,5) show ?thesis
    by (auto simp: lookup_law nth_append)
qed

lemma lookup_append_new:
  assumes "invar r" and "room r" and "unat (edge r) + length (stored r) + 2 < 2 ^ 64"
    and "append e r = (OK, r')" and "unat i = unat (edge r) + length (stored r) + 1"
  shows "lookup r' i = Some e"
proof -
  have "invar r' \<and> edge r' = edge r \<and> stored r' = stored r @ [e]"
    using append_law assms(1-4) .
  with assms(5) show ?thesis
    by (simp add: lookup_law)
qed

lemma lookup_cut:
  assumes "invar r"
  shows "lookup (cut i r) j = (if unat j < unat i then lookup r j else None)"
  using cut_law [OF assms, of i] assms by (auto simp: lookup_law)

lemma append_after_cut_keeps:
  assumes "invar r" and "room (cut i r)" and "unat (edge r) + length (stored r) + 2 < 2 ^ 64"
    and "append e (cut i r) = (OK, r')" and "unat j < unat i"
    and "unat i \<le> unat (edge r) + length (stored r)" and "unat (edge r) < unat i"
  shows "lookup r' j = lookup r j"
proof -
  have c: "invar (cut i r)" "edge (cut i r) = edge r"
      "stored (cut i r) = take (unat i - unat (edge r) - 1) (stored r)"
    using cut_law [OF assms(1), of i] by simp_all
  have "lookup r' j = lookup (cut i r) j"
    by (rule lookup_append_old [OF c(1) assms(2) _ assms(4)]) (use c assms in auto)
  with assms(1,5) show ?thesis
    by (simp add: lookup_cut)
qed

end

interpretation ring: log_store at lr_base entries push truncate_suffix wf_ring "\<lambda>r. \<not> full r"
proof unfold_locales
  fix r :: LogRing and i :: Index
  assume "wf_ring r"
  then show "at r i =
      (if unat (lr_base r) < unat i \<and> unat i \<le> unat (lr_base r) + length (entries r)
       then Some (entries r ! (unat i - unat (lr_base r) - 1)) else None)"
    by (simp add: at_eq)
next
  fix r r' :: LogRing and e :: Entry
  assume "wf_ring r" "\<not> full r" "unat (lr_base r) + length (entries r) + 2 < 2 ^ 64"
    "push e r = (OK, r')"
  then show "wf_ring r' \<and> lr_base r' = lr_base r \<and> entries r' = entries r @ [e]"
    using push_ok [of r e] by simp
next
  fix r :: LogRing and e :: Entry
  show "(\<not> full r) = (fst (push e r) = OK)"
    by (simp add: push_def Let_def)
next
  fix r :: LogRing and e :: Entry
  assume "\<not> \<not> full r"
  then show "snd (push e r) = r"
    by (simp add: push_def)
next
  fix r :: LogRing and i :: Index
  assume "wf_ring r"
  then show "wf_ring (truncate_suffix i r) \<and> lr_base (truncate_suffix i r) = lr_base r \<and>
      entries (truncate_suffix i r) = take (unat i - unat (lr_base r) - 1) (entries r)"
    by (simp add: truncate_suffix_wf)
qed

end
