(* ===== verification/Raft_Server.thy ===== *)
theory Raft_Server
  imports Log_Ring
begin

text \<open>
  The consensus server, \<^verbatim>\<open>firmware/fog/src/raft/server/\<close> and
  \<^verbatim>\<open>raft/callback.hpp\<close>: its state as a record, and one definition per member
  function. A member function is a function on the state record. The hooks the application
  supplies are observed through the record's ghost fields: \<open>io_events\<close> is the list of calls the
  server has made (messages sent, entries applied, state persisted), \<open>io_now\<close> and \<open>io_rand\<close> count
  the calls of the clock and of the random source, so the n-th call can return any value, and
  \<open>io_fault\<close> records that a \<^verbatim>\<open>memcpy\<close> or a span went outside its array, where the
  behaviour of the program is undefined. The hooks do not call back into the server.
\<close>

section \<open>Hooks and state\<close>

datatype Event =
    EvSend Message
  | EvApply Entry
  | EvPersistState Term NodeId
  | EvPersistLogAppend Entry
  | EvPersistLogTruncate Index
  | EvPersistLogCompact Index
  | EvSnapshotLoad "u8 list" u32
  | EvStateChange State State

text \<open>
  A hook without a result is either bound or not. The two mandatory hooks return a value per
  call; \<open>cb_snapshot_save\<close> serialises the application state (a function of what the application
  has seen so far) into the buffer it is given.
\<close>

record Callbacks =
  cb_send :: bool
  cb_apply :: bool
  cb_persist_state :: bool
  cb_persist_log_append :: bool
  cb_persist_log_truncate :: bool
  cb_persist_log_compact :: bool
  cb_snapshot_save :: "(Event list \<Rightarrow> u8 list \<Rightarrow> int \<times> u8 list) option"
  cb_snapshot_load :: bool
  cb_now :: "(nat \<Rightarrow> Time) option"
  cb_rand :: "(nat \<Rightarrow> u32) option"
  cb_on_state_change :: bool

definition callbacks_valid :: "Callbacks \<Rightarrow> bool" where
  "callbacks_valid cbs \<longleftrightarrow> cb_now cbs \<noteq> None \<and> cb_rand cbs \<noteq> None"

record Server =
  m_cbs :: Callbacks
  m_self_id :: NodeId
  m_n_nodes :: nat
  m_nodes :: "Peer list"
  m_current_term :: Term
  m_voted_for :: NodeId
  m_log :: LogRing
  m_commit_index :: Index
  m_last_applied :: Index
  m_state :: State
  m_current_leader :: NodeId
  m_leader_hint :: NodeId
  m_election_deadline :: Time
  m_last_heartbeat_sent :: Time
  m_leader_since :: Time
  m_last_leader_contact :: Time
  m_votes_granted :: nat
  m_pre_votes_granted :: nat
  m_snap_buf :: "u8 list"
  m_snap_len :: u32
  m_snap_index :: Index
  m_snap_term :: Term
  m_running :: bool
  m_valid :: bool
  m_pre_vote_active :: bool
  io_events :: "Event list"
  io_now :: nat
  io_rand :: nat
  io_fault :: bool

definition record_event :: "Event \<Rightarrow> Server \<Rightarrow> Server" where
  "record_event ev s = s\<lparr>io_events := io_events s @ [ev]\<rparr>"

definition call_if :: "bool \<Rightarrow> Event \<Rightarrow> Server \<Rightarrow> Server" where
  "call_if bound ev s = (if bound then record_event ev s else s)"

definition now_value :: "Server \<Rightarrow> Time" where
  "now_value s = the (cb_now (m_cbs s)) (io_now s)"

definition now_called :: "Server \<Rightarrow> Server" where
  "now_called s = s\<lparr>io_now := Suc (io_now s)\<rparr>"

definition rand_value :: "Server \<Rightarrow> u32" where
  "rand_value s = the (cb_rand (m_cbs s)) (io_rand s)"

definition rand_called :: "Server \<Rightarrow> Server" where
  "rand_called s = s\<lparr>io_rand := Suc (io_rand s)\<rparr>"

definition emit :: "Message \<Rightarrow> Server \<Rightarrow> Server" where
  "emit msg s = call_if (cb_send (m_cbs s)) (EvSend msg) s"

definition persist_state :: "Server \<Rightarrow> Server" where
  "persist_state s =
     call_if (cb_persist_state (m_cbs s)) (EvPersistState (m_current_term s) (m_voted_for s)) s"

section \<open>Construction, start and stop\<close>

text \<open>The members as their default initialisers leave them.\<close>

definition blank_server :: "NodeId \<Rightarrow> Callbacks \<Rightarrow> Server" where
  "blank_server self_id cbs =
    \<lparr>m_cbs = cbs, m_self_id = self_id, m_n_nodes = 0,
     m_nodes = replicate MAX_NODES default_peer, m_current_term = 0, m_voted_for = BAD_NODE,
     m_log = new_ring, m_commit_index = 0, m_last_applied = 0, m_state = FOLLOWER,
     m_current_leader = BAD_NODE, m_leader_hint = BAD_NODE, m_election_deadline = 0,
     m_last_heartbeat_sent = 0, m_leader_since = 0, m_last_leader_contact = 0,
     m_votes_granted = 0, m_pre_votes_granted = 0,
     m_snap_buf = replicate SNAPSHOT_MAX 0, m_snap_len = 0, m_snap_index = 0, m_snap_term = 0,
     m_running = False, m_valid = False, m_pre_vote_active = False,
     io_events = [], io_now = 0, io_rand = 0, io_fault = False\<rparr>"

definition make_peer :: "NodeId \<Rightarrow> NodeId \<Rightarrow> Peer" where
  "make_peer self_id nid = default_peer\<lparr>p_id := nid, p_is_self := (nid = self_id)\<rparr>"

definition new_server :: "NodeId \<Rightarrow> NodeId list \<Rightarrow> Callbacks \<Rightarrow> Server" where
  "new_server self_id node_ids cbs =
     (let s = blank_server self_id cbs
      in if node_ids = [] \<or> MAX_NODES < length node_ids \<or> \<not> callbacks_valid cbs then s
         else s\<lparr>m_n_nodes := length node_ids,
                m_nodes := map (make_peer self_id) node_ids @ drop (length node_ids) (m_nodes s),
                m_valid := self_id \<in> set node_ids\<rparr>)"

definition is_leader :: "Server \<Rightarrow> bool" where
  "is_leader s \<longleftrightarrow> m_current_leader s = m_self_id s"

definition restore_state :: "Term \<Rightarrow> NodeId \<Rightarrow> Server \<Rightarrow> Server" where
  "restore_state trm voted_for s = s\<lparr>m_current_term := trm, m_voted_for := voted_for\<rparr>"

definition set_state :: "State \<Rightarrow> Server \<Rightarrow> Server" where
  "set_state st s =
     (let old = m_state s
      in if old = st then s
         else call_if (cb_on_state_change (m_cbs s)) (EvStateChange old st) (s\<lparr>m_state := st\<rparr>))"

definition reset_election_timer :: "Server \<Rightarrow> Server" where
  "reset_election_timer s =
     (let now = now_value s;
          s1 = now_called s;
          jitter = rand_value s1 mod (ELECTION_TIMEOUT_SPREAD_MS + 1);
          s2 = rand_called s1
      in s2\<lparr>m_election_deadline := now + ucast ELECTION_TIMEOUT_MIN_MS + ucast jitter\<rparr>)"

definition start :: "Server \<Rightarrow> Server" where
  "start s = reset_election_timer (set_state FOLLOWER (s\<lparr>m_running := True\<rparr>))"

definition stop :: "Server \<Rightarrow> Server" where
  "stop s = s\<lparr>m_running := False\<rparr>"

section \<open>Peers\<close>

definition majority :: "Server \<Rightarrow> nat" where
  "majority s = m_n_nodes s div 2 + 1"

text \<open>A pointer to a peer is its position among the first \<^verbatim>\<open>m_n_nodes\<close> nodes.\<close>

definition node_by_id :: "NodeId \<Rightarrow> Server \<Rightarrow> nat option" where
  "node_by_id nid s = find_index (\<lambda>p. p_id p = nid) (take (m_n_nodes s) (m_nodes s))"

definition self_peer :: "Server \<Rightarrow> nat option" where
  "self_peer s = node_by_id (m_self_id s) s"

definition upd_node :: "nat \<Rightarrow> (Peer \<Rightarrow> Peer) \<Rightarrow> Server \<Rightarrow> Server" where
  "upd_node i f s = s\<lparr>m_nodes := (m_nodes s)[i := f (m_nodes s ! i)]\<rparr>"

definition upd_self :: "(Peer \<Rightarrow> Peer) \<Rightarrow> Server \<Rightarrow> Server" where
  "upd_self f s = (case self_peer s of Some i \<Rightarrow> upd_node i f s | None \<Rightarrow> s)"

definition upd_all_nodes :: "(Peer \<Rightarrow> Peer) \<Rightarrow> Server \<Rightarrow> Server" where
  "upd_all_nodes f s =
     s\<lparr>m_nodes := map f (take (m_n_nodes s) (m_nodes s)) @ drop (m_n_nodes s) (m_nodes s)\<rparr>"

text \<open>The loops that send something to every node but this one, in table order.\<close>

definition each_other :: "(Peer \<Rightarrow> Server \<Rightarrow> Server) \<Rightarrow> Server \<Rightarrow> Server" where
  "each_other f s =
     fold (\<lambda>i s. if p_is_self (m_nodes s ! i) then s else f (m_nodes s ! i) s)
       [0..<m_n_nodes s] s"

definition contact_window :: Time where
  "contact_window = ucast (ELECTION_TIMEOUT_MIN_MS + ELECTION_TIMEOUT_SPREAD_MS)"

definition contact_with_majority :: "Time \<Rightarrow> Server \<Rightarrow> bool" where
  "contact_with_majority now s =
     (if sint (now - m_leader_since s) < sint contact_window then True
      else let reachable = 1 + length (filter
             (\<lambda>p. \<not> p_is_self p \<and> sint (now - p_last_contact p) < sint contact_window)
             (take (m_n_nodes s) (m_nodes s)))
           in m_n_nodes s div 2 < reachable)"

definition leader_is_live :: "Time \<Rightarrow> Server \<Rightarrow> bool" where
  "leader_is_live now s =
     (if m_state s = LEADER then contact_with_majority now s
      else m_current_leader s \<noteq> BAD_NODE \<and>
           sint (now - m_last_leader_contact s) < sint contact_window)"

section \<open>Snapshots and applying committed entries\<close>

definition begin_snapshot :: "Server \<Rightarrow> Error \<times> Server" where
  "begin_snapshot s =
     (case cb_snapshot_save (m_cbs s) of
        None \<Rightarrow> (BAD_ARG, s)
      | Some save \<Rightarrow>
          if m_last_applied s \<le> lr_base (m_log s) then (OK, s)
          else let snap_index = m_last_applied s
               in case term_at (m_log s) snap_index of
                    None \<Rightarrow> (NOT_FOUND, s)
                  | Some snap_term \<Rightarrow>
                      let (len, buf) = save (io_events s) (m_snap_buf s);
                          s1 = s\<lparr>m_snap_buf := buf\<rparr>
                      in if len < 0 then (LOG_FULL, s1)
                         else let s2 = s1\<lparr>m_snap_len := word_of_int len\<rparr>;
                                  s3 = s2\<lparr>m_log := compact_to snap_index snap_term (m_log s2)\<rparr>
                              in (OK, call_if (cb_persist_log_compact (m_cbs s3))
                                        (EvPersistLogCompact snap_index) s3))"

definition maybe_compact :: "Server \<Rightarrow> Server" where
  "maybe_compact s =
     (let live = m_last_applied s - lr_base (m_log s)
      in if unat live < SNAPSHOT_THRESHOLD then s else snd (begin_snapshot s))"

definition apply_one :: "Server \<Rightarrow> Server" where
  "apply_one s =
     (let s1 = s\<lparr>m_last_applied := m_last_applied s + 1\<rparr>
      in case at (m_log s1) (m_last_applied s1) of
           None \<Rightarrow> s1
         | Some entry \<Rightarrow> call_if (cb_apply (m_cbs s1)) (EvApply entry) s1)"

lemma apply_one_fields:
  "m_commit_index (apply_one s) = m_commit_index s"
  "m_last_applied (apply_one s) = m_last_applied s + 1"
  by (simp_all add: apply_one_def Let_def call_if_def record_event_def split: option.split)

function apply_loop :: "Server \<Rightarrow> Server" where
  "apply_loop s = (if m_last_applied s < m_commit_index s then apply_loop (apply_one s) else s)"
  by pat_completeness auto
termination
  by (relation "measure (\<lambda>s. unat (m_commit_index s) - unat (m_last_applied s))")
    (auto simp: apply_one_fields unat_Suc_no_wrap word_less_nat_alt)

declare apply_loop.simps [simp del]

definition apply_committed :: "Server \<Rightarrow> Server" where
  "apply_committed s = maybe_compact (apply_loop s)"

section \<open>Sending\<close>

definition send_request_vote :: "Peer \<Rightarrow> Server \<Rightarrow> Server" where
  "send_request_vote peer s =
     emit \<lparr>msg_from = m_self_id s, msg_to = p_id peer,
           msg_payload = PRequestVote
             \<lparr>rv_term = m_current_term s, rv_candidate_id = m_self_id s,
              rv_last_log_index = last_index (m_log s),
              rv_last_log_term = last_term (m_log s), rv_pre_vote = False\<rparr>\<rparr> s"

definition send_pre_vote :: "Peer \<Rightarrow> Server \<Rightarrow> Server" where
  "send_pre_vote peer s =
     emit \<lparr>msg_from = m_self_id s, msg_to = p_id peer,
           msg_payload = PRequestVote
             \<lparr>rv_term = m_current_term s + 1, rv_candidate_id = m_self_id s,
              rv_last_log_index = last_index (m_log s),
              rv_last_log_term = last_term (m_log s), rv_pre_vote = True\<rparr>\<rparr> s"

definition send_install_snapshot :: "Peer \<Rightarrow> Server \<Rightarrow> Server" where
  "send_install_snapshot peer s =
     (if p_is_self peer then s
      else if m_snap_len s = 0 then s
      else let offset = p_snap_offset peer
           in if m_snap_len s \<le> offset then s
              else let remaining = m_snap_len s - offset;
                       chunk = (of_nat (min (unat remaining) SNAPSHOT_CHUNK) :: u16);
                       bytes = take (unat chunk) (drop (unat offset) (m_snap_buf s));
                       s1 = (if unat offset + unat chunk \<le> length (m_snap_buf s) then s
                             else s\<lparr>io_fault := True\<rparr>)
                   in emit \<lparr>msg_from = m_self_id s1, msg_to = p_id peer,
                            msg_payload = PInstallSnapshot
                              \<lparr>is_term = m_current_term s1, is_leader_id = m_self_id s1,
                               is_last_included_index = lr_base (m_log s1),
                               is_last_included_term = lr_base_term (m_log s1),
                               is_offset = offset, is_total_len = m_snap_len s1,
                               is_data_len = chunk,
                               is_done = (m_snap_len s1 \<le> offset + ucast chunk),
                               is_data = bytes @ replicate (SNAPSHOT_CHUNK - length bytes) 0\<rparr>\<rparr> s1)"

text \<open>
  The loop that fills the message: it stops after \<^verbatim>\<open>MAX_APPEND_ENTRIES\<close> entries, past
  the last index, or at an index the log does not hold.
\<close>

fun collect_entries :: "nat \<Rightarrow> LogRing \<Rightarrow> Index \<Rightarrow> Entry list" where
  "collect_entries 0 r idx = []"
| "collect_entries (Suc k) r idx =
     (if idx \<le> last_index r
      then case at r idx of
             None \<Rightarrow> []
           | Some entry \<Rightarrow> entry # collect_entries k r (idx + 1)
      else [])"

definition send_append_entries :: "Peer \<Rightarrow> Server \<Rightarrow> Server" where
  "send_append_entries peer s =
     (if p_is_self peer then s
      else let prev_index = p_next_index peer - 1
           in if prev_index < lr_base (m_log s) then send_install_snapshot peer s
              else case term_at (m_log s) prev_index of
                     None \<Rightarrow> send_install_snapshot peer s
                   | Some prev_term \<Rightarrow>
                       let es = collect_entries MAX_APPEND_ENTRIES (m_log s) (p_next_index peer)
                       in emit \<lparr>msg_from = m_self_id s, msg_to = p_id peer,
                                msg_payload = PAppendEntries
                                  \<lparr>ae_term = m_current_term s, ae_leader_id = m_self_id s,
                                   ae_prev_log_index = prev_index, ae_prev_log_term = prev_term,
                                   ae_leader_commit = m_commit_index s,
                                   ae_n_entries = of_nat (length es),
                                   ae_entries = es @ replicate (MAX_APPEND_ENTRIES - length es)
                                     default_entry\<rparr>\<rparr> s)"

section \<open>Role transitions\<close>

definition maybe_step_down :: "Term \<Rightarrow> Server \<Rightarrow> Server" where
  "maybe_step_down trm s =
     (if m_current_term s < trm
      then let s1 = persist_state (s\<lparr>m_current_term := trm, m_voted_for := BAD_NODE\<rparr>)
           in if m_state s1 \<noteq> FOLLOWER
              then (set_state FOLLOWER s1)\<lparr>m_current_leader := BAD_NODE\<rparr>
              else s1
      else s)"

definition become_follower :: "Term \<Rightarrow> NodeId \<Rightarrow> Server \<Rightarrow> Server" where
  "become_follower trm leader s =
     (let s1 = s\<lparr>m_pre_vote_active := False\<rparr>;
          s2 = (if m_current_term s1 < trm
                then persist_state (s1\<lparr>m_current_term := trm, m_voted_for := BAD_NODE\<rparr>) else s1);
          s3 = (set_state FOLLOWER s2)\<lparr>m_current_leader := leader\<rparr>;
          s4 = (if leader \<noteq> BAD_NODE then s3\<lparr>m_leader_hint := leader\<rparr> else s3)
      in reset_election_timer s4)"

definition become_leader :: "Server \<Rightarrow> Server" where
  "become_leader s =
     (let last = last_index (m_log s);
          s1 = set_state LEADER (s\<lparr>m_pre_vote_active := False\<rparr>);
          s2 = s1\<lparr>m_current_leader := m_self_id s1, m_leader_hint := m_self_id s1\<rparr>;
          s3 = upd_all_nodes (\<lambda>p. p\<lparr>p_next_index := last + 1, p_match_index := 0\<rparr>) s2;
          s4 = upd_self (\<lambda>p. p\<lparr>p_match_index := last\<rparr>) s3;
          entry = default_entry\<lparr>e_term := m_current_term s4, e_index := last + 1,
                    e_type := NOOP, e_data_len := 0\<rparr>;
          (err, log) = push entry (m_log s4);
          s5 = (if ok err
                then upd_self (\<lambda>p. p\<lparr>p_match_index := e_index entry\<rparr>)
                       (call_if (cb_persist_log_append (m_cbs s4)) (EvPersistLogAppend entry)
                          (s4\<lparr>m_log := log\<rparr>))
                else s4);
          now = now_value s5;
          s6 = upd_all_nodes (\<lambda>p. p\<lparr>p_last_contact := now\<rparr>) (now_called s5)
      in s6\<lparr>m_leader_since := now, m_last_heartbeat_sent := 0\<rparr>)"

definition become_candidate :: "Server \<Rightarrow> Server" where
  "become_candidate s =
     (let s1 = set_state CANDIDATE (s\<lparr>m_pre_vote_active := False\<rparr>);
          s2 = persist_state (s1\<lparr>m_current_term := m_current_term s1 + 1,
                                 m_voted_for := m_self_id s1\<rparr>);
          s3 = s2\<lparr>m_current_leader := BAD_NODE, m_votes_granted := 0\<rparr>;
          s4 = upd_all_nodes (\<lambda>p. p\<lparr>p_vote_granted := False\<rparr>) s3;
          s5 = (case self_peer s4 of
                  Some i \<Rightarrow> (upd_node i (\<lambda>p. p\<lparr>p_vote_granted := True\<rparr>) s4)\<lparr>m_votes_granted := 1\<rparr>
                | None \<Rightarrow> s4);
          s6 = each_other send_request_vote (reset_election_timer s5)
      in if majority s6 \<le> m_votes_granted s6 then become_leader s6 else s6)"

definition start_pre_vote :: "Server \<Rightarrow> Server" where
  "start_pre_vote s =
     (let s1 = reset_election_timer (s\<lparr>m_pre_vote_active := True, m_pre_votes_granted := 1\<rparr>);
          s2 = each_other send_pre_vote s1
      in if majority s2 \<le> m_pre_votes_granted s2
         then become_candidate (s2\<lparr>m_pre_vote_active := False\<rparr>) else s2)"

section \<open>Votes\<close>

definition up_to_date :: "RequestVote \<Rightarrow> Server \<Rightarrow> bool" where
  "up_to_date rv s =
     (let my_last_idx = last_index (m_log s); my_last_trm = last_term (m_log s)
      in my_last_trm < rv_last_log_term rv \<or>
         rv_last_log_term rv = my_last_trm \<and> my_last_idx \<le> rv_last_log_index rv)"

definition vote_reply :: "NodeId \<Rightarrow> bool \<Rightarrow> bool \<Rightarrow> Server \<Rightarrow> Message" where
  "vote_reply cand granted pre s =
     \<lparr>msg_from = m_self_id s, msg_to = cand,
      msg_payload = PRequestVoteResp
        \<lparr>rvr_term = m_current_term s, rvr_vote_granted = granted, rvr_pre_vote = pre\<rparr>\<rparr>"

definition request_vote_guard :: "RequestVote \<Rightarrow> Server \<Rightarrow> bool \<times> Server" where
  "request_vote_guard rv s =
     (let now = now_value s; s1 = now_called s
      in if rv_pre_vote rv
         then let would_grant = (\<not> leader_is_live now s1 \<and> m_current_term s1 \<le> rv_term rv \<and>
                                 up_to_date rv s1)
              in (True, emit (vote_reply (rv_candidate_id rv) would_grant True s1) s1)
         else if leader_is_live now s1 \<and> m_current_term s1 < rv_term rv
              then (True, emit (vote_reply (rv_candidate_id rv) False False s1) s1)
              else (False, s1))"

definition handle_request_vote :: "RequestVote \<Rightarrow> Server \<Rightarrow> Server" where
  "handle_request_vote rv s =
     (let (guarded, s1) = request_vote_guard rv s
      in if guarded then s1
         else let s2 = maybe_step_down (rv_term rv) s1
              in if rv_term rv < m_current_term s2
                 then emit (vote_reply (rv_candidate_id rv) False False s2) s2
                 else let grant = ((m_voted_for s2 = BAD_NODE \<or>
                                    m_voted_for s2 = rv_candidate_id rv) \<and> up_to_date rv s2);
                          s3 = (if grant
                                then reset_election_timer
                                       (persist_state (s2\<lparr>m_voted_for := rv_candidate_id rv\<rparr>))
                                else s2)
                      in emit (vote_reply (rv_candidate_id rv) grant False s3) s3)"

definition handle_request_vote_resp :: "NodeId \<Rightarrow> RequestVoteResp \<Rightarrow> Server \<Rightarrow> Server" where
  "handle_request_vote_resp from rr s =
     (if rvr_pre_vote rr
      then if \<not> m_pre_vote_active s \<or> m_state s = LEADER then s
           else if rvr_vote_granted rr \<and> rvr_term rr \<le> m_current_term s + 1
                then let s1 = s\<lparr>m_pre_votes_granted := Suc (m_pre_votes_granted s)\<rparr>
                     in if majority s1 \<le> m_pre_votes_granted s1
                        then become_candidate (s1\<lparr>m_pre_vote_active := False\<rparr>) else s1
                else s
      else if m_state s \<noteq> CANDIDATE then s
      else if m_current_term s < rvr_term rr then maybe_step_down (rvr_term rr) s
      else if rvr_term rr < m_current_term s then s
      else case node_by_id from s of
             None \<Rightarrow> s
           | Some i \<Rightarrow>
               if p_vote_granted (m_nodes s ! i) then s
               else if rvr_vote_granted rr
                    then let s1 = (upd_node i (\<lambda>p. p\<lparr>p_vote_granted := True\<rparr>) s)
                                    \<lparr>m_votes_granted := Suc (m_votes_granted s)\<rparr>
                         in if majority s1 \<le> m_votes_granted s1 then become_leader s1 else s1
                    else s)"

section \<open>Replication\<close>

lemma word_pred_measure: "(b :: 'a::len word) < scan \<Longrightarrow> unat (scan - 1) < unat scan"
  by (metis measure_unat word_not_simps(1))

text \<open>The first index of the conflicting term, for the hint of a refused AppendEntries.\<close>

function conflict_scan :: "LogRing \<Rightarrow> Term \<Rightarrow> Index \<Rightarrow> Index \<Rightarrow> Index" where
  "conflict_scan r prev_term scan current_idx =
     (if lr_base r + 1 < scan
      then case term_at r (scan - 1) of
             None \<Rightarrow> current_idx
           | Some trm \<Rightarrow>
               if trm \<noteq> prev_term then current_idx
               else conflict_scan r prev_term (scan - 1) (scan - 1)
      else current_idx)"
  by pat_completeness auto
termination
  by (relation "measure (\<lambda>(r, t, scan, c). unat scan)") (auto intro: word_pred_measure)

declare conflict_scan.simps [simp del]

definition append_one :: "Index \<Rightarrow> Entry \<Rightarrow> Server \<Rightarrow> Server" where
  "append_one next_idx next_entry s =
     (let entry = next_entry\<lparr>e_index := next_idx\<rparr>;
          (err, log) = push entry (m_log s)
      in if ok err
         then call_if (cb_persist_log_append (m_cbs s)) (EvPersistLogAppend entry) (s\<lparr>m_log := log\<rparr>)
         else s)"

definition merge_entry :: "Index \<Rightarrow> Entry \<Rightarrow> Server \<Rightarrow> Server" where
  "merge_entry next_idx next_entry s =
     (if next_idx \<le> lr_base (m_log s) then s
      else if next_idx \<le> last_index (m_log s)
           then case term_at (m_log s) next_idx of
                  Some existing \<Rightarrow>
                    if existing = e_term next_entry then s
                    else append_one next_idx next_entry
                           (call_if (cb_persist_log_truncate (m_cbs s)) (EvPersistLogTruncate next_idx)
                             (s\<lparr>m_log := truncate_suffix next_idx (m_log s)\<rparr>))
                | None \<Rightarrow> append_one next_idx next_entry s
           else append_one next_idx next_entry s)"

fun merge_entries :: "Index \<Rightarrow> Entry list \<Rightarrow> Server \<Rightarrow> Server" where
  "merge_entries next_idx [] s = s"
| "merge_entries next_idx (e # es) s = merge_entries (next_idx + 1) es (merge_entry next_idx e s)"

definition ae_reply :: "NodeId \<Rightarrow> bool \<Rightarrow> Index \<Rightarrow> Term \<Rightarrow> Server \<Rightarrow> Message" where
  "ae_reply leader success conflict_index conflict_term s =
     \<lparr>msg_from = m_self_id s, msg_to = leader,
      msg_payload = PAppendEntriesResp
        \<lparr>aer_term = m_current_term s, aer_success = success, aer_conflict_index = conflict_index,
         aer_conflict_term = conflict_term, aer_last_log_index = last_index (m_log s)\<rparr>\<rparr>"

definition accept_entries :: "AppendEntries \<Rightarrow> Server \<Rightarrow> Server" where
  "accept_entries ae s =
     (let s0 = (if view_ok ae then s else s\<lparr>io_fault := True\<rparr>);
          s1 = merge_entries (ae_prev_log_index ae + 1) (view ae) s0;
          s2 = (if m_commit_index s1 < ae_leader_commit ae
                then let last_new = ae_prev_log_index ae + ucast (ae_n_entries ae);
                         newc = min (ae_leader_commit ae) last_new
                     in s1\<lparr>m_commit_index := max newc (m_commit_index s1)\<rparr>
                else s1)
      in apply_committed (emit (ae_reply (ae_leader_id ae) True 0 0 s2) s2))"

definition handle_append_entries :: "AppendEntries \<Rightarrow> Server \<Rightarrow> Server" where
  "handle_append_entries ae s =
     (if ae_term ae < m_current_term s
      then emit (ae_reply (ae_leader_id ae) False 0 0 s) s
      else
        let s1 = become_follower (ae_term ae) (ae_leader_id ae) (maybe_step_down (ae_term ae) s);
            s2 = (now_called s1)\<lparr>m_last_leader_contact := now_value s1\<rparr>;
            prev = ae_prev_log_index ae
        in if last_index (m_log s2) < prev
           then emit (ae_reply (ae_leader_id ae) False (last_index (m_log s2) + 1) 0 s2) s2
           else if prev < lr_base (m_log s2) then accept_entries ae s2
           else case term_at (m_log s2) prev of
                  Some prev_term \<Rightarrow>
                    if prev_term \<noteq> ae_prev_log_term ae
                    then emit (ae_reply (ae_leader_id ae) False
                                 (conflict_scan (m_log s2) prev_term prev prev) prev_term s2) s2
                    else accept_entries ae s2
                | None \<Rightarrow> emit (ae_reply (ae_leader_id ae) False 0 0 s2) s2)"

definition replicated_count :: "Index \<Rightarrow> Server \<Rightarrow> nat" where
  "replicated_count next s =
     length (filter (\<lambda>p. p_is_self p \<or> next \<le> p_match_index p) (take (m_n_nodes s) (m_nodes s)))"

definition committable :: "Index \<Rightarrow> Server \<Rightarrow> bool" where
  "committable next s \<longleftrightarrow>
     term_at (m_log s) next = Some (m_current_term s) \<and> majority s \<le> replicated_count next s"

function advance_loop :: "Index \<Rightarrow> Server \<Rightarrow> Server" where
  "advance_loop next s =
     (if m_commit_index s < next
      then if committable next s then s\<lparr>m_commit_index := next\<rparr> else advance_loop (next - 1) s
      else s)"
  by pat_completeness auto
termination
  by (relation "measure (\<lambda>(next, s). unat next)") (auto intro: word_pred_measure)

declare advance_loop.simps [simp del]

definition leader_advance_commit :: "Server \<Rightarrow> Server" where
  "leader_advance_commit s = apply_committed (advance_loop (last_index (m_log s)) s)"

text \<open>The last index that holds an entry of the conflicting term, 0 if there is none.\<close>

function find_term_index :: "LogRing \<Rightarrow> Term \<Rightarrow> Index \<Rightarrow> Index" where
  "find_term_index r trm idx =
     (if lr_base r < idx
      then if term_at r idx = Some trm then idx else find_term_index r trm (idx - 1)
      else 0)"
  by pat_completeness auto
termination
  by (relation "measure (\<lambda>(r, t, idx). unat idx)") (auto intro: word_pred_measure)

declare find_term_index.simps [simp del]

definition backup_index :: "AppendEntriesResp \<Rightarrow> Peer \<Rightarrow> Server \<Rightarrow> Index" where
  "backup_index rr peer s =
     (let backup =
            (if aer_conflict_term rr \<noteq> 0
             then let found = find_term_index (m_log s) (aer_conflict_term rr) (last_index (m_log s))
                  in if found \<noteq> 0 then found + 1 else aer_conflict_index rr
             else if aer_conflict_index rr = 0
                  then if 1 < p_next_index peer then p_next_index peer - 1 else 1
                  else aer_conflict_index rr)
      in max backup 1)"

definition handle_append_entries_resp :: "NodeId \<Rightarrow> AppendEntriesResp \<Rightarrow> Server \<Rightarrow> Server" where
  "handle_append_entries_resp from rr s =
     (if m_current_term s < aer_term rr then maybe_step_down (aer_term rr) s
      else if m_state s \<noteq> LEADER \<or> aer_term rr < m_current_term s then s
      else case node_by_id from s of
             None \<Rightarrow> s
           | Some i \<Rightarrow>
               let now = now_value s;
                   s1 = upd_node i (\<lambda>p. p\<lparr>p_last_contact := now\<rparr>) (now_called s)
               in if aer_success rr
                  then let s2 = upd_node i (\<lambda>p. p\<lparr>
                                  p_next_index := max (aer_last_log_index rr + 1) (p_next_index p),
                                  p_match_index := max (aer_last_log_index rr) (p_match_index p)\<rparr>) s1;
                           s3 = leader_advance_commit s2
                       in if p_next_index (m_nodes s3 ! i) \<le> last_index (m_log s3)
                          then send_append_entries (m_nodes s3 ! i) s3 else s3
                  else let s2 = upd_node i (\<lambda>p. p\<lparr>p_next_index := backup_index rr p s1\<rparr>) s1
                       in apply_committed (send_append_entries (m_nodes s2 ! i) s2))"

section \<open>Snapshot transfer\<close>

definition snap_reply :: "NodeId \<Rightarrow> Server \<Rightarrow> Message" where
  "snap_reply leader s =
     \<lparr>msg_from = m_self_id s, msg_to = leader,
      msg_payload = PInstallSnapshotResp
        \<lparr>isr_term = m_current_term s, isr_last_included_index = lr_base (m_log s)\<rparr>\<rparr>"

text \<open>
  The bounds check adds an offset and a length at 32 bits. The copy is in bounds when the sum
  does not wrap and the length does not exceed the payload array; otherwise the behaviour is
  undefined and only \<open>io_fault\<close> says so.
\<close>

definition store_chunk :: "InstallSnapshot \<Rightarrow> Server \<Rightarrow> Server" where
  "store_chunk is s =
     (let end_off = is_offset is + ucast (is_data_len is)
      in if unat end_off \<le> SNAPSHOT_MAX
         then let in_bounds = (unat (is_offset is) + unat (is_data_len is) \<le> length (m_snap_buf s) \<and>
                               unat (is_data_len is) \<le> length (is_data is));
                  s1 = (if in_bounds
                        then s\<lparr>m_snap_buf := take (unat (is_offset is)) (m_snap_buf s) @
                                 take (unat (is_data_len is)) (is_data is) @
                                 drop (unat (is_offset is) + unat (is_data_len is)) (m_snap_buf s)\<rparr>
                        else s\<lparr>io_fault := True\<rparr>)
              in if m_snap_len s1 < end_off then s1\<lparr>m_snap_len := end_off\<rparr> else s1
         else s)"

definition install_log :: "InstallSnapshot \<Rightarrow> LogRing \<Rightarrow> LogRing" where
  "install_log is r =
     (let retain = (is_last_included_index is \<le> last_index r \<and>
                    term_at r (is_last_included_index is) = Some (is_last_included_term is))
      in if retain
         then compact_to (is_last_included_index is) (is_last_included_term is) r
         else reset_to_snapshot (is_last_included_index is) (is_last_included_term is) r)"

definition handle_install_snapshot :: "InstallSnapshot \<Rightarrow> Server \<Rightarrow> Server" where
  "handle_install_snapshot is s =
     (if is_term is < m_current_term s then emit (snap_reply (is_leader_id is) s) s
      else
        let s1 = become_follower (is_term is) (is_leader_id is) (maybe_step_down (is_term is) s);
            s2 = (if is_offset is = 0
                  then s1\<lparr>m_snap_len := 0, m_snap_index := is_last_included_index is,
                          m_snap_term := is_last_included_term is\<rparr>
                  else s1);
            s3 = store_chunk is s2
        in if \<not> is_done is then emit (snap_reply (is_leader_id is) s3) s3
           else let s4 = s3\<lparr>m_log := install_log is (m_log s3)\<rparr>;
                    s5 = s4\<lparr>m_commit_index := max (m_commit_index s4) (lr_base (m_log s4)),
                            m_last_applied := max (m_last_applied s4) (lr_base (m_log s4))\<rparr>;
                    s6 = call_if (cb_snapshot_load (m_cbs s5))
                           (EvSnapshotLoad (m_snap_buf s5) (m_snap_len s5)) s5;
                    s7 = call_if (cb_persist_log_compact (m_cbs s6))
                           (EvPersistLogCompact (lr_base (m_log s6))) s6
                in apply_committed (emit (snap_reply (is_leader_id is) s7) s7))"

definition handle_install_snapshot_resp :: "NodeId \<Rightarrow> InstallSnapshotResp \<Rightarrow> Server \<Rightarrow> Server" where
  "handle_install_snapshot_resp from rr s =
     (if m_current_term s < isr_term rr then maybe_step_down (isr_term rr) s
      else if m_state s \<noteq> LEADER then s
      else case node_by_id from s of
             None \<Rightarrow> s
           | Some i \<Rightarrow>
               let now = now_value s;
                   s1 = upd_node i (\<lambda>p. p\<lparr>p_last_contact := now\<rparr>) (now_called s);
                   sent_through = min (p_snap_offset (m_nodes s1 ! i) + of_nat SNAPSHOT_CHUNK)
                                      (m_snap_len s1);
                   s2 = upd_node i (\<lambda>p. p\<lparr>p_snap_offset := sent_through\<rparr>) s1
               in if sent_through < m_snap_len s2 then send_install_snapshot (m_nodes s2 ! i) s2
                  else let s3 = upd_node i (\<lambda>p. p\<lparr>p_snap_offset := 0,
                                  p_next_index := max (isr_last_included_index rr + 1) (p_next_index p),
                                  p_match_index := max (isr_last_included_index rr) (p_match_index p)\<rparr>) s2
                       in apply_committed (send_append_entries (m_nodes s3 ! i) s3))"

section \<open>The entry points\<close>

definition handle :: "Message \<Rightarrow> Server \<Rightarrow> Server" where
  "handle msg s =
     (case msg_payload msg of
        PRequestVote rv \<Rightarrow> handle_request_vote rv s
      | PRequestVoteResp rr \<Rightarrow> handle_request_vote_resp (msg_from msg) rr s
      | PAppendEntries ae \<Rightarrow> handle_append_entries ae s
      | PAppendEntriesResp rr \<Rightarrow> handle_append_entries_resp (msg_from msg) rr s
      | PInstallSnapshot is \<Rightarrow> handle_install_snapshot is s
      | PInstallSnapshotResp rr \<Rightarrow> handle_install_snapshot_resp (msg_from msg) rr s)"

definition periodic :: "Server \<Rightarrow> Server" where
  "periodic s =
     (if \<not> m_running s then s
      else let now = now_value s; s1 = now_called s
           in if m_state s1 = LEADER
              then if \<not> contact_with_majority now s1
                   then become_follower (m_current_term s1) BAD_NODE s1
                   else apply_committed
                          (if ucast HEARTBEAT_INTERVAL_MS \<le> now - m_last_heartbeat_sent s1
                           then each_other send_append_entries (s1\<lparr>m_last_heartbeat_sent := now\<rparr>)
                           else s1)
              else apply_committed
                     (if 0 \<le> sint (now - m_election_deadline s1) then start_pre_vote s1 else s1))"

definition submit_entry :: "EntryType \<Rightarrow> u8 list \<Rightarrow> Server \<Rightarrow> Entry" where
  "submit_entry type data s =
     \<lparr>e_term = m_current_term s, e_index = last_index (m_log s) + 1, e_type = type,
      e_data_len = of_nat (length data), e_data = data @ replicate (MAX_ENTRY_DATA - length data) 0\<rparr>"

definition submit :: "EntryType \<Rightarrow> u8 list \<Rightarrow> Server \<Rightarrow> Index Result \<times> Server" where
  "submit type data s =
     (if \<not> m_running s then (Inl SHUTDOWN, s)
      else if m_state s \<noteq> LEADER then (Inl NOT_LEADER, s)
      else if MAX_ENTRY_DATA < length data then (Inl BAD_ARG, s)
      else if full (m_log s) then (Inl LOG_FULL, s)
      else let entry = submit_entry type data s;
               (err, log) = push entry (m_log s)
           in if \<not> ok err then (Inl LOG_FULL, s)
              else let s1 = call_if (cb_persist_log_append (m_cbs s)) (EvPersistLogAppend entry)
                              (s\<lparr>m_log := log\<rparr>);
                       s2 = upd_self (\<lambda>p. p\<lparr>p_match_index := e_index entry\<rparr>) s1;
                       s3 = each_other send_append_entries s2;
                       s4 = (if m_n_nodes s3 = 1 then apply_committed (leader_advance_commit s3)
                             else s3)
                   in (Inr (e_index entry), s4))"

definition can_read :: "Server \<Rightarrow> bool" where
  "can_read s \<longleftrightarrow>
     m_state s = LEADER \<and> m_commit_index s \<noteq> 0 \<and>
     term_at (m_log s) (m_commit_index s) = Some (m_current_term s)"

definition get_entry :: "Index \<Rightarrow> Server \<Rightarrow> Entry option" where
  "get_entry index s = at (m_log s) index"

end
