(* ===== verification/Raft_Election.thy ===== *)
theory Raft_Election
  imports Raft_Server
begin

text \<open>
  Leader election. The abstract election machine \<open>estep\<close> says what a server may do to its term,
  its vote, its role and the votes it has counted; the invariant \<open>einv\<close> is proved for that machine
  once. The refinement lemmas then show that every entry point of the server is a sequence of
  such steps, so the invariant holds for the code.
\<close>

section \<open>The election machine\<close>

text \<open>
  What the outside has seen of a server's elections: a vote made durable, a vote granted to a
  candidate, and a message only a leader sends.
\<close>

datatype VoteEvent = Voted Term NodeId | Granted Term NodeId | Led Term

record EView =
  ev_self :: NodeId
  ev_ids :: "NodeId list"
  ev_term :: Term
  ev_voted :: NodeId
  ev_state :: State
  ev_granted :: "NodeId set"
  ev_count :: nat
  ev_hist :: "VoteEvent list"

text \<open>\<open>R p t\<close>: a granting response of node \<open>p\<close> for term \<open>t\<close> has been delivered.\<close>

inductive estep :: "(NodeId \<Rightarrow> Term \<Rightarrow> bool) \<Rightarrow> EView \<Rightarrow> EView \<Rightarrow> bool" for R where
  adopt: "ev_term v < t \<Longrightarrow>
    estep R v (v\<lparr>ev_term := t, ev_voted := BAD_NODE, ev_state := FOLLOWER,
                 ev_hist := ev_hist v @ [Voted t BAD_NODE]\<rparr>)"
| follow: "estep R v (v\<lparr>ev_state := FOLLOWER\<rparr>)"
| grant: "ev_voted v = BAD_NODE \<or> ev_voted v = c \<Longrightarrow>
    estep R v (v\<lparr>ev_voted := c, ev_hist := ev_hist v @ [Voted (ev_term v) c, Granted (ev_term v) c]\<rparr>)"
| campaign: "ev_term v \<noteq> - 1 \<Longrightarrow>
    estep R v (v\<lparr>ev_term := ev_term v + 1, ev_voted := ev_self v, ev_state := CANDIDATE,
                 ev_granted := {ev_self v}, ev_count := 1,
                 ev_hist := ev_hist v @ [Voted (ev_term v + 1) (ev_self v)]\<rparr>)"
| count: "ev_state v = CANDIDATE \<Longrightarrow> p \<in> set (ev_ids v) \<Longrightarrow> p \<notin> ev_granted v \<Longrightarrow> R p (ev_term v) \<Longrightarrow>
    estep R v (v\<lparr>ev_granted := insert p (ev_granted v), ev_count := Suc (ev_count v)\<rparr>)"
| lead: "ev_state v = CANDIDATE \<Longrightarrow> length (ev_ids v) div 2 + 1 \<le> ev_count v \<Longrightarrow>
    estep R v (v\<lparr>ev_state := LEADER\<rparr>)"
| command: "ev_state v = LEADER \<Longrightarrow>
    estep R v (v\<lparr>ev_hist := ev_hist v @ [Led (ev_term v)]\<rparr>)"

abbreviation esteps :: "(NodeId \<Rightarrow> Term \<Rightarrow> bool) \<Rightarrow> EView \<Rightarrow> EView \<Rightarrow> bool" where
  "esteps R \<equiv> (estep R)\<^sup>*\<^sup>*"

text \<open>
  \<open>V p t c\<close>: node \<open>p\<close> has made durable a vote for \<open>c\<close> in term \<open>t\<close>. The invariant relates what a
  server believes to these votes.
\<close>

definition quorum_for :: "(NodeId \<Rightarrow> Term \<Rightarrow> NodeId \<Rightarrow> bool) \<Rightarrow> NodeId list \<Rightarrow> Term \<Rightarrow> NodeId \<Rightarrow> bool" where
  "quorum_for V ids t c \<longleftrightarrow>
     (\<exists>Q \<subseteq> set ids. length ids div 2 + 1 \<le> card Q \<and> (\<forall>p \<in> Q. V p t c))"

definition votes_ok :: "EView \<Rightarrow> bool" where
  "votes_ok v \<longleftrightarrow>
     (\<forall>t c. Voted t c \<in> set (ev_hist v) \<longrightarrow> t \<le> ev_term v) \<and>
     (\<forall>t c c'. Voted t c \<in> set (ev_hist v) \<longrightarrow> Voted t c' \<in> set (ev_hist v) \<longrightarrow>
        c \<noteq> BAD_NODE \<longrightarrow> c' \<noteq> BAD_NODE \<longrightarrow> c = c') \<and>
     (\<forall>c. Voted (ev_term v) c \<in> set (ev_hist v) \<longrightarrow> c \<noteq> BAD_NODE \<longrightarrow> ev_voted v = c) \<and>
     (\<forall>t c. Granted t c \<in> set (ev_hist v) \<longrightarrow> Voted t c \<in> set (ev_hist v))"

definition role_ok :: "(NodeId \<Rightarrow> Term \<Rightarrow> NodeId \<Rightarrow> bool) \<Rightarrow> EView \<Rightarrow> bool" where
  "role_ok V v \<longleftrightarrow>
     (ev_state v \<noteq> FOLLOWER \<longrightarrow>
        ev_voted v = ev_self v \<and> ev_granted v \<subseteq> set (ev_ids v) \<and>
        ev_count v = card (ev_granted v) \<and> (\<forall>p \<in> ev_granted v. V p (ev_term v) (ev_self v))) \<and>
     (ev_state v = LEADER \<longrightarrow> length (ev_ids v) div 2 + 1 \<le> ev_count v) \<and>
     (\<forall>t. Led t \<in> set (ev_hist v) \<longrightarrow> quorum_for V (ev_ids v) t (ev_self v))"

definition static_ok :: "EView \<Rightarrow> bool" where
  "static_ok v \<longleftrightarrow> ev_self v \<noteq> BAD_NODE \<and> ev_self v \<in> set (ev_ids v) \<and> distinct (ev_ids v)"

definition einv :: "(NodeId \<Rightarrow> Term \<Rightarrow> NodeId \<Rightarrow> bool) \<Rightarrow> EView \<Rightarrow> bool" where
  "einv V v \<longleftrightarrow> static_ok v \<and> votes_ok v \<and> role_ok V v"

lemma word_less_succ:
  assumes "(t :: 'a::len word) \<noteq> - 1"
  shows "t < t + 1"
proof -
  have "t < - 1"
    using assms by (simp add: order.not_eq_order_implies_strict)
  then show ?thesis
    by (simp add: word_less_nat_alt unat_Suc_no_wrap)
qed

lemma estep_static:
  assumes "estep R v v'"
  shows "ev_self v' = ev_self v" and "ev_ids v' = ev_ids v"
  using assms by (auto elim: estep.cases)

lemma estep_hist_mono: "estep R v v' \<Longrightarrow> set (ev_hist v) \<subseteq> set (ev_hist v')"
  by (auto elim!: estep.cases)

lemma estep_votes_ok:
  assumes "estep R v v'" and "static_ok v" and "votes_ok v"
  shows "votes_ok v'"
  using assms
proof (cases rule: estep.cases)
  case (adopt t)
  then show ?thesis
    using assms(3) unfolding votes_ok_def by (fastforce simp: not_less [symmetric])
next
  case (grant c)
  then show ?thesis
    using assms(3) unfolding votes_ok_def by auto
next
  case campaign
  then have "ev_term v < ev_term v + 1"
    by (intro word_less_succ)
  with campaign show ?thesis
    using assms(3) unfolding votes_ok_def by (fastforce simp: not_less [symmetric])
qed (auto simp: votes_ok_def)

lemma quorum_mono:
  "quorum_for V ids t c \<Longrightarrow> (\<And>p t c. V p t c \<Longrightarrow> V' p t c) \<Longrightarrow> quorum_for V' ids t c"
  unfolding quorum_for_def by blast

lemma einv_mono: "einv V v \<Longrightarrow> (\<And>p t c. V p t c \<Longrightarrow> V' p t c) \<Longrightarrow> einv V' v"
  unfolding einv_def role_ok_def by (auto intro: quorum_mono)

text \<open>A leader's counted votes are a quorum for its term.\<close>

lemma role_ok_quorum:
  assumes "role_ok V v" and "ev_state v = LEADER"
  shows "quorum_for V (ev_ids v) (ev_term v) (ev_self v)"
  using assms unfolding role_ok_def quorum_for_def by (metis State.distinct(3))

lemma estep_role_ok:
  assumes step: "estep R v v'" and static: "static_ok v" and role: "role_ok V v"
    and votes: "votes_ok v"
    and resp: "\<And>p t. R p t \<Longrightarrow> V p t (ev_self v)"
    and own: "\<And>t c. Voted t c \<in> set (ev_hist v') \<Longrightarrow> V (ev_self v) t c"
  shows "role_ok V v'"
  using step
proof (cases rule: estep.cases)
  case (grant c)
  show ?thesis
  proof (cases "ev_state v = FOLLOWER")
    case True
    with grant role show ?thesis
      by (auto simp: role_ok_def)
  next
    case False
    then have "ev_voted v = ev_self v"
      using role by (simp add: role_ok_def)
    with grant(2) static have "c = ev_self v"
      by (auto simp: static_ok_def)
    with grant role \<open>ev_voted v = ev_self v\<close> show ?thesis
      by (auto simp: role_ok_def)
  qed
next
  case campaign
  then have "V (ev_self v) (ev_term v + 1) (ev_self v)"
    by (intro own) simp
  with campaign static role show ?thesis
    by (auto simp: role_ok_def static_ok_def)
next
  case (count p)
  have "V p (ev_term v) (ev_self v)"
    using count by (intro resp)
  moreover have "finite (ev_granted v)"
    using role count by (auto simp: role_ok_def intro: finite_subset)
  ultimately show ?thesis
    using count role by (auto simp: role_ok_def)
next
  case command
  then show ?thesis
    using role role_ok_quorum [OF role] by (auto simp: role_ok_def)
qed (use role in \<open>auto simp: role_ok_def\<close>)

lemma estep_einv:
  assumes "estep R v v'" and "einv V v"
    and "\<And>p t. R p t \<Longrightarrow> V p t (ev_self v)"
    and "\<And>t c. Voted t c \<in> set (ev_hist v') \<Longrightarrow> V (ev_self v) t c"
  shows "einv V v'"
proof -
  have inv: "static_ok v" "votes_ok v" "role_ok V v"
    using assms(2) by (simp_all add: einv_def)
  have "role_ok V v'"
    by (rule estep_role_ok [OF assms(1) inv(1,3,2)]) (use assms(3,4) in auto)
  with inv estep_votes_ok [OF assms(1)] estep_static [OF assms(1)] show ?thesis
    by (simp add: einv_def static_ok_def)
qed

lemma esteps_static:
  assumes "esteps R v v'"
  shows "ev_self v' = ev_self v \<and> ev_ids v' = ev_ids v"
  using assms by (induction rule: rtranclp_induct) (auto dest: estep_static)

lemma esteps_hist_mono: "esteps R v v' \<Longrightarrow> set (ev_hist v) \<subseteq> set (ev_hist v')"
  by (induction rule: rtranclp_induct) (auto dest: estep_hist_mono)

lemma esteps_term_mono: "esteps R v v' \<Longrightarrow> ev_term v \<le> ev_term v'"
proof (induction rule: rtranclp_induct)
  case (step y z)
  from step(2) have "ev_term y \<le> ev_term z"
    by (cases rule: estep.cases) (auto intro: less_imp_le word_less_succ)
  with step(3) show ?case
    by (rule order_trans)
qed simp

theorem esteps_einv:
  assumes "esteps R v v'" and "einv V v"
    and resp: "\<And>p t. R p t \<Longrightarrow> V p t (ev_self v)"
    and own: "\<And>t c. Voted t c \<in> set (ev_hist v') \<Longrightarrow> V (ev_self v) t c"
  shows "einv V v'"
  using assms(1,2,4)
proof (induction rule: rtranclp_induct)
  case (step y z)
  have "einv V y"
    using step estep_hist_mono [OF step.hyps(2)] by blast
  with step esteps_static [OF step.hyps(1)] resp show ?case
    by (metis estep_einv)
qed

end
