(* ===== verification/Raft_Refinement.thy ===== *)
theory Raft_Refinement
  imports Raft_Election
begin

text \<open>
  The server implements the election machine: \<open>eview\<close> projects a server to its election view, and
  each entry point is shown to act on the view as a sequence of \<open>estep\<close>s. Operations that do not
  take part in elections leave the view unchanged; those facts are collected in \<open>frame_simps\<close>.
\<close>

section \<open>The election view of a server\<close>

fun vote_event :: "Event \<Rightarrow> VoteEvent list" where
  "vote_event (EvPersistState t c) = [Voted t c]"
| "vote_event (EvSend msg) =
     (case msg_payload msg of
        PRequestVoteResp rr \<Rightarrow>
          if rvr_vote_granted rr \<and> \<not> rvr_pre_vote rr then [Granted (rvr_term rr) (msg_to msg)] else []
      | PAppendEntries ae \<Rightarrow> [Led (ae_term ae)]
      | PInstallSnapshot is \<Rightarrow> [Led (is_term is)]
      | _ \<Rightarrow> [])"
| "vote_event _ = []"

definition vote_hist :: "Event list \<Rightarrow> VoteEvent list" where
  "vote_hist evs = concat (map vote_event evs)"

lemma vote_hist_append [simp]: "vote_hist (xs @ ys) = vote_hist xs @ vote_hist ys"
  by (simp add: vote_hist_def)

lemma vote_hist_single [simp]: "vote_hist [e] = vote_event e"
  by (simp add: vote_hist_def)

lemma vote_hist_Nil [simp]: "vote_hist [] = []"
  by (simp add: vote_hist_def)

definition peer_flags :: "Server \<Rightarrow> (NodeId \<times> bool) list" where
  "peer_flags s = map (\<lambda>p. (p_id p, p_vote_granted p)) (take (m_n_nodes s) (m_nodes s))"

definition eview :: "Server \<Rightarrow> EView" where
  "eview s =
    \<lparr>ev_self = m_self_id s, ev_ids = map fst (peer_flags s), ev_term = m_current_term s,
     ev_voted = m_voted_for s, ev_state = m_state s,
     ev_granted = fst ` {x \<in> set (peer_flags s). snd x}, ev_count = m_votes_granted s,
     ev_hist = vote_hist (io_events s)\<rparr>"

lemma eview_select [simp]:
  "ev_self (eview s) = m_self_id s" "ev_ids (eview s) = map fst (peer_flags s)"
  "ev_term (eview s) = m_current_term s" "ev_voted (eview s) = m_voted_for s"
  "ev_state (eview s) = m_state s" "ev_count (eview s) = m_votes_granted s"
  "ev_granted (eview s) = fst ` {x \<in> set (peer_flags s). snd x}"
  "ev_hist (eview s) = vote_hist (io_events s)"
  by (simp_all add: eview_def)

text \<open>The hooks a server in a cluster has bound: it can send, and it makes its votes durable.\<close>

definition hooks_ok :: "Server \<Rightarrow> bool" where
  "hooks_ok s \<longleftrightarrow> cb_send (m_cbs s) \<and> cb_persist_state (m_cbs s)"

text \<open>
  The table has room for every node of the cluster. A server's static part (its hooks, its
  identity and the number of nodes) is never written after construction.
\<close>

definition nodes_fit :: "Server \<Rightarrow> bool" where
  "nodes_fit s \<longleftrightarrow> m_n_nodes s \<le> length (m_nodes s)"

definition same_statics :: "Server \<Rightarrow> Server \<Rightarrow> bool" where
  "same_statics s s' \<longleftrightarrow>
     m_cbs s' = m_cbs s \<and> m_self_id s' = m_self_id s \<and> m_n_nodes s' = m_n_nodes s \<and>
     length (m_nodes s') = length (m_nodes s)"

lemma same_statics_refl [simp]: "same_statics s s"
  by (simp add: same_statics_def)

lemma same_statics_trans: "same_statics s t \<Longrightarrow> same_statics t u \<Longrightarrow> same_statics s u"
  by (simp add: same_statics_def)

lemma length_peer_flags: "nodes_fit s \<Longrightarrow> length (peer_flags s) = m_n_nodes s"
  by (simp add: peer_flags_def nodes_fit_def)

section \<open>Operations outside elections\<close>

text \<open>\<open>quiet s s'\<close>: nothing the election view or the statics see has changed.\<close>

definition quiet :: "Server \<Rightarrow> Server \<Rightarrow> bool" where
  "quiet s s' \<longleftrightarrow> eview s' = eview s \<and> same_statics s s'"

lemma quiet_refl [simp]: "quiet s s"
  by (simp add: quiet_def)

lemma quiet_trans: "quiet s t \<Longrightarrow> quiet t u \<Longrightarrow> quiet s u"
  by (auto simp: quiet_def intro: same_statics_trans)

lemma quiet_simple [simp, frame_simps]:
  "quiet s (now_called s)" "quiet s (rand_called s)"
  "quiet s (s\<lparr>m_log := l\<rparr>)" "quiet s (s\<lparr>m_commit_index := i\<rparr>)" "quiet s (s\<lparr>m_last_applied := i\<rparr>)"
  "quiet s (s\<lparr>m_current_leader := n\<rparr>)" "quiet s (s\<lparr>m_leader_hint := n\<rparr>)"
  "quiet s (s\<lparr>m_election_deadline := d\<rparr>)" "quiet s (s\<lparr>m_last_heartbeat_sent := d\<rparr>)"
  "quiet s (s\<lparr>m_leader_since := d\<rparr>)" "quiet s (s\<lparr>m_last_leader_contact := d\<rparr>)"
  "quiet s (s\<lparr>m_pre_votes_granted := k\<rparr>)" "quiet s (s\<lparr>m_snap_buf := b\<rparr>)"
  "quiet s (s\<lparr>m_snap_len := w\<rparr>)" "quiet s (s\<lparr>m_snap_index := i\<rparr>)" "quiet s (s\<lparr>m_snap_term := t\<rparr>)"
  "quiet s (s\<lparr>m_running := b1\<rparr>)" "quiet s (s\<lparr>m_pre_vote_active := b1\<rparr>)" "quiet s (s\<lparr>io_fault := b1\<rparr>)"
  by (simp_all add: quiet_def same_statics_def eview_def peer_flags_def now_called_def rand_called_def)

lemma quiet_call_if: "vote_event ev = [] \<Longrightarrow> quiet s (call_if b ev s)"
  by (simp add: quiet_def same_statics_def eview_def peer_flags_def call_if_def record_event_def)

lemma map_update_same:
  assumes "\<And>p. g (f p) = g p"
  shows "map g (xs[i := f (xs ! i)]) = map g xs"
proof (cases "i < length xs")
  case True
  then show ?thesis
    by (metis assms list_update_id map_update nth_map)
qed (simp add: list_update_beyond)

lemma quiet_upd_node:
  assumes "\<And>p. p_id (f p) = p_id p" and "\<And>p. p_vote_granted (f p) = p_vote_granted p"
  shows "quiet s (upd_node i f s)"
proof -
  let ?g = "\<lambda>p. (p_id p, p_vote_granted p)"
  have "map ?g ((m_nodes s)[i := f (m_nodes s ! i)]) = map ?g (m_nodes s)"
    using assms by (intro map_update_same) simp
  then have "take (m_n_nodes s) (map ?g ((m_nodes s)[i := f (m_nodes s ! i)])) =
      take (m_n_nodes s) (map ?g (m_nodes s))"
    by simp
  then have "peer_flags (upd_node i f s) = peer_flags s"
    by (simp add: peer_flags_def upd_node_def take_map)
  then show ?thesis
    by (simp add: quiet_def same_statics_def eview_def) (simp add: upd_node_def)
qed

lemma quiet_upd_self:
  assumes "\<And>p. p_id (f p) = p_id p" and "\<And>p. p_vote_granted (f p) = p_vote_granted p"
  shows "quiet s (upd_self f s)"
  using assms by (auto simp: upd_self_def intro: quiet_upd_node split: option.split)

lemma quiet_upd_all:
  assumes "\<And>p. p_id (f p) = p_id p" and "\<And>p. p_vote_granted (f p) = p_vote_granted p"
  shows "quiet s (upd_all_nodes f s)"
  using assms
  by (simp add: quiet_def same_statics_def eview_def peer_flags_def upd_all_nodes_def comp_def min_def)

lemma quiet_emit:
  assumes "vote_event (EvSend msg) = []"
  shows "quiet s (emit msg s)"
  unfolding emit_def by (rule quiet_call_if) (rule assms)

lemma quiet_reset_election_timer [frame_simps]: "quiet s (reset_election_timer s)"
proof -
  have "quiet s (rand_called (now_called s))"
    by (rule quiet_trans [of _ "now_called s"]) simp_all
  then show ?thesis
    unfolding reset_election_timer_def Let_def by (rule quiet_trans) simp
qed

lemma quiet_begin_snapshot: "quiet s (snd (begin_snapshot s))"
proof -
  have "quiet s (call_if b (EvPersistLogCompact i) (s\<lparr>m_snap_buf := buf, m_snap_len := n, m_log := l\<rparr>))"
    for b i buf n l
    by (rule quiet_trans [OF _ quiet_call_if])
      (simp_all add: quiet_def same_statics_def eview_def peer_flags_def)
  then show ?thesis
    by (simp add: begin_snapshot_def Let_def split: option.split prod.split)
qed

lemma quiet_apply_one: "quiet s (apply_one s)"
  unfolding apply_one_def Let_def
  by (auto intro: quiet_trans [OF quiet_simple(5) quiet_call_if] split: option.split)

lemma quiet_apply_loop: "quiet s (apply_loop s)"
proof (induction s rule: apply_loop.induct)
  case (1 s)
  then show ?case
    by (subst apply_loop.simps) (auto intro: quiet_trans quiet_apply_one)
qed

lemma quiet_apply_committed [frame_simps]: "quiet s (apply_committed s)"
  unfolding apply_committed_def maybe_compact_def Let_def
  by (auto intro: quiet_apply_loop quiet_trans [OF quiet_apply_loop quiet_begin_snapshot])

lemma quiet_append_one: "quiet s (append_one i e s)"
  unfolding append_one_def Let_def
  by (auto intro: quiet_trans [OF quiet_simple(3) quiet_call_if] split: prod.split)

lemma quiet_merge_entry: "quiet s (merge_entry i e s)"
  unfolding merge_entry_def
  by (auto intro!: quiet_append_one quiet_trans [OF quiet_trans [OF quiet_simple(3) quiet_call_if] quiet_append_one]
      split: option.split)

lemma quiet_merge_entries: "quiet s (merge_entries i es s)"
  by (induction es arbitrary: i s) (auto intro: quiet_trans [OF quiet_merge_entry])

lemma quiet_advance_loop: "quiet s (advance_loop i s)"
proof (induction i s rule: advance_loop.induct)
  case (1 i s)
  then show ?case
    by (subst advance_loop.simps) auto
qed

lemma quiet_leader_advance_commit [frame_simps]: "quiet s (leader_advance_commit s)"
  unfolding leader_advance_commit_def
  by (rule quiet_trans [OF quiet_advance_loop quiet_apply_committed])

lemma quiet_store_chunk: "quiet s (store_chunk is s)"
  by (simp add: store_chunk_def Let_def quiet_def same_statics_def eview_def peer_flags_def)

section \<open>Operations that take part in elections\<close>

definition runs :: "(NodeId \<Rightarrow> Term \<Rightarrow> bool) \<Rightarrow> Server \<Rightarrow> Server \<Rightarrow> bool" where
  "runs R s s' \<longleftrightarrow> esteps R (eview s) (eview s') \<and> same_statics s s'"

lemma runs_refl [simp]: "runs R s s"
  by (simp add: runs_def)

lemma runs_trans: "runs R s t \<Longrightarrow> runs R t u \<Longrightarrow> runs R s u"
  by (auto simp: runs_def intro: same_statics_trans)

lemma quiet_runs: "quiet s s' \<Longrightarrow> runs R s s'"
  by (simp add: quiet_def runs_def)

lemma runs_estep: "estep R (eview s) (eview s') \<Longrightarrow> same_statics s s' \<Longrightarrow> runs R s s'"
  by (auto simp: runs_def)

lemma runs_hooks: "runs R s s' \<Longrightarrow> hooks_ok s \<Longrightarrow> hooks_ok s'"
  by (simp add: runs_def same_statics_def hooks_ok_def)

lemma quiet_hooks: "quiet s s' \<Longrightarrow> hooks_ok s' = hooks_ok s"
  by (simp add: quiet_def same_statics_def hooks_ok_def)

lemma quiet_eview:
  assumes "quiet s s'"
  shows "m_state s' = m_state s" and "m_current_term s' = m_current_term s"
    and "m_voted_for s' = m_voted_for s" and "m_self_id s' = m_self_id s"
    and "m_n_nodes s' = m_n_nodes s" and "m_votes_granted s' = m_votes_granted s"
proof -
  have "eview s' = eview s" "same_statics s s'"
    using assms by (simp_all add: quiet_def)
  then show "m_state s' = m_state s" "m_current_term s' = m_current_term s"
      "m_voted_for s' = m_voted_for s" "m_self_id s' = m_self_id s"
      "m_n_nodes s' = m_n_nodes s" "m_votes_granted s' = m_votes_granted s"
    by (metis eview_select(5), metis eview_select(3), metis eview_select(4), metis eview_select(1),
        simp add: same_statics_def, metis eview_select(6))
qed

lemma set_state_view:
  "eview (set_state st s) = (eview s)\<lparr>ev_state := st\<rparr>" "same_statics s (set_state st s)"
  by (simp_all add: set_state_def Let_def eview_def peer_flags_def call_if_def record_event_def
      same_statics_def)

lemma persist_state_view:
  "hooks_ok s \<Longrightarrow> eview (persist_state s) =
     (eview s)\<lparr>ev_hist := vote_hist (io_events s) @ [Voted (m_current_term s) (m_voted_for s)]\<rparr>"
  "same_statics s (persist_state s)"
  by (simp_all add: persist_state_def call_if_def record_event_def hooks_ok_def eview_def
      peer_flags_def same_statics_def)

lemma emit_view:
  "hooks_ok s \<Longrightarrow> eview (emit msg s) =
     (eview s)\<lparr>ev_hist := vote_hist (io_events s) @ vote_event (EvSend msg)\<rparr>"
  "same_statics s (emit msg s)"
  by (simp_all add: emit_def call_if_def record_event_def hooks_ok_def eview_def
      peer_flags_def same_statics_def del: vote_event.simps)

lemma adopt_view:
  assumes "hooks_ok s" and "m_current_term s < t"
  shows "estep R (eview s)
     ((eview (persist_state (s\<lparr>m_current_term := t, m_voted_for := BAD_NODE\<rparr>)))\<lparr>ev_state := FOLLOWER\<rparr>)"
proof -
  have "(eview (persist_state (s\<lparr>m_current_term := t, m_voted_for := BAD_NODE\<rparr>)))\<lparr>ev_state := FOLLOWER\<rparr> =
      (eview s)\<lparr>ev_term := t, ev_voted := BAD_NODE, ev_state := FOLLOWER,
        ev_hist := ev_hist (eview s) @ [Voted t BAD_NODE]\<rparr>"
    using assms(1) by (subst persist_state_view) (simp_all add: hooks_ok_def, simp add: eview_def peer_flags_def)
  then show ?thesis
    using assms(2) by (simp only:) (rule estep.adopt, simp)
qed

lemma same_statics_upd [simp]:
  "same_statics s (s'\<lparr>m_current_term := t, m_voted_for := c\<rparr>) = same_statics s s'"
  "same_statics s (s'\<lparr>m_current_leader := c\<rparr>) = same_statics s s'"
  by (simp_all add: same_statics_def)

lemma runs_maybe_step_down:
  assumes "hooks_ok s"
  shows "runs R s (maybe_step_down t s)"
proof (cases "m_current_term s < t")
  case True
  let ?s1 = "persist_state (s\<lparr>m_current_term := t, m_voted_for := BAD_NODE\<rparr>)"
  have st: "same_statics s ?s1"
    by (rule same_statics_trans [OF _ persist_state_view(2)]) (simp add: same_statics_def)
  have "eview (maybe_step_down t s) = (eview ?s1)\<lparr>ev_state := FOLLOWER\<rparr>"
    using True
    by (auto simp: maybe_step_down_def Let_def set_state_view quiet_simple(6) [unfolded quiet_def]
        intro: EView.equality)
  moreover have "same_statics s (maybe_step_down t s)"
    using True st by (simp add: maybe_step_down_def Let_def same_statics_trans [OF st set_state_view(2)])
  ultimately show ?thesis
    using adopt_view [OF assms True, of R] by (auto intro: runs_estep)
qed (simp add: maybe_step_down_def)

lemma runs_quiet: "runs R s t \<Longrightarrow> quiet t u \<Longrightarrow> runs R s u"
  by (blast intro: runs_trans quiet_runs)

lemma quiet_runs_trans: "quiet s t \<Longrightarrow> runs R t u \<Longrightarrow> runs R s u"
  by (blast intro: runs_trans quiet_runs)

lemma quiet_follow_tail:
  "quiet t (reset_election_timer
     (if leader \<noteq> BAD_NODE then t\<lparr>m_current_leader := leader\<rparr>\<lparr>m_leader_hint := leader\<rparr>
      else t\<lparr>m_current_leader := leader\<rparr>))"
  by (rule quiet_trans [OF _ quiet_reset_election_timer])
    (auto intro: quiet_trans [OF quiet_simple(6) quiet_simple(7)])

lemma runs_become_follower:
  assumes "hooks_ok s"
  shows "runs R s (become_follower t leader s)"
proof -
  let ?s1 = "s\<lparr>m_pre_vote_active := False\<rparr>"
  let ?s2 = "if m_current_term ?s1 < t
     then persist_state (?s1\<lparr>m_current_term := t, m_voted_for := BAD_NODE\<rparr>) else ?s1"
  have q1: "quiet s ?s1"
    by simp
  have "runs R ?s1 (set_state FOLLOWER ?s2)"
  proof (cases "m_current_term s < t")
    case True
    have "hooks_ok ?s1"
      using assms by (simp add: hooks_ok_def)
    from adopt_view [OF this, of t R] True
    have "estep R (eview ?s1) (eview (set_state FOLLOWER ?s2))"
      by (simp add: set_state_view)
    moreover have "same_statics ?s1 (set_state FOLLOWER ?s2)"
      using True
      by (auto intro!: same_statics_trans [OF _ set_state_view(2)] same_statics_trans [OF _ persist_state_view(2)])
    ultimately show ?thesis
      by (rule runs_estep)
  next
    case False
    then show ?thesis
      using estep.follow [of R "eview ?s1"] by (auto intro: runs_estep simp: set_state_view)
  qed
  then have "runs R s (set_state FOLLOWER ?s2)"
    using q1 by (blast intro: runs_trans quiet_runs)
  then show ?thesis
    unfolding become_follower_def Let_def by (blast intro: runs_quiet quiet_follow_tail)
qed

lemma runs_fold:
  assumes step: "\<And>x s. P s \<Longrightarrow> runs R s (f x s) \<and> P (f x s)" and "P s"
  shows "runs R s (fold f xs s) \<and> P (fold f xs s)"
  using assms(2)
proof (induction xs arbitrary: s)
  case (Cons x xs)
  then show ?case
    using step [of s x] Cons.IH [of "f x s"] by (auto intro: runs_trans)
qed simp

lemma quiet_each_other:
  assumes "\<And>p s. quiet s (f p s)"
  shows "quiet s (each_other f s)"
proof -
  have "quiet s (fold (\<lambda>i s. if p_is_self (m_nodes s ! i) then s else f (m_nodes s ! i) s) xs s)" for xs
  proof (induction xs arbitrary: s)
    case (Cons x xs)
    show ?case
      using assms by (auto intro: Cons quiet_trans [OF _ Cons])
  qed simp
  then show ?thesis
    by (simp add: each_other_def)
qed

lemma quiet_send_request_vote: "quiet s (send_request_vote peer s)"
  unfolding send_request_vote_def by (rule quiet_emit) simp

lemma quiet_send_pre_vote: "quiet s (send_pre_vote peer s)"
  unfolding send_pre_vote_def by (rule quiet_emit) simp

text \<open>AppendEntries and InstallSnapshot are sent by leaders only.\<close>

definition leading :: "Server \<Rightarrow> bool" where
  "leading s \<longleftrightarrow> hooks_ok s \<and> m_state s = LEADER"

lemma leading_quiet: "quiet s s' \<Longrightarrow> leading s' = leading s"
  using quiet_eview(1) quiet_hooks by (metis leading_def)

lemma runs_emit_led:
  assumes "leading s" and "vote_event (EvSend msg) = [Led (m_current_term s)]"
  shows "runs R s (emit msg s) \<and> leading (emit msg s)"
proof -
  have v: "eview (emit msg s) = (eview s)\<lparr>ev_hist := ev_hist (eview s) @ [Led (ev_term (eview s))]\<rparr>"
    using assms by (simp add: emit_view leading_def del: vote_event.simps)
  have "estep R (eview s) (eview (emit msg s))"
    unfolding v by (rule estep.command) (use assms(1) in \<open>simp add: leading_def\<close>)
  moreover have "leading (emit msg s)"
    using assms(1)
    by (simp add: leading_def hooks_ok_def emit_def call_if_def record_event_def)
  ultimately show ?thesis
    by (simp add: runs_estep emit_view)
qed

lemma runs_send_install_snapshot:
  assumes "leading s"
  shows "runs R s (send_install_snapshot peer s) \<and> leading (send_install_snapshot peer s)"
proof -
  have f: "leading (s\<lparr>io_fault := True\<rparr>)"
    using assms by (simp add: leading_def hooks_ok_def)
  have q: "runs R s (s\<lparr>io_fault := True\<rparr>)"
    by (rule quiet_runs) simp
  show ?thesis
    unfolding send_install_snapshot_def Let_def
    using assms f runs_trans [OF q] by (auto simp: runs_emit_led)
qed

lemma runs_send_append_entries:
  assumes "leading s"
  shows "runs R s (send_append_entries peer s) \<and> leading (send_append_entries peer s)"
  unfolding send_append_entries_def Let_def
  using assms runs_send_install_snapshot [OF assms]
  by (auto simp: runs_emit_led split: option.split)

lemma runs_each_other_append:
  assumes "leading s"
  shows "runs R s (each_other send_append_entries s) \<and> leading (each_other send_append_entries s)"
  unfolding each_other_def
  by (rule runs_fold [of leading]) (use assms runs_send_append_entries in auto)

end
