(* ===== verification/Raft_Handlers.thy ===== *)
theory Raft_Handlers
  imports Raft_Refinement
begin

text \<open>
  The refinement of the election machine, continued: the role transitions, the six message
  handlers, the periodic tick and the submission of a command are runs of the machine. The
  summary is \<open>runs_handle\<close>, \<open>runs_periodic\<close> and \<open>runs_submit\<close>.
\<close>

section \<open>Becoming leader and candidate\<close>

declare quiet_trans [trans]

lemma same_statics_set_state [simp]: "same_statics s (set_state st s') = same_statics s s'"
  by (simp add: same_statics_def set_state_def Let_def call_if_def record_event_def)

lemma quiet_leader_bookkeeping:
  "quiet s (upd_all_nodes (\<lambda>p. p\<lparr>p_next_index := i, p_match_index := 0\<rparr>) s)"
  "quiet s (upd_all_nodes (\<lambda>p. p\<lparr>p_last_contact := d\<rparr>) s)"
  "quiet s (upd_self (\<lambda>p. p\<lparr>p_match_index := i\<rparr>) s)"
  "quiet s (upd_node k (\<lambda>p. p\<lparr>p_last_contact := d\<rparr>) s)"
  by (simp_all add: quiet_upd_all quiet_upd_self quiet_upd_node)

lemma quiet_log_append:
  "quiet s (call_if b (EvPersistLogAppend e) (s\<lparr>m_log := l\<rparr>))"
  by (rule quiet_trans [OF quiet_simple(3) quiet_call_if]) simp

lemma become_leader_decomp:
  "\<exists>s1. eview s1 = (eview s)\<lparr>ev_state := LEADER\<rparr> \<and> same_statics s s1 \<and> quiet s1 (become_leader s)"
proof -
  let ?last = "last_index (m_log s)"
  let ?s1 = "set_state LEADER (s\<lparr>m_pre_vote_active := False\<rparr>)"
  let ?s2 = "?s1\<lparr>m_current_leader := m_self_id ?s1, m_leader_hint := m_self_id ?s1\<rparr>"
  let ?s3 = "upd_all_nodes (\<lambda>p. p\<lparr>p_next_index := ?last + 1, p_match_index := 0\<rparr>) ?s2"
  let ?s4 = "upd_self (\<lambda>p. p\<lparr>p_match_index := ?last\<rparr>) ?s3"
  have q2: "quiet ?s1 ?s2"
    by (rule quiet_trans [OF quiet_simple(6) quiet_simple(7)])
  have q4: "quiet ?s1 ?s4"
    by (rule quiet_trans [OF quiet_trans [OF q2 quiet_leader_bookkeeping(1)] quiet_leader_bookkeeping(3)])
  have tail: "quiet ?s1 t \<Longrightarrow> quiet ?s1 ((upd_all_nodes (\<lambda>p. p\<lparr>p_last_contact := d\<rparr>) (now_called t))
      \<lparr>m_leader_since := d, m_last_heartbeat_sent := w\<rparr>)" for t d w
  proof -
    let ?u = "upd_all_nodes (\<lambda>p. p\<lparr>p_last_contact := d\<rparr>) (now_called t)"
    assume "quiet ?s1 t"
    also have "quiet t (now_called t)" by simp
    also have "quiet (now_called t) ?u" by (rule quiet_leader_bookkeeping)
    also have "quiet ?u (?u\<lparr>m_leader_since := d\<rparr>)" by simp
    also have "quiet (?u\<lparr>m_leader_since := d\<rparr>) (?u\<lparr>m_leader_since := d, m_last_heartbeat_sent := w\<rparr>)"
      by (rule quiet_simple)
    finally show ?thesis .
  qed
  have "quiet ?s1 (become_leader s)"
    unfolding become_leader_def Let_def
    by (auto intro!: tail q4 quiet_trans [OF quiet_trans [OF q4 quiet_log_append] quiet_leader_bookkeeping(3)]
        split: prod.split)
  moreover have "eview ?s1 = (eview s)\<lparr>ev_state := LEADER\<rparr>"
    using quiet_simple(18) [of s False] by (simp add: set_state_view quiet_def)
  moreover have "same_statics s ?s1"
    by simp (simp add: same_statics_def)
  ultimately show ?thesis
    by blast
qed

lemma runs_become_leader:
  assumes "m_state s = CANDIDATE" and "nodes_fit s" and "majority s \<le> m_votes_granted s"
  shows "runs R s (become_leader s)"
proof -
  obtain s1 where s1: "eview s1 = (eview s)\<lparr>ev_state := LEADER\<rparr>" "same_statics s s1"
      "quiet s1 (become_leader s)"
    using become_leader_decomp by blast
  have "estep R (eview s) ((eview s)\<lparr>ev_state := LEADER\<rparr>)"
    by (rule estep.lead) (use assms in \<open>simp_all add: majority_def length_peer_flags\<close>)
  with s1 have "runs R s s1"
    by (simp add: runs_estep)
  then show ?thesis
    using s1(3) by (rule runs_quiet)
qed

text \<open>How the two writes of the vote flags act on the flags.\<close>

lemma peer_flags_clear:
  "peer_flags (upd_all_nodes (\<lambda>p. p\<lparr>p_vote_granted := False\<rparr>) s) = map (\<lambda>x. (fst x, False)) (peer_flags s)"
  by (simp add: peer_flags_def upd_all_nodes_def comp_def min_def)

lemma peer_flags_mark:
  assumes "i < m_n_nodes s" and "nodes_fit s"
  shows "peer_flags (upd_node i (\<lambda>p. p\<lparr>p_vote_granted := True\<rparr>) s) =
    (peer_flags s)[i := (fst (peer_flags s ! i), True)]"
  using assms
  by (simp add: peer_flags_def upd_node_def take_update_swap map_update nodes_fit_def)

lemma node_by_id_flags:
  assumes "node_by_id nid s = Some i" and "nodes_fit s"
  shows "i < m_n_nodes s" and "i < length (peer_flags s)" and "fst (peer_flags s ! i) = nid"
    and "snd (peer_flags s ! i) = p_vote_granted (m_nodes s ! i)"
  using find_index_SomeD [OF assms(1) [unfolded node_by_id_def]] assms(2)
  by (simp_all add: peer_flags_def nodes_fit_def)

lemma node_by_id_exists:
  assumes "nid \<in> set (map fst (peer_flags s))"
  shows "\<exists>i. node_by_id nid s = Some i"
proof -
  have "\<exists>p \<in> set (take (m_n_nodes s) (m_nodes s)). p_id p = nid"
    using assms by (auto simp: peer_flags_def)
  then show ?thesis
    unfolding node_by_id_def
    by (metis (mono_tags) find_index_None_iff not_Some_eq)
qed

lemma granted_after_mark:
  assumes "i < length fs" and "\<not> snd (fs ! i)" and "fst (fs ! i) = nid"
  shows "fst ` {x \<in> set (fs[i := (nid, True)]). snd x} = insert nid (fst ` {x \<in> set fs. snd x})"
  using assms
proof (induction fs arbitrary: i)
  case (Cons x fs)
  show ?case
  proof (cases i)
    case 0
    with Cons.prems have "{y \<in> set (x # fs). snd y} = {y \<in> set fs. snd y}"
      by auto
    moreover have "{y \<in> set ((x # fs)[i := (nid, True)]). snd y} = insert (nid, True) {y \<in> set fs. snd y}"
      using 0 by auto
    ultimately show ?thesis
      by simp
  next
    case (Suc k)
    have grow: "fst ` {y \<in> set (z # zs). snd y} =
        (if snd z then {fst z} else {}) \<union> fst ` {y \<in> set zs. snd y}" for z :: "'a \<times> bool" and zs
      by auto
    show ?thesis
      using Cons.IH [of k] Cons.prems Suc by (simp add: grow del: list.set)
  qed
qed simp

lemma not_granted:
  assumes "distinct (map fst fs)" and "i < length fs" and "fst (fs ! i) = nid" and "\<not> snd (fs ! i)"
  shows "nid \<notin> fst ` {x \<in> set fs. snd x}"
proof
  assume "nid \<in> fst ` {x \<in> set fs. snd x}"
  then obtain j where "j < length fs" "fst (fs ! j) = nid" "snd (fs ! j)"
    by (auto simp: in_set_conv_nth)
  moreover from this have "j = i"
    using assms(1-3) by (simp add: distinct_conv_nth) metis
  ultimately show False
    using assms(4) by simp
qed

lemma ids_after_mark: "fst (fs ! i) = nid \<Longrightarrow> map fst (fs[i := (nid, b)]) = map fst fs"
  by (metis fst_conv list_update_id map_update nth_map list_update_beyond not_le)

lemma eview_clear:
  "eview (upd_all_nodes (\<lambda>p. p\<lparr>p_vote_granted := False\<rparr>) s) = (eview s)\<lparr>ev_granted := {}\<rparr>"
  by (simp add: eview_def peer_flags_clear comp_def) (auto simp: upd_all_nodes_def)

lemma eview_mark:
  assumes "node_by_id nid s = Some i" and "nodes_fit s" and "\<not> p_vote_granted (m_nodes s ! i)"
  shows "eview ((upd_node i (\<lambda>p. p\<lparr>p_vote_granted := True\<rparr>) s)\<lparr>m_votes_granted := k\<rparr>) =
    (eview s)\<lparr>ev_granted := insert nid (ev_granted (eview s)), ev_count := k\<rparr>"
proof -
  let ?s = "(upd_node i (\<lambda>p. p\<lparr>p_vote_granted := True\<rparr>) s)\<lparr>m_votes_granted := k\<rparr>"
  note pos = node_by_id_flags [OF assms(1,2)]
  have flags: "peer_flags ?s = (peer_flags s)[i := (nid, True)]"
    using peer_flags_mark [OF pos(1) assms(2)] pos(3) by (simp add: peer_flags_def)
  have "fst ` {x \<in> set (peer_flags ?s). snd x} = insert nid (ev_granted (eview s))"
    unfolding flags using granted_after_mark [OF pos(2) _ pos(3)] pos(4) assms(3) by simp
  moreover have "map fst (peer_flags ?s) = map fst (peer_flags s)"
    unfolding flags by (rule ids_after_mark) (rule pos(3))
  ultimately show ?thesis
    by (simp add: eview_def) (simp add: upd_node_def)
qed

definition campaign_start :: "Server \<Rightarrow> Server" where
  "campaign_start s =
     (let s1 = set_state CANDIDATE (s\<lparr>m_pre_vote_active := False\<rparr>);
          s2 = persist_state (s1\<lparr>m_current_term := m_current_term s1 + 1,
                                 m_voted_for := m_self_id s1\<rparr>);
          s3 = s2\<lparr>m_current_leader := BAD_NODE, m_votes_granted := 0\<rparr>;
          s4 = upd_all_nodes (\<lambda>p. p\<lparr>p_vote_granted := False\<rparr>) s3
      in case self_peer s4 of
           Some i \<Rightarrow> (upd_node i (\<lambda>p. p\<lparr>p_vote_granted := True\<rparr>) s4)\<lparr>m_votes_granted := 1\<rparr>
         | None \<Rightarrow> s4)"

lemma become_candidate_eq:
  "become_candidate s =
     (let s6 = each_other send_request_vote (reset_election_timer (campaign_start s))
      in if majority s6 \<le> m_votes_granted s6 then become_leader s6 else s6)"
  by (simp add: become_candidate_def campaign_start_def Let_def)

lemma campaign_fields:
  fixes s :: Server
  defines "s3 \<equiv> (persist_state ((set_state CANDIDATE (s\<lparr>m_pre_vote_active := False\<rparr>))
      \<lparr>m_current_term := m_current_term s + 1, m_voted_for := m_self_id s\<rparr>))
      \<lparr>m_current_leader := BAD_NODE, m_votes_granted := 0\<rparr>"
  assumes "hooks_ok s"
  shows "eview s3 = (eview s)\<lparr>ev_term := m_current_term s + 1, ev_voted := m_self_id s,
      ev_state := CANDIDATE, ev_count := 0,
      ev_hist := ev_hist (eview s) @ [Voted (m_current_term s + 1) (m_self_id s)]\<rparr>"
    and "same_statics s s3"
  using assms
  by (simp_all add: set_state_def persist_state_def call_if_def record_event_def Let_def
      hooks_ok_def eview_def peer_flags_def same_statics_def)

lemma upd_all_nodes_flag:
  assumes "node_by_id nid (upd_all_nodes (\<lambda>p. p\<lparr>p_vote_granted := False\<rparr>) s) = Some i" "nodes_fit s"
  shows "\<not> p_vote_granted (m_nodes (upd_all_nodes (\<lambda>p. p\<lparr>p_vote_granted := False\<rparr>) s) ! i)"
proof -
  have "i < m_n_nodes s"
    using find_index_SomeD(1) [OF assms(1) [unfolded node_by_id_def]] by (simp add: upd_all_nodes_def)
  then show ?thesis
    using assms(2) by (simp add: upd_all_nodes_def nodes_fit_def nth_append)
qed

lemma same_statics_writes [simp]:
  "same_statics s (upd_all_nodes f s') = same_statics s s'"
  "same_statics s (upd_node i f s') = same_statics s s'"
  "same_statics s (s'\<lparr>m_votes_granted := k\<rparr>) = same_statics s s'"
  by (auto simp: same_statics_def upd_all_nodes_def upd_node_def)

lemma same_statics_fit: "same_statics s s' \<Longrightarrow> nodes_fit s' = nodes_fit s"
  by (simp add: same_statics_def nodes_fit_def)

lemma set_state_fields:
  "m_current_term (set_state st (s\<lparr>m_pre_vote_active := b\<rparr>)) = m_current_term s"
  "m_self_id (set_state st (s\<lparr>m_pre_vote_active := b\<rparr>)) = m_self_id s"
  by (simp_all add: set_state_def call_if_def record_event_def Let_def)

lemma runs_campaign_start:
  assumes "hooks_ok s" and "nodes_fit s" and "static_ok (eview s)" and "m_current_term s \<noteq> - 1"
  shows "runs R s (campaign_start s)"
proof -
  define s3 where "s3 = (persist_state ((set_state CANDIDATE (s\<lparr>m_pre_vote_active := False\<rparr>))
      \<lparr>m_current_term := m_current_term s + 1, m_voted_for := m_self_id s\<rparr>))
      \<lparr>m_current_leader := BAD_NODE, m_votes_granted := 0\<rparr>"
  define s4 where "s4 = upd_all_nodes (\<lambda>p. p\<lparr>p_vote_granted := False\<rparr>) s3"
  note c = campaign_fields [OF assms(1), folded s3_def]
  have v4: "eview s4 = (eview s3)\<lparr>ev_granted := {}\<rparr>"
    by (simp add: s4_def eview_clear)
  have st: "same_statics s s4" and fit: "nodes_fit s3" "nodes_fit s4"
    using c(2) assms(2) same_statics_fit [of s s3] same_statics_fit [of s s4]
    by (simp_all add: s4_def)
  have ids: "map fst (peer_flags s4) = map fst (peer_flags s)" "m_self_id s4 = m_self_id s"
    using arg_cong [OF v4, of ev_ids] arg_cong [OF v4, of ev_self] c(1) by simp_all
  obtain i where i: "node_by_id (m_self_id s4) s4 = Some i"
    using node_by_id_exists [of "m_self_id s4" s4] assms(3) ids by (auto simp: static_ok_def)
  have unmarked: "\<not> p_vote_granted (m_nodes s4 ! i)"
    using upd_all_nodes_flag [of _ s3 i] i fit(1) by (simp add: s4_def)
  have granted: "ev_granted (eview s4) = {}"
    unfolding v4 by (simp del: eview_select)
  have "campaign_start s = (upd_node i (\<lambda>p. p\<lparr>p_vote_granted := True\<rparr>) s4)\<lparr>m_votes_granted := 1\<rparr>"
    using i unfolding campaign_start_def Let_def self_peer_def set_state_fields
    by (fold s3_def, fold s4_def) simp
  moreover have "eview \<dots> = (eview s4)\<lparr>ev_granted := {m_self_id s}, ev_count := 1\<rparr>"
    using eview_mark [OF i fit(2) unmarked, of 1] unfolding ids(2) granted by simp
  moreover have "estep R (eview s) ((eview s4)\<lparr>ev_granted := {m_self_id s}, ev_count := 1\<rparr>)"
  proof -
    have "(eview s4)\<lparr>ev_granted := {m_self_id s}, ev_count := 1\<rparr> =
        (eview s)\<lparr>ev_term := ev_term (eview s) + 1, ev_voted := ev_self (eview s),
          ev_state := CANDIDATE, ev_granted := {ev_self (eview s)}, ev_count := 1,
          ev_hist := ev_hist (eview s) @ [Voted (ev_term (eview s) + 1) (ev_self (eview s))]\<rparr>"
      by (rule EView.equality) (simp_all add: v4 c(1))
    then show ?thesis
      using estep.campaign [of "eview s" R] assms(4) by simp
  qed
  ultimately show ?thesis
    using st by (metis runs_estep same_statics_writes(2,3))
qed

text \<open>
  A server that is part of a cluster: its hooks are bound, its table holds every node of the
  cluster under a distinct id, its own among them. None of that changes.
\<close>

definition ready :: "Server \<Rightarrow> bool" where
  "ready s \<longleftrightarrow> hooks_ok s \<and> nodes_fit s \<and> static_ok (eview s)"

lemma runs_ready: "runs R s s' \<Longrightarrow> ready s' = ready s"
  using same_statics_fit [of s s'] esteps_static [of R "eview s" "eview s'"]
  by (simp add: ready_def runs_def hooks_ok_def same_statics_def static_ok_def del: eview_select)

lemma quiet_ready: "quiet s s' \<Longrightarrow> ready s' = ready s"
  by (blast dest: runs_ready quiet_runs)

lemma runs_become_candidate:
  assumes "ready s" and "m_current_term s \<noteq> - 1"
  shows "runs R s (become_candidate s)"
proof -
  let ?c = "campaign_start s"
  let ?s6 = "each_other send_request_vote (reset_election_timer ?c)"
  have c: "runs R s ?c"
    using assms by (simp add: ready_def runs_campaign_start)
  have q: "quiet ?c ?s6"
    by (rule quiet_trans [OF quiet_reset_election_timer quiet_each_other]) (rule quiet_send_request_vote)
  have r6: "runs R s ?s6"
    using c q by (rule runs_quiet)
  have "m_state ?s6 = CANDIDATE"
    using quiet_eview(1) [OF q]
    by (simp add: campaign_start_def Let_def set_state_def upd_node_def upd_all_nodes_def
        persist_state_def call_if_def record_event_def split: option.split)
  moreover have "nodes_fit ?s6"
    using runs_ready [OF r6] assms(1) by (simp add: ready_def)
  ultimately show ?thesis
    unfolding become_candidate_eq Let_def
    using r6 by (auto intro: runs_trans runs_become_leader)
qed

lemma runs_become_candidate_after:
  assumes "quiet s s'" and "ready s" and "m_current_term s \<noteq> - 1"
  shows "runs R s (become_candidate s')"
  using assms runs_become_candidate [of s' R] quiet_ready [OF assms(1)] quiet_eview(2) [OF assms(1)]
  by (metis quiet_runs_trans)

lemma runs_start_pre_vote:
  assumes "ready s" and "m_current_term s \<noteq> - 1"
  shows "runs R s (start_pre_vote s)"
proof -
  let ?s0 = "s\<lparr>m_pre_vote_active := True, m_pre_votes_granted := 1\<rparr>"
  let ?s2 = "each_other send_pre_vote (reset_election_timer ?s0)"
  have "quiet s ?s0"
    by (rule quiet_trans [OF quiet_simple(18) quiet_simple(12)])
  also have "quiet ?s0 ?s2"
    by (rule quiet_trans [OF quiet_reset_election_timer quiet_each_other]) (rule quiet_send_pre_vote)
  finally have q: "quiet s ?s2" .
  then have "quiet s (?s2\<lparr>m_pre_vote_active := False\<rparr>)"
    by (rule quiet_trans) simp
  then show ?thesis
    unfolding start_pre_vote_def Let_def
    using assms q by (auto intro: runs_become_candidate_after quiet_runs)
qed

section \<open>The message handlers\<close>

lemma quiet_refuse: "quiet s (emit (vote_reply c False b s) s)"
  by (rule quiet_emit) (simp add: vote_reply_def)

lemma quiet_pre_reply: "quiet s (emit (vote_reply c b True s) s)"
  by (rule quiet_emit) (simp add: vote_reply_def)

lemma quiet_ae_reply: "quiet s (emit (ae_reply l b i t s) s)"
  by (rule quiet_emit) (simp add: ae_reply_def)

lemma quiet_snap_reply: "quiet s (emit (snap_reply l s) s)"
  by (rule quiet_emit) (simp add: snap_reply_def)

lemma quiet_request_vote_guard: "quiet s (snd (request_vote_guard rv s))"
  unfolding request_vote_guard_def Let_def
  by (auto intro: quiet_trans [OF quiet_simple(1) quiet_pre_reply] quiet_trans [OF quiet_simple(1) quiet_refuse])

lemma runs_grant:
  assumes "hooks_ok s" and "m_voted_for s = BAD_NODE \<or> m_voted_for s = c"
  defines "s3 \<equiv> reset_election_timer (persist_state (s\<lparr>m_voted_for := c\<rparr>))"
  shows "runs R s (emit (vote_reply c True False s3) s3)"
proof -
  let ?p = "persist_state (s\<lparr>m_voted_for := c\<rparr>)"
  have q: "quiet ?p s3"
    unfolding s3_def by (rule quiet_reset_election_timer)
  have p: "eview ?p = (eview s)\<lparr>ev_voted := c, ev_hist := vote_hist (io_events s) @ [Voted (m_current_term s) c]\<rparr>"
      "same_statics s ?p"
    using assms(1)
    by (simp_all add: persist_state_def call_if_def record_event_def hooks_ok_def eview_def
        peer_flags_def same_statics_def)
  have v3: "eview s3 = (eview s)\<lparr>ev_voted := c, ev_hist := vote_hist (io_events s) @ [Voted (m_current_term s) c]\<rparr>"
    and st: "same_statics s s3"
    using p q by (auto simp: quiet_def intro: same_statics_trans)
  have fields: "m_current_term s3 = m_current_term s"
      "vote_hist (io_events s3) = vote_hist (io_events s) @ [Voted (m_current_term s) c]"
    using arg_cong [OF v3, of ev_term] arg_cong [OF v3, of ev_hist] by simp_all
  have h3: "hooks_ok s3"
    using st assms(1) by (simp add: same_statics_def hooks_ok_def)
  have "eview (emit (vote_reply c True False s3) s3) =
      (eview s)\<lparr>ev_voted := c, ev_hist := ev_hist (eview s) @
         [Voted (ev_term (eview s)) c, Granted (ev_term (eview s)) c]\<rparr>"
    unfolding emit_view(1) [OF h3] v3 fields by (simp add: vote_reply_def fields)
  moreover have "estep R (eview s) \<dots>"
    by (rule estep.grant) (use assms(2) in simp)
  ultimately show ?thesis
    using st emit_view(2) [of s3] by (metis runs_estep same_statics_trans)
qed

lemma runs_handle_request_vote:
  assumes "ready s"
  shows "runs R s (handle_request_vote rv s)"
proof -
  obtain g s1 where g: "request_vote_guard rv s = (g, s1)"
    by force
  then have q1: "quiet s s1"
    using quiet_request_vote_guard [of s rv] by simp
  let ?s2 = "maybe_step_down (rv_term rv) s1"
  have r2: "runs R s ?s2"
    using assms q1 quiet_ready [OF q1] by (metis quiet_runs_trans ready_def runs_maybe_step_down)
  then have h2: "hooks_ok ?s2"
    using assms by (auto simp: ready_def intro: runs_hooks)
  show ?thesis
    unfolding handle_request_vote_def g Let_def prod.case
    using q1 r2 h2
    by (auto intro: quiet_runs runs_trans [OF r2] runs_grant quiet_refuse)
qed

lemma runs_handle_request_vote_resp:
  assumes "ready s" and "m_current_term s \<noteq> - 1"
    and resp: "rvr_vote_granted rr \<Longrightarrow> \<not> rvr_pre_vote rr \<Longrightarrow> R from (rvr_term rr)"
  shows "runs R s (handle_request_vote_resp from rr s)"
proof (cases "rvr_pre_vote rr")
  case True
  have q: "quiet s (s\<lparr>m_pre_votes_granted := k\<rparr>)" "quiet s (s\<lparr>m_pre_votes_granted := k, m_pre_vote_active := b\<rparr>)" for k b
    by (simp, rule quiet_trans [OF quiet_simple(12) quiet_simple(18)])
  show ?thesis
    unfolding handle_request_vote_resp_def Let_def using True assms q
    by (auto intro: runs_become_candidate_after quiet_runs)
next
  case False
  have fit: "nodes_fit s" and h: "hooks_ok s"
    using assms(1) by (simp_all add: ready_def)
  have counted: "runs R s s1 \<and> (majority s1 \<le> m_votes_granted s1 \<longrightarrow> runs R s (become_leader s1))"
    if n: "node_by_id from s = Some i" and c: "m_state s = CANDIDATE" and t: "rvr_term rr = m_current_term s"
      and g: "rvr_vote_granted rr" and u: "\<not> p_vote_granted (m_nodes s ! i)"
      and s1: "s1 = (upd_node i (\<lambda>p. p\<lparr>p_vote_granted := True\<rparr>) s)\<lparr>m_votes_granted := Suc (m_votes_granted s)\<rparr>"
    for i s1
  proof -
    note pos = node_by_id_flags [OF n fit]
    have mem: "from \<in> set (ev_ids (eview s))"
      using pos(2,3) nth_mem by fastforce
    moreover have "from \<notin> ev_granted (eview s)"
      using not_granted [of "peer_flags s" i "from"] pos u assms(1)
      by (simp add: ready_def static_ok_def)
    ultimately have "estep R (eview s) (eview s1)"
      using estep.count [of "eview s" "from" R] resp [OF g False] c t
      by (simp add: s1 eview_mark [OF n fit u] del: eview_select(2,7))
    then have r: "runs R s s1"
      by (rule runs_estep) (simp add: s1)
    moreover have "m_state s1 = CANDIDATE" "nodes_fit s1"
      using c runs_ready [OF r] assms(1) by (simp_all add: s1 upd_node_def ready_def)
    ultimately show ?thesis
      by (blast intro: runs_trans runs_become_leader)
  qed
  show ?thesis
    unfolding handle_request_vote_resp_def Let_def using False counted h
    by (auto intro: runs_maybe_step_down split: option.split)
qed

lemma quiet_accept_entries: "quiet s (accept_entries ae s)"
proof -
  let ?s0 = "if view_ok ae then s else s\<lparr>io_fault := True\<rparr>"
  let ?s1 = "merge_entries (ae_prev_log_index ae + 1) (view ae) ?s0"
  have "quiet s ?s0"
    by simp
  also have "quiet ?s0 ?s1"
    by (rule quiet_merge_entries)
  finally have q1: "quiet s ?s1" .
  have tail: "quiet s t \<Longrightarrow> quiet s (apply_committed (emit (ae_reply l b i u t) t))" for t l b i u
    by (blast intro: quiet_trans quiet_ae_reply quiet_apply_committed)
  have "quiet s (?s1\<lparr>m_commit_index := c\<rparr>)" for c
    using q1 by (rule quiet_trans) simp
  then show ?thesis
    unfolding accept_entries_def Let_def using q1 by (auto intro: tail)
qed

lemma runs_follow_leader:
  assumes "hooks_ok s"
  shows "runs R s (become_follower t l (maybe_step_down t' s))"
  using assms runs_maybe_step_down [OF assms] by (blast intro: runs_trans runs_become_follower runs_hooks)

lemma runs_handle_append_entries:
  assumes "ready s"
  shows "runs R s (handle_append_entries ae s)"
proof -
  let ?s1 = "become_follower (ae_term ae) (ae_leader_id ae) (maybe_step_down (ae_term ae) s)"
  let ?s2 = "(now_called ?s1)\<lparr>m_last_leader_contact := now_value ?s1\<rparr>"
  have "runs R s ?s1"
    using assms by (simp add: ready_def runs_follow_leader)
  moreover have "quiet ?s1 ?s2"
    by (rule quiet_trans [OF quiet_simple(1)]) simp
  ultimately have r2: "runs R s ?s2"
    by (rule runs_quiet)
  show ?thesis
    unfolding handle_append_entries_def Let_def
    using runs_quiet [OF r2] quiet_ae_reply quiet_accept_entries quiet_runs
    by (simp split: option.split)
qed

lemma runs_handle_append_entries_resp:
  assumes "ready s"
  shows "runs R s (handle_append_entries_resp from rr s)"
proof -
  have h: "hooks_ok s"
    using assms by (simp add: ready_def)
  have lead: "leading s" if "m_state s = LEADER"
    using h that by (simp add: leading_def)
  have send: "quiet s t \<Longrightarrow> m_state s = LEADER \<Longrightarrow> runs R s (send_append_entries p t)" for t p
    using lead leading_quiet [of s t] runs_send_append_entries [of t R p] by (blast intro: quiet_runs_trans)
  have contact: "quiet s (upd_node i (\<lambda>p. p\<lparr>p_last_contact := d\<rparr>) (now_called s))" for i d
    by (rule quiet_trans [OF quiet_simple(1)]) (rule quiet_leader_bookkeeping)
  have success: "quiet s (leader_advance_commit (upd_node i (\<lambda>p. p\<lparr>
      p_next_index := max a (p_next_index p), p_match_index := max b (p_match_index p)\<rparr>)
      (upd_node i (\<lambda>p. p\<lparr>p_last_contact := d\<rparr>) (now_called s))))" for i a b d
    by (rule quiet_trans [OF quiet_trans [OF contact quiet_upd_node] quiet_leader_advance_commit]) simp_all
  have refused: "quiet s (upd_node i (\<lambda>p. p\<lparr>p_next_index := f p\<rparr>)
      (upd_node i (\<lambda>p. p\<lparr>p_last_contact := d\<rparr>) (now_called s)))" for i f d
    by (rule quiet_trans [OF contact quiet_upd_node]) simp_all
  show ?thesis
    unfolding handle_append_entries_resp_def Let_def
    using h runs_maybe_step_down
    by (auto intro: runs_quiet [OF send quiet_apply_committed] send success refused quiet_runs
        split: option.split)
qed

lemma runs_handle_install_snapshot:
  assumes "ready s"
  shows "runs R s (handle_install_snapshot is s)"
proof -
  let ?s1 = "become_follower (is_term is) (is_leader_id is) (maybe_step_down (is_term is) s)"
  let ?s2 = "if is_offset is = 0
     then ?s1\<lparr>m_snap_len := 0, m_snap_index := is_last_included_index is,
              m_snap_term := is_last_included_term is\<rparr>
     else ?s1"
  let ?s3 = "store_chunk is ?s2"
  have r1: "runs R s ?s1"
    using assms by (simp add: ready_def runs_follow_leader)
  have "quiet ?s1 ?s2"
    by (simp add: quiet_def same_statics_def eview_def peer_flags_def)
  then have q3: "quiet ?s1 ?s3"
    by (rule quiet_trans) (rule quiet_store_chunk)
  have r3: "runs R s ?s3"
    using r1 q3 by (rule runs_quiet)
  have install: "quiet t (call_if b1 (EvPersistLogCompact j) (call_if b2 (EvSnapshotLoad d n)
      (t\<lparr>m_log := l, m_commit_index := c, m_last_applied := a\<rparr>)))" for t b1 b2 j d n l c a
    by (rule quiet_trans [OF quiet_trans [OF _ quiet_call_if] quiet_call_if])
      (simp_all add: quiet_def same_statics_def eview_def peer_flags_def)
  have finished: "quiet ?s3 t \<Longrightarrow> runs R s (apply_committed (emit (snap_reply l t) t))" for t l
    using r3 by (blast intro: runs_quiet quiet_trans quiet_snap_reply quiet_apply_committed)
  show ?thesis
    unfolding handle_install_snapshot_def Let_def
    using quiet_runs [OF quiet_snap_reply] runs_quiet [OF r3 quiet_snap_reply] finished [OF install]
    by simp
qed

lemma runs_handle_install_snapshot_resp:
  assumes "ready s"
  shows "runs R s (handle_install_snapshot_resp from rr s)"
proof -
  have h: "hooks_ok s"
    using assms by (simp add: ready_def)
  have lead: "leading t" if "m_state s = LEADER" "quiet s t" for t
    using h that leading_quiet [OF that(2)] by (simp add: leading_def)
  have sent: "quiet s (upd_node i (\<lambda>p. p\<lparr>p_snap_offset := off\<rparr>)
      (upd_node i (\<lambda>p. p\<lparr>p_last_contact := d\<rparr>) (now_called s)))" for i off d
    by (rule quiet_trans [OF quiet_trans [OF quiet_simple(1) quiet_leader_bookkeeping(4)] quiet_upd_node]) simp_all
  have finished: "quiet s (upd_node i (\<lambda>p. p\<lparr>p_snap_offset := 0, p_next_index := max a (p_next_index p),
        p_match_index := max b (p_match_index p)\<rparr>) (upd_node i (\<lambda>p. p\<lparr>p_snap_offset := off\<rparr>)
      (upd_node i (\<lambda>p. p\<lparr>p_last_contact := d\<rparr>) (now_called s))))" for i off d a b
    by (rule quiet_trans [OF sent quiet_upd_node]) simp_all
  have snd1: "runs R s (send_install_snapshot p t)" and snd2: "runs R s (send_append_entries p t)"
    if "m_state s = LEADER" "quiet s t" for t p
    using lead [OF that] runs_send_install_snapshot runs_send_append_entries that
    by (blast intro: quiet_runs_trans)+
  show ?thesis
    unfolding handle_install_snapshot_resp_def Let_def
    using h runs_maybe_step_down
    by (auto intro: runs_quiet [OF snd2 quiet_apply_committed] snd1 sent finished split: option.split)
qed

section \<open>Every entry point runs the election machine\<close>

theorem runs_handle:
  assumes "ready s" and "m_current_term s \<noteq> - 1"
    and "\<And>rr. msg_payload m = PRequestVoteResp rr \<Longrightarrow> rvr_vote_granted rr \<Longrightarrow> \<not> rvr_pre_vote rr \<Longrightarrow>
      R (msg_from m) (rvr_term rr)"
  shows "runs R s (handle m s)"
  unfolding handle_def
  using assms runs_handle_request_vote_resp [of s] runs_handle_request_vote runs_handle_append_entries
    runs_handle_append_entries_resp runs_handle_install_snapshot runs_handle_install_snapshot_resp
  by (simp split: Payload.split)

theorem runs_periodic:
  assumes "ready s" and "m_current_term s \<noteq> - 1"
  shows "runs R s (periodic s)"
proof -
  let ?s1 = "now_called s"
  have q1: "quiet s ?s1"
    by simp
  have h1: "hooks_ok ?s1" and rd: "ready ?s1" and t1: "m_current_term ?s1 \<noteq> - 1"
    using assms quiet_ready [OF q1] quiet_eview(2) [OF q1] by (auto simp: ready_def)
  have q2: "quiet s (?s1\<lparr>m_last_heartbeat_sent := d\<rparr>)" for d
    by (rule quiet_trans [OF q1]) simp
  have beat: "runs R s (each_other send_append_entries (?s1\<lparr>m_last_heartbeat_sent := d\<rparr>))"
    if "m_state ?s1 = LEADER" for d
  proof -
    have "leading (?s1\<lparr>m_last_heartbeat_sent := d\<rparr>)"
      using that h1 by (simp add: leading_def hooks_ok_def)
    then show ?thesis
      using runs_each_other_append quiet_runs_trans [OF q2] by blast
  qed
  have follow: "runs R s (become_follower t l ?s1)" for t l
    using quiet_runs_trans [OF q1] runs_become_follower [OF h1] by blast
  have pre: "runs R s (start_pre_vote ?s1)"
    using quiet_runs_trans [OF q1] runs_start_pre_vote [OF rd t1] by blast
  have fin: "runs R s t \<Longrightarrow> runs R s (apply_committed t)" for t
    by (rule runs_quiet [OF _ quiet_apply_committed])
  show ?thesis
    unfolding periodic_def Let_def
    using quiet_runs [OF q1] by (auto intro: beat follow pre fin)
qed

theorem runs_submit:
  assumes "ready s"
  shows "runs R s (snd (submit type data s))"
proof (cases "m_state s = LEADER")
  case True
  have "runs R s (each_other send_append_entries (upd_self (\<lambda>p. p\<lparr>p_match_index := i\<rparr>)
      (call_if b (EvPersistLogAppend e) (s\<lparr>m_log := l\<rparr>))))" (is "runs R s (each_other _ ?t)") for i b e l
  proof -
    have q: "quiet s ?t"
      by (rule quiet_trans [OF quiet_log_append quiet_leader_bookkeeping(3)])
    then have "leading ?t"
      using leading_quiet [OF q] True assms by (simp add: leading_def ready_def)
    then show ?thesis
      using runs_each_other_append [of ?t R] quiet_runs_trans [OF q] by blast
  qed
  then show ?thesis
    unfolding submit_def Let_def
    by (auto intro: runs_quiet [OF _ quiet_trans [OF quiet_leader_advance_commit quiet_apply_committed]]
        split: prod.split)
qed (simp add: submit_def)

end
