(* ===== verification/Raft_Cluster.thy ===== *)
theory Raft_Cluster
  imports Raft_Handlers
begin

text \<open>
  The cluster: the servers of \<^verbatim>\<open>EXPECTED_EUIS\<close>, each with its durable term and vote
  (\<^verbatim>\<open>firmware/fog/src/fs/persist.hpp\<close>, \<^verbatim>\<open>raft/engine.hpp\<close>), joined by
  a network that may lose, delay, reorder and duplicate every message ever sent. A node may lose
  its memory and restart from what it persisted. Election safety is proved for all reachable
  clusters.
\<close>

section \<open>Durable term and vote\<close>

record RaftPersist =
  rp_term :: Term
  rp_voted_for :: NodeId

text \<open>
  The storage holds at most one record, under one id; a write replaces it. A read that finds
  nothing leaves the defaults.
\<close>

definition save :: "RaftPersist \<Rightarrow> RaftPersist option \<Rightarrow> RaftPersist option" where
  "save persist nvs = Some persist"

definition load :: "RaftPersist option \<Rightarrow> RaftPersist" where
  "load nvs = (case nvs of Some persist \<Rightarrow> persist | None \<Rightarrow> \<lparr>rp_term = 0, rp_voted_for = 0\<rparr>)"

text \<open>What the storage holds after the calls a server has made.\<close>

fun persist_event :: "Event \<Rightarrow> RaftPersist option \<Rightarrow> RaftPersist option" where
  "persist_event (EvPersistState t v) nvs = save \<lparr>rp_term = t, rp_voted_for = v\<rparr> nvs"
| "persist_event _ nvs = nvs"

definition nvs_content :: "Event list \<Rightarrow> RaftPersist option" where
  "nvs_content evs = fold persist_event evs None"

definition engine_start :: "RaftPersist option \<Rightarrow> Server \<Rightarrow> Server" where
  "engine_start nvs s =
     (let loaded = load nvs in start (restore_state (rp_term loaded) (rp_voted_for loaded) s))"

text \<open>
  A restart constructs the server afresh and starts it on the stored state. The record of past
  calls survives, since the network and the storage do.
\<close>

definition reboot :: "NodeId list \<Rightarrow> Server \<Rightarrow> Server" where
  "reboot ids s =
     engine_start (nvs_content (io_events s))
       ((new_server (m_self_id s) ids (m_cbs s))
          \<lparr>io_events := io_events s, io_now := io_now s, io_rand := io_rand s\<rparr>)"

definition EXPECTED_EUIS :: "NodeId list" where
  "EXPECTED_EUIS = [0xf4ce360a4eac3643, 0xf4ce363a5c916092, 0xf4ce3696247825d1]"

section \<open>Steps of the cluster\<close>

type_synonym Cluster = "NodeId \<Rightarrow> Server"

text \<open>
  A term is never at its largest value when a node acts: with one election per millisecond that
  bound is out of reach for half a billion years.
\<close>

inductive cstep :: "NodeId list \<Rightarrow> Cluster \<Rightarrow> Cluster \<Rightarrow> bool" for ids where
  deliver: "i \<in> set ids \<Longrightarrow> j \<in> set ids \<Longrightarrow> EvSend m \<in> set (io_events (c i)) \<Longrightarrow> msg_to m = j \<Longrightarrow>
    m_current_term (c j) \<noteq> - 1 \<Longrightarrow> cstep ids c (c(j := handle (m\<lparr>msg_from := i\<rparr>) (c j)))"
| tick: "j \<in> set ids \<Longrightarrow> m_current_term (c j) \<noteq> - 1 \<Longrightarrow> cstep ids c (c(j := periodic (c j)))"
| command: "j \<in> set ids \<Longrightarrow> cstep ids c (c(j := snd (submit ty data (c j))))"
| snapshot: "j \<in> set ids \<Longrightarrow> cstep ids c (c(j := snd (begin_snapshot (c j))))"
| halt: "j \<in> set ids \<Longrightarrow> cstep ids c (c(j := stop (c j)))"
| restart: "j \<in> set ids \<Longrightarrow> cstep ids c (c(j := reboot ids (c j)))"

definition initial :: "NodeId list \<Rightarrow> (NodeId \<Rightarrow> Callbacks) \<Rightarrow> Cluster" where
  "initial ids cbs = (\<lambda>i. reboot ids (blank_server i (cbs i)))"

text \<open>
  A configuration the cluster can run: between one and \<^verbatim>\<open>MAX_NODES\<close> distinct ids, none the
  invalid one, and on every node the hooks for the clock, the random source, sending and
  persisting the vote.
\<close>

definition config_ok :: "NodeId list \<Rightarrow> (NodeId \<Rightarrow> Callbacks) \<Rightarrow> bool" where
  "config_ok ids cbs \<longleftrightarrow>
     ids \<noteq> [] \<and> length ids \<le> MAX_NODES \<and> distinct ids \<and> BAD_NODE \<notin> set ids \<and>
     list_all (\<lambda>i. callbacks_valid (cbs i) \<and> cb_send (cbs i) \<and> cb_persist_state (cbs i)) ids"

definition reachable :: "NodeId list \<Rightarrow> (NodeId \<Rightarrow> Callbacks) \<Rightarrow> Cluster \<Rightarrow> bool" where
  "reachable ids cbs c \<longleftrightarrow> (cstep ids)\<^sup>*\<^sup>* (initial ids cbs) c"

section \<open>Quorums\<close>

text \<open>
  Two quorums of one group share a member. This is all that election safety, and any other
  majority argument, needs of the counting.
\<close>

locale quorum_system =
  fixes quorum :: "'g \<Rightarrow> 'n set \<Rightarrow> bool"
  assumes meet: "quorum g Q \<Longrightarrow> quorum g Q' \<Longrightarrow> Q \<inter> Q' \<noteq> {}"
begin

lemma unique_winner:
  assumes "quorum g Q" and "quorum g Q'"
    and "\<forall>p \<in> Q. voted p c" and "\<forall>p \<in> Q'. voted p c'"
    and single: "\<And>p. p \<in> Q \<Longrightarrow> voted p c \<Longrightarrow> voted p c' \<Longrightarrow> c = c'"
  shows "c = c'"
  using meet [OF assms(1,2)] assms(3,4) single by blast

end

definition is_majority :: "NodeId list \<Rightarrow> NodeId set \<Rightarrow> bool" where
  "is_majority ids Q \<longleftrightarrow> Q \<subseteq> set ids \<and> length ids div 2 + 1 \<le> card Q"

interpretation maj: quorum_system is_majority
proof unfold_locales
  fix ids :: "NodeId list" and Q Q' :: "NodeId set"
  assume Q: "is_majority ids Q" "is_majority ids Q'"
  have fin: "finite Q" "finite Q'"
    using Q by (auto simp: is_majority_def intro: finite_subset)
  show "Q \<inter> Q' \<noteq> {}"
  proof
    assume "Q \<inter> Q' = {}"
    then have "card Q + card Q' = card (Q \<union> Q')"
      using fin by (simp add: card_Un_disjoint)
    also have "\<dots> \<le> card (set ids)"
      using Q by (intro card_mono) (auto simp: is_majority_def)
    also have "\<dots> \<le> length ids"
      by (rule card_length)
    finally show False
      using Q by (auto simp: is_majority_def)
  qed
qed

lemma quorum_for_majority:
  "quorum_for V ids t c \<longleftrightarrow> (\<exists>Q. is_majority ids Q \<and> (\<forall>p \<in> Q. V p t c))"
  by (auto simp: quorum_for_def is_majority_def)

section \<open>The cluster invariant\<close>

text \<open>The stored record, read off the voting history.\<close>

fun hist_persist :: "VoteEvent \<Rightarrow> RaftPersist option \<Rightarrow> RaftPersist option" where
  "hist_persist (Voted t v) nvs = Some \<lparr>rp_term = t, rp_voted_for = v\<rparr>"
| "hist_persist _ nvs = nvs"

lemma persist_event_hist: "fold hist_persist (vote_event ev) nvs = persist_event ev nvs"
  by (cases ev) (auto simp: save_def split: Payload.split)

lemma nvs_content_hist: "nvs_content evs = fold hist_persist (vote_hist evs) None"
proof -
  have "fold persist_event evs nvs = fold hist_persist (vote_hist evs) nvs" for nvs
    by (induction evs arbitrary: nvs) (simp_all add: vote_hist_def persist_event_hist)
  then show ?thesis
    by (simp add: nvs_content_def)
qed

definition durable :: "EView \<Rightarrow> bool" where
  "durable v \<longleftrightarrow>
     (case fold hist_persist (ev_hist v) None of
        Some p \<Rightarrow> ev_term v = rp_term p \<and> ev_voted v = rp_voted_for p
      | None \<Rightarrow> ev_term v = 0)"

lemma estep_durable: "estep R v v' \<Longrightarrow> durable v \<Longrightarrow> durable v'"
  by (erule estep.cases) (auto simp: durable_def split: option.splits)

lemma esteps_durable: "esteps R v v' \<Longrightarrow> durable v \<Longrightarrow> durable v'"
  by (induction rule: rtranclp_induct) (auto intro: estep_durable)

lemma nvs_none_no_votes:
  assumes "fold hist_persist h None = None"
  shows "Voted t c \<notin> set h"
proof
  have grows: "fold hist_persist h nvs \<noteq> None" if "nvs \<noteq> None" for h and nvs :: "RaftPersist option"
    using that by (induction h arbitrary: nvs) (auto, case_tac a, auto)
  assume "Voted t c \<in> set h"
  then obtain xs ys where "h = xs @ Voted t c # ys"
    by (auto dest: split_list)
  then show False
    using assms grows by simp
qed

definition voted_in :: "Cluster \<Rightarrow> NodeId \<Rightarrow> Term \<Rightarrow> NodeId \<Rightarrow> bool" where
  "voted_in c p t v \<longleftrightarrow> Voted t v \<in> set (vote_hist (io_events (c p)))"

definition node_inv :: "NodeId list \<Rightarrow> (NodeId \<Rightarrow> Callbacks) \<Rightarrow> Cluster \<Rightarrow> NodeId \<Rightarrow> bool" where
  "node_inv ids cbs c j \<longleftrightarrow>
     ready (c j) \<and> m_cbs (c j) = cbs j \<and> m_self_id (c j) = j \<and> ev_ids (eview (c j)) = ids \<and>
     durable (eview (c j)) \<and> einv (voted_in c) (eview (c j))"

definition cluster_inv :: "NodeId list \<Rightarrow> (NodeId \<Rightarrow> Callbacks) \<Rightarrow> Cluster \<Rightarrow> bool" where
  "cluster_inv ids cbs c \<longleftrightarrow> (\<forall>j \<in> set ids. node_inv ids cbs c j)"

text \<open>A run of one node keeps the invariant of the whole cluster.\<close>

lemma cluster_inv_run:
  assumes inv: "cluster_inv ids cbs c" and j: "j \<in> set ids" and run: "runs R (c j) s'"
    and resp: "\<And>p t. R p t \<Longrightarrow> voted_in c p t j"
  shows "cluster_inv ids cbs (c(j := s'))"
  unfolding cluster_inv_def
proof
  let ?c = "c(j := s')"
  have steps: "esteps R (eview (c j)) (eview s')" and st: "same_statics (c j) s'"
    using run by (simp_all add: runs_def)
  have mono: "voted_in c p t v \<Longrightarrow> voted_in ?c p t v" for p t v
    using esteps_hist_mono [OF steps] by (auto simp: voted_in_def)
  fix k
  assume k: "k \<in> set ids"
  have nk: "node_inv ids cbs c k" and nj: "node_inv ids cbs c j"
    using inv k j by (simp_all add: cluster_inv_def)
  show "node_inv ids cbs ?c k"
  proof (cases "k = j")
    case False
    then show ?thesis
      using nk mono by (auto simp: node_inv_def intro: einv_mono)
  next
    case True
    have "einv (voted_in ?c) (eview s')"
      using steps
    proof (rule esteps_einv)
      show "einv (voted_in ?c) (eview (c j))"
        using nj mono by (auto simp: node_inv_def intro: einv_mono)
      show "R p t \<Longrightarrow> voted_in ?c p t (ev_self (eview (c j)))" for p t
        using nj mono resp by (simp add: node_inv_def)
      show "Voted t v \<in> set (ev_hist (eview s')) \<Longrightarrow> voted_in ?c (ev_self (eview (c j))) t v" for t v
        using nj by (simp add: node_inv_def voted_in_def)
    qed
    moreover have "durable (eview s')"
      using nj steps by (auto simp: node_inv_def intro: esteps_durable)
    ultimately show ?thesis
      using True nj runs_ready [OF run] esteps_static [OF steps] st
      by (simp add: node_inv_def same_statics_def)
  qed
qed

text \<open>A restart from the stored term and vote keeps it too.\<close>

lemma eview_start: "eview (start s) = (eview s)\<lparr>ev_state := FOLLOWER\<rparr>" "same_statics s (start s)"
proof -
  let ?t = "set_state FOLLOWER (s\<lparr>m_running := True\<rparr>)"
  have q: "quiet ?t (start s)"
    unfolding start_def by (rule quiet_reset_election_timer)
  then show "eview (start s) = (eview s)\<lparr>ev_state := FOLLOWER\<rparr>"
    using quiet_simple(17) [of s True] by (simp add: quiet_def set_state_view)
  have "same_statics s ?t"
    by simp (simp add: same_statics_def)
  then show "same_statics s (start s)"
    using q unfolding quiet_def by (blast intro: same_statics_trans)
qed

lemma reboot_view:
  assumes "ids \<noteq> []" and "length ids \<le> MAX_NODES" and "callbacks_valid (m_cbs s)"
  defines "p \<equiv> load (nvs_content (io_events s))"
  shows "eview (reboot ids s) =
      \<lparr>ev_self = m_self_id s, ev_ids = ids, ev_term = rp_term p, ev_voted = rp_voted_for p,
       ev_state = FOLLOWER, ev_granted = {}, ev_count = 0, ev_hist = vote_hist (io_events s)\<rparr>"
    and "m_cbs (reboot ids s) = m_cbs s" and "nodes_fit (reboot ids s)"
    and "m_self_id (reboot ids s) = m_self_id s"
proof -
  let ?n = "restore_state (rp_term p) (rp_voted_for p)
    ((new_server (m_self_id s) ids (m_cbs s))
       \<lparr>io_events := io_events s, io_now := io_now s, io_rand := io_rand s\<rparr>)"
  have r: "reboot ids s = start ?n"
    by (simp add: reboot_def engine_start_def p_def Let_def)
  have n: "?n = (blank_server (m_self_id s) (m_cbs s))\<lparr>m_n_nodes := length ids,
      m_nodes := map (make_peer (m_self_id s)) ids @ drop (length ids) (replicate MAX_NODES default_peer),
      m_valid := m_self_id s \<in> set ids, m_current_term := rp_term p, m_voted_for := rp_voted_for p,
      io_events := io_events s, io_now := io_now s, io_rand := io_rand s\<rparr>"
    using assms(1-3) by (simp add: new_server_def restore_state_def Let_def blank_server_def)
  have flags: "peer_flags ?n = map (\<lambda>i. (i, False)) ids"
    unfolding n by (simp add: peer_flags_def make_peer_def default_peer_def)
  have "eview ?n =
      \<lparr>ev_self = m_self_id s, ev_ids = ids, ev_term = rp_term p, ev_voted = rp_voted_for p,
       ev_state = FOLLOWER, ev_granted = {}, ev_count = 0, ev_hist = vote_hist (io_events s)\<rparr>"
    unfolding eview_def flags by (auto simp: n blank_server_def comp_def)
  then show "eview (reboot ids s) =
      \<lparr>ev_self = m_self_id s, ev_ids = ids, ev_term = rp_term p, ev_voted = rp_voted_for p,
       ev_state = FOLLOWER, ev_granted = {}, ev_count = 0, ev_hist = vote_hist (io_events s)\<rparr>"
    unfolding r eview_start(1) by simp
  have st: "same_statics ?n (reboot ids s)"
    unfolding r by (rule eview_start(2))
  have "nodes_fit ?n"
    unfolding n using assms(2) by (simp add: nodes_fit_def)
  with st show "nodes_fit (reboot ids s)"
    using same_statics_fit by blast
  show "m_cbs (reboot ids s) = m_cbs s" "m_self_id (reboot ids s) = m_self_id s"
    using st unfolding same_statics_def by (simp_all add: n blank_server_def)
qed

lemma config_node:
  assumes "config_ok ids cbs" and "j \<in> set ids"
  shows "ids \<noteq> []" "length ids \<le> MAX_NODES" "callbacks_valid (cbs j)" "cb_send (cbs j)"
    "cb_persist_state (cbs j)" "j \<noteq> BAD_NODE" "distinct ids"
  using assms by (auto simp: config_ok_def list_all_iff)

text \<open>
  The view of a node after a restart: same identity, members and history, its term and vote as
  stored, and no votes counted.
\<close>

lemma reboot_node_inv:
  assumes cfg: "config_ok ids cbs" and j: "j \<in> set ids"
    and s: "m_cbs s = cbs j" "m_self_id s = j"
    and votes: "votes_ok ((eview s)\<lparr>ev_term := rp_term p, ev_voted := rp_voted_for p\<rparr>)"
    and led: "\<forall>t. Led t \<in> set (vote_hist (io_events s)) \<longrightarrow> quorum_for (voted_in c) ids t j"
    and p: "p = load (nvs_content (io_events s))"
  shows "ready (reboot ids s) \<and> m_cbs (reboot ids s) = cbs j \<and> m_self_id (reboot ids s) = j \<and>
    ev_ids (eview (reboot ids s)) = ids \<and> durable (eview (reboot ids s)) \<and>
    einv (voted_in c) (eview (reboot ids s))"
proof -
  note cn = config_node [OF cfg j]
  have valid: "callbacks_valid (m_cbs s)"
    using cn(3) s by simp
  note v = reboot_view [OF cn(1,2) valid, folded p]
  have static: "static_ok (eview (reboot ids s))"
    unfolding v(1) using cn j s by (simp add: static_ok_def)
  have "durable (eview (reboot ids s))"
    unfolding v(1) using p
    by (auto simp: durable_def nvs_content_hist load_def split: option.split)
  moreover have "votes_ok (eview (reboot ids s))"
    using votes unfolding v(1) by (simp add: votes_ok_def)
  moreover have "role_ok (voted_in c) (eview (reboot ids s))"
    using led s unfolding v(1) by (simp add: role_ok_def)
  moreover have "ready (reboot ids s)"
    using static v(2,3) cn(4,5) s by (simp add: ready_def hooks_ok_def)
  moreover have "ev_ids (eview (reboot ids s)) = ids"
    unfolding v(1) by simp
  ultimately show ?thesis
    using static v(2,4) s by (simp add: einv_def del: eview_select)
qed

lemma cluster_inv_reboot:
  assumes cfg: "config_ok ids cbs" and inv: "cluster_inv ids cbs c" and j: "j \<in> set ids"
  shows "cluster_inv ids cbs (c(j := reboot ids (c j)))"
proof -
  let ?p = "load (nvs_content (io_events (c j)))"
  let ?c = "c(j := reboot ids (c j))"
  have nj: "node_inv ids cbs c j"
    using inv j by (simp add: cluster_inv_def)
  then have s: "m_cbs (c j) = cbs j" "m_self_id (c j) = j"
    and ids: "ev_ids (eview (c j)) = ids" and e: "einv (voted_in c) (eview (c j))"
    and d: "durable (eview (c j))"
    by (simp_all add: node_inv_def)
  have cn: "ids \<noteq> []" "length ids \<le> MAX_NODES" "callbacks_valid (m_cbs (c j))"
    using config_node [OF cfg j] s by simp_all
  have "vote_hist (io_events (reboot ids (c j))) = vote_hist (io_events (c j))"
    using arg_cong [OF reboot_view(1) [OF cn], of ev_hist] by simp
  then have same: "voted_in ?c = voted_in c"
    by (auto simp: voted_in_def fun_eq_iff)
  have "votes_ok ((eview (c j))\<lparr>ev_term := rp_term ?p, ev_voted := rp_voted_for ?p\<rparr>)"
  proof (cases "nvs_content (io_events (c j))")
    case None
    then have "Voted t v \<notin> set (ev_hist (eview (c j)))" for t v
      by (simp add: nvs_content_hist nvs_none_no_votes)
    then show ?thesis
      using e by (simp add: einv_def votes_ok_def)
  next
    case (Some p)
    then have "ev_term (eview (c j)) = rp_term ?p" "ev_voted (eview (c j)) = rp_voted_for ?p"
      using d by (simp_all add: durable_def nvs_content_hist load_def)
    then have "(eview (c j))\<lparr>ev_term := rp_term ?p, ev_voted := rp_voted_for ?p\<rparr> = eview (c j)"
      by (intro EView.equality) simp_all
    then show ?thesis
      using e by (simp add: einv_def)
  qed
  moreover have "\<forall>t. Led t \<in> set (vote_hist (io_events (c j))) \<longrightarrow> quorum_for (voted_in c) ids t j"
    using e ids s by (simp add: einv_def role_ok_def)
  ultimately have "node_inv ids cbs ?c j"
    using reboot_node_inv [OF cfg j s, of ?p c] by (simp add: node_inv_def same)
  moreover have "node_inv ids cbs ?c k" if "k \<in> set ids" "k \<noteq> j" for k
    using inv that by (simp add: cluster_inv_def node_inv_def same)
  ultimately show ?thesis
    unfolding cluster_inv_def by blast
qed

lemma initial_inv:
  assumes "config_ok ids cbs"
  shows "cluster_inv ids cbs (initial ids cbs)"
  unfolding cluster_inv_def node_inv_def
proof
  fix j
  assume "j \<in> set ids"
  then show "ready (initial ids cbs j) \<and> m_cbs (initial ids cbs j) = cbs j \<and>
      m_self_id (initial ids cbs j) = j \<and> ev_ids (eview (initial ids cbs j)) = ids \<and>
      durable (eview (initial ids cbs j)) \<and>
      einv (voted_in (initial ids cbs)) (eview (initial ids cbs j))"
    unfolding initial_def [of ids cbs, THEN fun_cong, of j]
    by (intro reboot_node_inv [OF assms])
      (simp_all add: blank_server_def votes_ok_def)
qed

text \<open>Delivered votes have been cast: a granting reply is sent only for a vote made durable.\<close>

lemma granted_in_hist:
  assumes "EvSend m \<in> set evs" and "msg_payload m = PRequestVoteResp rr"
    and "rvr_vote_granted rr" and "\<not> rvr_pre_vote rr"
  shows "Granted (rvr_term rr) (msg_to m) \<in> set (vote_hist evs)"
  using assms by (auto simp: vote_hist_def intro!: bexI [of _ "EvSend m"])

text \<open>Every step is a run of the election machine at one node, or a restart of one node.\<close>

lemma cstep_runs:
  assumes "cstep ids c c'" and inv: "cluster_inv ids cbs c"
  obtains j R s' where "j \<in> set ids" "c' = c(j := s')"
    "runs R (c j) s' \<and> (\<forall>p t. R p t \<longrightarrow> voted_in c p t j) \<or> s' = reboot ids (c j)"
  using assms(1)
proof (cases rule: cstep.cases)
  case (deliver i j m)
  let ?R = "\<lambda>p t. p = i \<and> Granted t j \<in> set (vote_hist (io_events (c i)))"
  have "ready (c j)" and ei: "einv (voted_in c) (eview (c i))"
    using inv deliver by (simp_all add: cluster_inv_def node_inv_def)
  then have "runs ?R (c j) (handle (m\<lparr>msg_from := i\<rparr>) (c j))"
    using deliver granted_in_hist [OF deliver(4)] by (intro runs_handle) auto
  moreover have "\<forall>p t. ?R p t \<longrightarrow> voted_in c p t j"
    using ei by (auto simp: einv_def votes_ok_def voted_in_def)
  ultimately show ?thesis
    using that deliver(1,3) by blast
next
  case (tick j)
  then have "runs (\<lambda>_ _. False) (c j) (periodic (c j))"
    using inv by (intro runs_periodic) (simp_all add: cluster_inv_def node_inv_def)
  then show ?thesis
    using that tick(1,2) by blast
next
  case (command j ty data)
  then have "runs (\<lambda>_ _. False) (c j) (snd (submit ty data (c j)))"
    using inv by (intro runs_submit) (simp_all add: cluster_inv_def node_inv_def)
  then show ?thesis
    using that command by blast
next
  case (snapshot j)
  have "runs (\<lambda>_ _. False) (c j) (snd (begin_snapshot (c j)))"
    by (rule quiet_runs) (rule quiet_begin_snapshot)
  then show ?thesis
    using that snapshot by blast
next
  case (halt j)
  have "runs (\<lambda>_ _. False) (c j) (stop (c j))"
    by (rule quiet_runs) (simp add: stop_def)
  then show ?thesis
    using that halt by blast
next
  case (restart j)
  then show ?thesis
    using that by blast
qed

lemma cstep_inv:
  assumes cfg: "config_ok ids cbs" and "cstep ids c c'" and inv: "cluster_inv ids cbs c"
  shows "cluster_inv ids cbs c'"
  using assms(2) inv
proof (rule cstep_runs)
  fix j R s'
  assume j: "j \<in> set ids" "c' = c(j := s')"
    and "runs R (c j) s' \<and> (\<forall>p t. R p t \<longrightarrow> voted_in c p t j) \<or> s' = reboot ids (c j)"
  then show ?thesis
    using cluster_inv_run [OF inv j(1)] cluster_inv_reboot [OF cfg inv j(1)] by blast
qed

lemma reboot_term:
  assumes cfg: "config_ok ids cbs" and inv: "cluster_inv ids cbs c" and j: "j \<in> set ids"
  shows "m_current_term (reboot ids (c j)) = m_current_term (c j)"
proof -
  have nj: "node_inv ids cbs c j"
    using inv j by (simp add: cluster_inv_def)
  have cn: "ids \<noteq> []" "length ids \<le> MAX_NODES" "callbacks_valid (m_cbs (c j))"
    using config_node [OF cfg j] nj by (simp_all add: node_inv_def)
  show ?thesis
    using arg_cong [OF reboot_view(1) [OF cn], of ev_term] nj
    by (simp add: node_inv_def durable_def nvs_content_hist load_def split: option.splits)
qed

lemma reachable_inv:
  assumes "config_ok ids cbs" and "reachable ids cbs c"
  shows "cluster_inv ids cbs c"
  using assms(2) unfolding reachable_def
  by (induction rule: rtranclp_induct) (auto intro: initial_inv cstep_inv assms(1))

section \<open>Election safety\<close>

lemma cluster_single_vote:
  assumes "cluster_inv ids cbs c" and "p \<in> set ids" and "voted_in c p t v" and "voted_in c p t w"
    and "v \<noteq> BAD_NODE" and "w \<noteq> BAD_NODE"
  shows "v = w"
  using assms unfolding cluster_inv_def node_inv_def einv_def votes_ok_def voted_in_def
  by simp

lemma cluster_unique_quorum:
  assumes cfg: "config_ok ids cbs" and inv: "cluster_inv ids cbs c" and ij: "i \<in> set ids" "j \<in> set ids"
    and "quorum_for (voted_in c) ids t i" and "quorum_for (voted_in c) ids t j"
  shows "i = j"
proof -
  obtain Q Q' where Q: "is_majority ids Q" "\<forall>p \<in> Q. voted_in c p t i"
    and Q': "is_majority ids Q'" "\<forall>p \<in> Q'. voted_in c p t j"
    using assms(5,6) by (auto simp: quorum_for_majority)
  have "i \<noteq> BAD_NODE" "j \<noteq> BAD_NODE"
    using config_node(6) [OF cfg] ij by blast+
  then have "i = j" if "p \<in> Q" "voted_in c p t i" "voted_in c p t j" for p
    using cluster_single_vote [OF inv, of p t i j] Q(1) that by (auto simp: is_majority_def)
  then show ?thesis
    by (rule maj.unique_winner [OF Q(1) Q'(1) Q(2) Q'(2)])
qed

section \<open>A cluster of one\<close>

text \<open>
  A node that is its whole cluster needs no vote but its own: its first timeout makes it leader.
  The lemmas also serve to exhibit reachable clusters with a leader.
\<close>

lemma become_leader_view:
  "m_state (become_leader s) = LEADER" "m_current_term (become_leader s) = m_current_term s"
proof -
  obtain s1 where s1: "eview s1 = (eview s)\<lparr>ev_state := LEADER\<rparr>" "quiet s1 (become_leader s)"
    using become_leader_decomp by blast
  then have "eview (become_leader s) = (eview s)\<lparr>ev_state := LEADER\<rparr>"
    by (simp add: quiet_def)
  from arg_cong [OF this, of ev_state] arg_cong [OF this, of ev_term]
  show "m_state (become_leader s) = LEADER" "m_current_term (become_leader s) = m_current_term s"
    by simp_all
qed

lemma campaign_start_fields:
  assumes "ready s"
  shows "m_votes_granted (campaign_start s) = 1" "m_current_term (campaign_start s) = m_current_term s + 1"
    "m_n_nodes (campaign_start s) = m_n_nodes s"
proof -
  define s3 where "s3 = (persist_state ((set_state CANDIDATE (s\<lparr>m_pre_vote_active := False\<rparr>))
      \<lparr>m_current_term := m_current_term s + 1, m_voted_for := m_self_id s\<rparr>))
      \<lparr>m_current_leader := BAD_NODE, m_votes_granted := 0\<rparr>"
  define s4 where "s4 = upd_all_nodes (\<lambda>p. p\<lparr>p_vote_granted := False\<rparr>) s3"
  have h: "hooks_ok s" and self: "m_self_id s \<in> set (ev_ids (eview s))"
    using assms by (simp_all add: ready_def static_ok_def)
  note c = campaign_fields [OF h, folded s3_def]
  have v: "eview s4 = (eview s3)\<lparr>ev_granted := {}\<rparr>"
    by (simp add: s4_def eview_clear)
  have ids: "ev_ids (eview s4) = ev_ids (eview s)" "ev_self (eview s4) = ev_self (eview s)"
    unfolding v c(1) by (simp_all del: eview_select)
  then obtain i where i: "self_peer s4 = Some i"
    using self node_by_id_exists [of "m_self_id s4" s4] by (auto simp: self_peer_def)
  have eq: "campaign_start s = (upd_node i (\<lambda>p. p\<lparr>p_vote_granted := True\<rparr>) s4)\<lparr>m_votes_granted := 1\<rparr>"
    using i unfolding campaign_start_def Let_def set_state_fields by (fold s3_def, fold s4_def) simp
  show "m_votes_granted (campaign_start s) = 1"
    unfolding eq by simp
  show "m_current_term (campaign_start s) = m_current_term s + 1"
    using arg_cong [OF v, of ev_term] c(1) unfolding eq by (simp add: upd_node_def)
  show "m_n_nodes (campaign_start s) = m_n_nodes s"
    using c(2) unfolding eq by (simp add: upd_node_def s4_def upd_all_nodes_def same_statics_def)
qed

lemma become_candidate_alone:
  assumes "ready s" and "m_n_nodes s = 1"
  shows "m_state (become_candidate s) = LEADER" "m_current_term (become_candidate s) = m_current_term s + 1"
proof -
  let ?s6 = "each_other send_request_vote (reset_election_timer (campaign_start s))"
  have q: "quiet (campaign_start s) ?s6"
    by (rule quiet_trans [OF quiet_reset_election_timer quiet_each_other]) (rule quiet_send_request_vote)
  then have "majority ?s6 \<le> m_votes_granted ?s6" "m_current_term ?s6 = m_current_term s + 1"
    using quiet_eview [OF q] campaign_start_fields [OF assms(1)] assms(2) by (simp_all add: majority_def)
  then show "m_state (become_candidate s) = LEADER" "m_current_term (become_candidate s) = m_current_term s + 1"
    unfolding become_candidate_eq Let_def by (simp_all add: become_leader_view)
qed

lemma each_other_field:
  assumes "\<And>p s. g (f p s) = g s"
  shows "g (each_other f s) = g s"
proof -
  have "g (fold (\<lambda>i s. if p_is_self (m_nodes s ! i) then s else f (m_nodes s ! i) s) xs s) = g s" for xs
    by (induction xs arbitrary: s) (auto simp: assms)
  then show ?thesis
    by (simp add: each_other_def)
qed

lemma start_pre_vote_alone:
  assumes "ready s" and "m_n_nodes s = 1"
  shows "m_state (start_pre_vote s) = LEADER" "m_current_term (start_pre_vote s) = m_current_term s + 1"
proof -
  let ?s0 = "s\<lparr>m_pre_vote_active := True, m_pre_votes_granted := 1\<rparr>"
  let ?s2 = "each_other send_pre_vote (reset_election_timer ?s0)"
  have "quiet s ?s0"
    by (rule quiet_trans [OF quiet_simple(18) quiet_simple(12)])
  also have "quiet ?s0 ?s2"
    by (rule quiet_trans [OF quiet_reset_election_timer quiet_each_other]) (rule quiet_send_pre_vote)
  also have "quiet ?s2 (?s2\<lparr>m_pre_vote_active := False\<rparr>)"
    by simp
  finally have q: "quiet s (?s2\<lparr>m_pre_vote_active := False\<rparr>)" .
  have "ready (?s2\<lparr>m_pre_vote_active := False\<rparr>)" "m_n_nodes (?s2\<lparr>m_pre_vote_active := False\<rparr>) = 1"
      "m_current_term (?s2\<lparr>m_pre_vote_active := False\<rparr>) = m_current_term s"
    using quiet_ready [OF q] quiet_eview [OF q] assms by simp_all
  moreover have "majority ?s2 \<le> m_pre_votes_granted ?s2"
    using quiet_eview(5) [OF q] assms(2)
    by (simp add: majority_def each_other_field [of m_pre_votes_granted] send_pre_vote_def emit_def
        call_if_def record_event_def reset_election_timer_def Let_def rand_called_def now_called_def)
  ultimately show "m_state (start_pre_vote s) = LEADER" "m_current_term (start_pre_vote s) = m_current_term s + 1"
    unfolding start_pre_vote_def Let_def using become_candidate_alone by simp_all
qed

lemma periodic_alone:
  assumes "ready s" and "m_n_nodes s = 1" and "m_running s" and "m_state s \<noteq> LEADER"
    and "0 \<le> sint (now_value s - m_election_deadline s)"
  shows "m_state (periodic s) = LEADER" and "m_current_term (periodic s) = m_current_term s + 1"
proof -
  let ?s1 = "now_called s"
  have q: "quiet s ?s1"
    by simp
  note alone = start_pre_vote_alone [of ?s1]
  have eq: "periodic s = apply_committed (start_pre_vote ?s1)"
    using assms(3-5) quiet_eview(1) [OF q] by (simp add: periodic_def Let_def now_called_def)
  have "quiet (start_pre_vote ?s1) (periodic s)"
    unfolding eq by (rule quiet_apply_committed)
  note qe = quiet_eview [OF this]
  show "m_state (periodic s) = LEADER" "m_current_term (periodic s) = m_current_term s + 1"
    using qe(1,2) alone quiet_ready [OF q] quiet_eview [OF q] assms(1,2) by simp_all
qed

text \<open>A node whose clock advances 3 seconds per reading.\<close>

definition demo_cbs :: "NodeId \<Rightarrow> Callbacks" where
  "demo_cbs i = \<lparr>cb_send = True, cb_apply = True, cb_persist_state = True,
     cb_persist_log_append = False, cb_persist_log_truncate = False, cb_persist_log_compact = False,
     cb_snapshot_save = None, cb_snapshot_load = False, cb_now = Some (\<lambda>n. of_nat n * 3000),
     cb_rand = Some (\<lambda>n. 0), cb_on_state_change = False\<rparr>"

section \<open>Scripted runs\<close>

text \<open>
  A script names the steps of a run, so that a concrete run can be computed. \<open>Deliver i n j\<close>
  delivers to \<open>j\<close> the message of the \<open>n\<close>-th call that node \<open>i\<close> made.
\<close>

datatype Action = Deliver NodeId nat NodeId | Tick NodeId | Command NodeId EntryType "u8 list" | Restart NodeId

fun act :: "NodeId list \<Rightarrow> Action \<Rightarrow> Cluster \<Rightarrow> Cluster option" where
  "act ids (Deliver i n j) c =
     (if i \<in> set ids \<and> j \<in> set ids \<and> n < length (io_events (c i)) \<and> m_current_term (c j) \<noteq> - 1
      then case io_events (c i) ! n of
             EvSend m \<Rightarrow> if msg_to m = j then Some (c(j := handle (m\<lparr>msg_from := i\<rparr>) (c j))) else None
           | _ \<Rightarrow> None
      else None)"
| "act ids (Tick j) c =
     (if j \<in> set ids \<and> m_current_term (c j) \<noteq> - 1 then Some (c(j := periodic (c j))) else None)"
| "act ids (Command j ty data) c =
     (if j \<in> set ids then Some (c(j := snd (submit ty data (c j)))) else None)"
| "act ids (Restart j) c = (if j \<in> set ids then Some (c(j := reboot ids (c j))) else None)"

fun script :: "NodeId list \<Rightarrow> Action list \<Rightarrow> Cluster \<Rightarrow> Cluster option" where
  "script ids [] c = Some c"
| "script ids (a # as) c = (case act ids a c of None \<Rightarrow> None | Some c' \<Rightarrow> script ids as c')"

lemma act_cstep: "act ids a c = Some c' \<Longrightarrow> cstep ids c c'"
proof (induction ids a c rule: act.induct)
  case (1 ids i n j c)
  then obtain m where "io_events (c i) ! n = EvSend m" "msg_to m = j" "i \<in> set ids" "j \<in> set ids"
      "n < length (io_events (c i))" "m_current_term (c j) \<noteq> - 1" "c' = c(j := handle (m\<lparr>msg_from := i\<rparr>) (c j))"
    by (auto split: if_splits Event.splits)
  then show ?case
    using nth_mem [of n "io_events (c i)"] by (metis cstep.deliver)
qed (auto split: if_splits intro: cstep.intros)

lemma script_reachable: "reachable ids cbs c \<Longrightarrow> script ids as c = Some c' \<Longrightarrow> reachable ids cbs c'"
proof (induction ids as c rule: script.induct)
  case (2 ids a as c)
  then show ?case
    by (auto simp: reachable_def split: option.splits dest!: act_cstep intro: rtranclp.rtrancl_into_rtrancl)
qed simp

text \<open>
  An election among three nodes: node 1 times out, wins the pre-vote and the vote of node 2, and
  as a leader sends its first round of AppendEntries.
\<close>

definition demo_ids :: "NodeId list" where
  "demo_ids = [1, 2, 3]"

definition demo_script :: "Action list" where
  "demo_script = [Tick 1, Deliver 1 0 2, Deliver 2 0 1, Deliver 1 3 2, Deliver 2 3 1, Tick 1]"

definition demo_cluster :: Cluster where
  "demo_cluster = the (script demo_ids demo_script (initial demo_ids demo_cbs))"

lemma demo_config: "config_ok demo_ids demo_cbs"
  by (simp add: config_ok_def demo_cbs_def callbacks_valid_def MAX_NODES_def BAD_NODE_def demo_ids_def)

lemma initial_reachable: "reachable ids cbs (initial ids cbs)"
  by (simp add: reachable_def)

lemma demo_reachable: "reachable demo_ids demo_cbs demo_cluster"
proof -
  have "script demo_ids demo_script (initial demo_ids demo_cbs) \<noteq> None"
    by code_simp
  then show ?thesis
    unfolding demo_cluster_def using script_reachable [OF initial_reachable] by auto
qed

lemma demo_leads: "m_state (demo_cluster 1) = LEADER" "m_current_term (demo_cluster 1) = 1"
  by code_simp+

section \<open>What holds in every reachable cluster\<close>

lemma leader_quorum:
  assumes "config_ok ids cbs" and "reachable ids cbs c" and "i \<in> set ids" and "m_state (c i) = LEADER"
  shows "quorum_for (voted_in c) ids (m_current_term (c i)) i"
proof -
  have "node_inv ids cbs c i"
    using reachable_inv [OF assms(1,2)] assms(3) by (simp add: cluster_inv_def)
  then show ?thesis
    using role_ok_quorum [of "voted_in c" "eview (c i)"] assms(4) by (simp add: node_inv_def einv_def)
qed

lemma led_quorum:
  assumes "config_ok ids cbs" and "reachable ids cbs c" and "i \<in> set ids"
    and "Led t \<in> set (vote_hist (io_events (c i)))"
  shows "quorum_for (voted_in c) ids t i"
proof -
  have "node_inv ids cbs c i"
    using reachable_inv [OF assms(1,2)] assms(3) by (simp add: cluster_inv_def)
  then show ?thesis
    using assms(4) by (auto simp: node_inv_def einv_def role_ok_def)
qed

text \<open>The term of a message that only the leader of that term sends.\<close>

fun leader_msg_term :: "Payload \<Rightarrow> Term option" where
  "leader_msg_term (PAppendEntries ae) = Some (ae_term ae)"
| "leader_msg_term (PInstallSnapshot is) = Some (is_term is)"
| "leader_msg_term _ = None"

lemma leader_msg_led:
  assumes "EvSend m \<in> set evs" and "leader_msg_term (msg_payload m) = Some t"
  shows "Led t \<in> set (vote_hist evs)"
proof -
  have "vote_event (EvSend m) = [Led t]"
    using assms(2) by (cases "msg_payload m") auto
  then show ?thesis
    using assms(1) by (auto simp: vote_hist_def intro!: bexI [of _ "EvSend m"] simp del: vote_event.simps)
qed

text \<open>
  C1. Election safety: in every reachable cluster, whatever messages were lost, duplicated,
  delayed or reordered and whichever nodes restarted from their stored term and vote, two nodes
  in the role of leader in one term are the same node.
\<close>

theorem election_safety:
  assumes "config_ok ids cbs" and "reachable ids cbs c" and "i \<in> set ids" and "j \<in> set ids"
    and "m_state (c i) = LEADER" and "m_state (c j) = LEADER"
    and "m_current_term (c i) = m_current_term (c j)"
  shows "i = j"
  using cluster_unique_quorum [OF assms(1) reachable_inv [OF assms(1,2)] assms(3,4)]
    leader_quorum [OF assms(1,2,3,5)] leader_quorum [OF assms(1,2,4,6)] assms(7) by simp

theorem election_safety_witness:
  "config_ok demo_ids demo_cbs \<and> reachable demo_ids demo_cbs demo_cluster \<and>
   m_state (demo_cluster 1) = LEADER \<and>
   \<not> (m_state (demo_cluster 2) = LEADER \<and> m_current_term (demo_cluster 2) = 1) \<and>
   \<not> (m_state (demo_cluster 3) = LEADER \<and> m_current_term (demo_cluster 3) = 1)"
  using election_safety [OF demo_config demo_reachable, of 1 2]
    election_safety [OF demo_config demo_reachable, of 1 3] demo_leads demo_config demo_reachable
  by (auto simp: demo_ids_def)

text \<open>
  C5. All AppendEntries and InstallSnapshot messages of one term, over the whole history of the
  cluster, come from one node.
\<close>

theorem leader_messages_unique:
  assumes "config_ok ids cbs" and "reachable ids cbs c" and "i \<in> set ids" and "j \<in> set ids"
    and "EvSend m \<in> set (io_events (c i))" and "EvSend m' \<in> set (io_events (c j))"
    and "leader_msg_term (msg_payload m) = Some t" and "leader_msg_term (msg_payload m') = Some t"
  shows "i = j"
  using cluster_unique_quorum [OF assms(1) reachable_inv [OF assms(1,2)] assms(3,4)]
    led_quorum [OF assms(1,2,3)] led_quorum [OF assms(1,2,4)] leader_msg_led assms(5-8) by blast

theorem leader_messages_unique_witness:
  "\<not> (\<exists>m ae. EvSend m \<in> set (io_events (demo_cluster 2)) \<and>
      msg_payload m = PAppendEntries ae \<and> ae_term ae = 1)"
proof -
  have nth: "io_events (demo_cluster 1) ! 5 =
      EvSend (case io_events (demo_cluster 1) ! 5 of EvSend m \<Rightarrow> m)"
    "leader_msg_term (msg_payload (case io_events (demo_cluster 1) ! 5 of EvSend m \<Rightarrow> m)) = Some 1"
    "5 < length (io_events (demo_cluster 1))"
    by code_simp+
  then have "EvSend (case io_events (demo_cluster 1) ! 5 of EvSend m \<Rightarrow> m) \<in> set (io_events (demo_cluster 1))"
    using nth_mem by metis
  then show ?thesis
    using leader_messages_unique [OF demo_config demo_reachable, of 1 2] nth(2)
    by (fastforce simp: demo_ids_def)
qed

text \<open>
  C7. A node votes at most once per term, also across restarts: two granting answers it ever
  sent for one term went to the same candidate.
\<close>

theorem one_vote_per_term:
  assumes "config_ok ids cbs" and "reachable ids cbs c" and "i \<in> set ids"
    and "EvSend m \<in> set (io_events (c i))" and "EvSend m' \<in> set (io_events (c i))"
    and "msg_payload m = PRequestVoteResp rr" and "msg_payload m' = PRequestVoteResp rr'"
    and "rvr_vote_granted rr \<and> \<not> rvr_pre_vote rr" and "rvr_vote_granted rr' \<and> \<not> rvr_pre_vote rr'"
    and "rvr_term rr = rvr_term rr'" and "msg_to m \<noteq> BAD_NODE" and "msg_to m' \<noteq> BAD_NODE"
  shows "msg_to m = msg_to m'"
proof -
  have inv: "cluster_inv ids cbs c"
    using assms(1,2) by (rule reachable_inv)
  have "Granted (rvr_term rr) (msg_to m) \<in> set (vote_hist (io_events (c i)))"
      "Granted (rvr_term rr) (msg_to m') \<in> set (vote_hist (io_events (c i)))"
    using granted_in_hist assms(4-10) by metis+
  then have "voted_in c i (rvr_term rr) (msg_to m)" "voted_in c i (rvr_term rr) (msg_to m')"
    using inv assms(3)
    by (auto simp: cluster_inv_def node_inv_def einv_def votes_ok_def voted_in_def)
  then show ?thesis
    using cluster_single_vote [OF inv assms(3)] assms(11,12) by blast
qed

theorem one_vote_per_term_witness:
  "\<not> (\<exists>m rr. EvSend m \<in> set (io_events (demo_cluster 2)) \<and> msg_payload m = PRequestVoteResp rr \<and>
      rvr_vote_granted rr \<and> \<not> rvr_pre_vote rr \<and> rvr_term rr = 1 \<and> msg_to m = 3)"
proof -
  let ?rr = "\<lparr>rvr_term = 1, rvr_vote_granted = True, rvr_pre_vote = False\<rparr>"
  let ?m = "\<lparr>msg_from = 2, msg_to = 1, msg_payload = PRequestVoteResp ?rr\<rparr>"
  have "io_events (demo_cluster 2) ! 3 = EvSend ?m" "3 < length (io_events (demo_cluster 2))"
    by code_simp+
  then have sent: "EvSend ?m \<in> set (io_events (demo_cluster 2))"
    using nth_mem by metis
  show ?thesis
  proof
    assume "\<exists>m rr. EvSend m \<in> set (io_events (demo_cluster 2)) \<and> msg_payload m = PRequestVoteResp rr \<and>
      rvr_vote_granted rr \<and> \<not> rvr_pre_vote rr \<and> rvr_term rr = 1 \<and> msg_to m = 3"
    then obtain m rr where "EvSend m \<in> set (io_events (demo_cluster 2))" "msg_payload m = PRequestVoteResp rr"
        "rvr_vote_granted rr \<and> \<not> rvr_pre_vote rr" "rvr_term rr = 1" "msg_to m = 3"
      by blast
    then show False
      using one_vote_per_term [OF demo_config demo_reachable, of 2 ?m m ?rr rr] sent
      by (simp add: demo_ids_def BAD_NODE_def)
  qed
qed

text \<open>
  A leader is backed by a majority: more than half of the members have made durable their
  vote for it in its term.
\<close>

theorem leader_backed_by_majority:
  assumes "config_ok ids cbs" and "reachable ids cbs c" and "i \<in> set ids" and "m_state (c i) = LEADER"
  shows "\<exists>Q. is_majority ids Q \<and>
    Q \<subseteq> {p. EvPersistState (m_current_term (c i)) i \<in> set (io_events (c p))}"
proof -
  have "EvPersistState t v \<in> set evs" if "Voted t v \<in> set (vote_hist evs)" for t v evs
  proof -
    obtain ev where "ev \<in> set evs" "Voted t v \<in> set (vote_event ev)"
      using \<open>Voted t v \<in> set (vote_hist evs)\<close> by (auto simp: vote_hist_def)
    moreover from this(2) have "ev = EvPersistState t v"
      by (cases ev) (auto split: Payload.splits if_splits)
    ultimately show ?thesis
      by simp
  qed
  then show ?thesis
    using leader_quorum [OF assms] unfolding quorum_for_majority voted_in_def by blast
qed

theorem leader_backed_by_majority_witness:
  "\<exists>Q. is_majority demo_ids Q \<and> Q \<subseteq> {p. EvPersistState 1 1 \<in> set (io_events (demo_cluster p))}"
  using leader_backed_by_majority [OF demo_config demo_reachable, of 1] demo_leads
  by (simp add: demo_ids_def)

text \<open>
  No step of the cluster, a restart included, lowers a node's term.
\<close>

theorem term_never_decreases:
  assumes "config_ok ids cbs" and "reachable ids cbs c" and "cstep ids c c'" and "k \<in> set ids"
  shows "m_current_term (c k) \<le> m_current_term (c' k)"
proof -
  have inv: "cluster_inv ids cbs c"
    using assms(1,2) by (rule reachable_inv)
  obtain j R s' where j: "j \<in> set ids" "c' = c(j := s')"
      "runs R (c j) s' \<or> s' = reboot ids (c j)"
    using cstep_runs [OF assms(3) inv] by metis
  have "m_current_term (c j) \<le> m_current_term s'"
    using j(3) esteps_term_mono [of R "eview (c j)" "eview s'"] reboot_term [OF assms(1) inv j(1)]
    by (auto simp: runs_def)
  with j(2) show ?thesis
    by simp
qed

theorem term_never_decreases_witness:
  "m_current_term (demo_cluster 1) \<le> m_current_term (reboot demo_ids (demo_cluster 1))"
  using term_never_decreases [OF demo_config demo_reachable cstep.restart [of 1], of 1]
  by (simp add: demo_ids_def)

end
