(* ===== verification/Log_Merge.thy ===== *)
theory Log_Merge
  imports Raft_Server
begin

text \<open>
  The log of a server beyond its interface: what each operation leaves at each index, logs whose
  entries carry the index they stand at, the merge of the entries of an AppendEntries into a log,
  and the scans that compute the back-up hints after a refused one.
\<close>

section \<open>What an operation leaves at each index\<close>

lemma at_NoneI: "wf_ring r \<Longrightarrow> unat i \<le> unat (lr_base r) \<or> unat (last_index r) < unat i \<Longrightarrow> at r i = None"
  by (auto simp: at_eq unat_last_index)

lemma at_Some_range:
  assumes "wf_ring r" and "at r i = Some e"
  shows "lr_base r < i" and "i \<le> last_index r"
  using assms by (auto simp: at_eq unat_last_index word_cmp_unat split: if_splits)

lemma at_exists:
  assumes "wf_ring r" and "lr_base r < i" and "i \<le> last_index r"
  shows "\<exists>e. at r i = Some e"
  using assms by (simp add: at_eq unat_last_index word_cmp_unat)

lemma at_compact_to:
  assumes "wf_ring r" and "lr_base r \<le> i" and "i \<le> last_index r"
  shows "at (compact_to i t r) j = (if i < j then at r j else None)"
proof -
  note c = compact_to_wf [OF assms, of t]
  have le: "unat (lr_base r) \<le> unat i" "unat i \<le> unat (lr_base r) + unat (lr_count r)"
    using assms by (simp_all add: word_cmp_unat unat_last_index)
  have cnt: "unat (lr_count (compact_to i t r)) = unat (lr_count r) - (unat i - unat (lr_base r))"
    using arg_cong [OF c(2), of length] by simp
  show ?thesis
    using le c cnt assms(1) by (auto simp: at_eq word_cmp_unat le_less_linear)
qed

lemma at_reset: "at (reset_to_snapshot i t r) j = None"
  by (auto simp: at_def reset_to_snapshot_def last_index_def Let_def)

lemma last_index_push:
  assumes "wf_ring r" and "\<not> full r" and "unat (last_index r) + 2 < 2 ^ 64"
  shows "last_index (snd (push e r)) = last_index r + 1"
proof -
  have h: "unat (lr_base r) + unat (lr_count r) + 2 < 2 ^ 64"
    using assms by (simp add: unat_last_index)
  note p = push_ok [OF assms(1,2) h, of e]
  have "unat (last_index (snd (push e r))) = unat (last_index r) + 1"
    using p(4) arg_cong [OF p(3), of length] assms(1)
    by (simp add: unat_last_index [OF p(2)] unat_last_index)
  also have "\<dots> = unat (last_index r + 1)"
    using assms(3) by (subst unat_add_no_wrap) simp_all
  finally show ?thesis
    by (simp add: word_unat_eq_iff)
qed

text \<open>Appending the entry of the next index.\<close>

lemma at_push:
  assumes "wf_ring r" and "\<not> full r" and "unat (last_index r) + 2 < 2 ^ 64"
  shows "at (snd (push e r)) i = (if i = last_index r + 1 then Some e else at r i)"
proof -
  have h: "unat (lr_base r) + length (entries r) + 2 < 2 ^ 64"
    using assms by (simp add: unat_last_index)
  have ok: "push e r = (OK, snd (push e r))"
    using push_ok(1) [OF assms(1,2), of e] h by (metis length_entries prod.collapse)
  have s1: "unat (last_index r + 1) = unat (last_index r) + 1"
    using assms(3) by (subst unat_add_no_wrap) simp_all
  consider "unat i \<le> unat (last_index r)" | "i = last_index r + 1" | "unat (last_index r) + 1 < unat i"
    using s1 by (metis Suc_eq_plus1 Suc_leI linorder_neqE_nat not_le word_unat_eq_iff)
  then show ?thesis
  proof cases
    case 1
    then show ?thesis
      using ring.lookup_append_old [OF assms(1,2) h ok, of i] assms(1) s1
      by (auto simp: unat_last_index)
  next
    case 2
    then show ?thesis
      using ring.lookup_append_new [OF assms(1,2) h ok, of i] assms(1) s1
      by (simp add: unat_last_index)
  next
    case 3
    then have "at (snd (push e r)) i = None" "at r i = None"
      using push_ok(2) [OF assms(1,2)] h s1 assms(1)
      by (auto intro!: at_NoneI simp: last_index_push [OF assms])
    with 3 s1 show ?thesis
      by auto
  qed
qed

lemma last_index_truncate:
  assumes "wf_ring r" and "lr_base r < i" and "i \<le> last_index r"
  shows "unat (last_index (truncate_suffix i r)) = unat i - 1" and "\<not> full (truncate_suffix i r)"
proof -
  note t = truncate_suffix_wf [OF assms(1), of i]
  have le: "unat (lr_base r) < unat i" "unat i \<le> unat (lr_base r) + unat (lr_count r)"
    using assms by (simp_all add: word_cmp_unat unat_last_index)
  have c: "unat (lr_count (truncate_suffix i r)) = unat i - unat (lr_base r) - 1"
    using arg_cong [OF t(2), of length] le by simp
  then show "unat (last_index (truncate_suffix i r)) = unat i - 1"
    using t le by (simp add: unat_last_index)
  have "unat (lr_count r) \<le> LOG_CAPACITY"
    using assms(1) by (simp add: wf_ring_def)
  then show "\<not> full (truncate_suffix i r)"
    using c le by (simp add: full_def)
qed

section \<open>Aligned logs\<close>

definition aligned :: "LogRing \<Rightarrow> bool" where
  "aligned r \<longleftrightarrow> (\<forall>i e. at r i = Some e \<longrightarrow> e_index e = i)"

definition log_ok :: "LogRing \<Rightarrow> bool" where
  "log_ok r \<longleftrightarrow> wf_ring r \<and> aligned r"

lemma log_ok_new [simp, wf_intros]: "log_ok new_ring"
  by (auto simp: log_ok_def aligned_def at_eq new_ring_def [THEN arg_cong, of lr_count])

lemma log_ok_push [wf_intros]:
  assumes "log_ok r" and "unat (last_index r) + 2 < 2 ^ 64" and "e_index e = last_index r + 1"
  shows "log_ok (snd (push e r))"
proof (cases "full r")
  case True
  with assms show ?thesis by (simp add: push_full)
next
  case False
  with assms show ?thesis
    by (auto simp: log_ok_def aligned_def at_push unat_last_index push_ok(2))
qed

lemma log_ok_truncate [wf_intros]: "log_ok r \<Longrightarrow> log_ok (truncate_suffix i r)"
  by (auto simp: log_ok_def aligned_def truncate_suffix_wf ring.lookup_cut split: if_splits)

lemma log_ok_compact [wf_intros]:
  "log_ok r \<Longrightarrow> lr_base r \<le> i \<Longrightarrow> i \<le> last_index r \<Longrightarrow> log_ok (compact_to i t r)"
  by (auto simp: log_ok_def aligned_def compact_to_wf at_compact_to split: if_splits)

lemma log_ok_reset [wf_intros]: "log_ok r \<Longrightarrow> unat i + 1 < 2 ^ 64 \<Longrightarrow> log_ok (reset_to_snapshot i t r)"
  by (simp add: log_ok_def aligned_def reset_to_snapshot_wf at_reset)

section \<open>Merging the entries of an AppendEntries\<close>

text \<open>The effect of the merge loop on the log alone.\<close>

definition merge_log :: "Index \<Rightarrow> Entry \<Rightarrow> LogRing \<Rightarrow> LogRing" where
  "merge_log idx e r =
     (let new = e\<lparr>e_index := idx\<rparr>
      in if idx \<le> lr_base r then r
         else if idx \<le> last_index r
              then if term_at r idx = Some (e_term e) then r else snd (push new (truncate_suffix idx r))
              else snd (push new r))"

fun merge_logs :: "Index \<Rightarrow> Entry list \<Rightarrow> LogRing \<Rightarrow> LogRing" where
  "merge_logs idx [] r = r"
| "merge_logs idx (e # es) r = merge_logs (idx + 1) es (merge_log idx e r)"

lemma term_at_exists:
  assumes "wf_ring r" and "lr_base r < i" and "i \<le> last_index r"
  obtains e where "at r i = Some e" and "term_at r i = Some (e_term e)"
proof -
  obtain e where e: "at r i = Some e"
    using at_exists [OF assms] by blast
  have "i \<noteq> 0" "i \<noteq> lr_base r"
    using assms(2) word_not_simps(1) by (metis, blast)
  with e show ?thesis
    using that by (simp add: term_at_def)
qed

text \<open>
  The loop visits consecutive indices and the log never has a gap before the next one: either
  the next index follows the last one, or the ring is full and stays so.
\<close>

definition no_gap :: "Index \<Rightarrow> LogRing \<Rightarrow> bool" where
  "no_gap idx r \<longleftrightarrow> unat idx \<le> unat (last_index r) + 1 \<or> full r"

lemma push_lr_base: "lr_base (snd (push e r)) = lr_base r"
  by (simp add: push_def Let_def)

lemma merge_log_ok:
  assumes "log_ok r" and "no_gap idx r" and "unat idx + 1 < 2 ^ 64"
  shows "log_ok (merge_log idx e r)" and "lr_base (merge_log idx e r) = lr_base r"
    and "no_gap (idx + 1) (merge_log idx e r)"
proof -
  have wf: "wf_ring r"
    using assms(1) by (simp add: log_ok_def)
  have s1: "unat (idx + 1) = unat idx + 1"
    using assms(3) by (subst unat_add_no_wrap) simp_all
  let ?new = "e\<lparr>e_index := idx\<rparr>"
  have keep: "no_gap (idx + 1) r" if "unat idx \<le> unat (last_index r)"
    using that s1 by (simp add: no_gap_def)
  have trunc: "log_ok (snd (push ?new (truncate_suffix idx r)))"
      "no_gap (idx + 1) (snd (push ?new (truncate_suffix idx r)))"
    if r: "lr_base r < idx" "idx \<le> last_index r"
  proof -
    let ?t = "truncate_suffix idx r"
    have l: "unat (last_index ?t) = unat idx - 1" "\<not> full ?t" "log_ok ?t" "wf_ring ?t"
      using last_index_truncate [OF wf r] log_ok_truncate [OF assms(1)] by (simp_all add: log_ok_def)
    have pos: "0 < unat idx"
      using r(1) by (simp add: word_less_nat_alt)
    have "unat (last_index ?t + 1) = unat idx"
      using l pos assms(3) by (subst unat_add_no_wrap) simp_all
    then have idx: "idx = last_index ?t + 1"
      by (simp add: word_unat_eq_iff)
    have h: "unat (last_index ?t) + 2 < 2 ^ 64"
      using l pos assms(3) by simp
    show "log_ok (snd (push ?new ?t))"
      using l(3) h idx by (intro log_ok_push) simp_all
    show "no_gap (idx + 1) (snd (push ?new ?t))"
      using last_index_push [OF l(4,2) h, of ?new] idx s1 by (simp add: no_gap_def)
  qed
  have app: "log_ok (snd (push ?new r)) \<and> no_gap (idx + 1) (snd (push ?new r))"
    if r: "\<not> idx \<le> last_index r"
  proof (cases "full r")
    case True
    then show ?thesis
      using assms(1) by (simp add: push_full no_gap_def)
  next
    case False
    then have "unat idx = unat (last_index r) + 1"
      using assms(2) r by (simp add: no_gap_def word_le_nat_alt)
    then have h: "unat (last_index r) + 2 < 2 ^ 64" and "unat (last_index r + 1) = unat idx"
      using assms(3) by (simp_all add: unat_add_no_wrap)
    then have idx: "idx = last_index r + 1"
      by (simp add: word_unat_eq_iff)
    then show ?thesis
      using last_index_push [OF wf False h, of ?new] s1 log_ok_push [OF assms(1) h] by (simp add: no_gap_def)
  qed
  have base: "lr_base r \<le> last_index r"
    using wf by (simp add: word_le_nat_alt unat_last_index)
  consider "idx \<le> lr_base r" | "lr_base r < idx" "idx \<le> last_index r" | "\<not> idx \<le> last_index r" "\<not> idx \<le> lr_base r"
    using base by force
  then have "log_ok (merge_log idx e r) \<and> no_gap (idx + 1) (merge_log idx e r)"
  proof cases
    case 1
    then show ?thesis
      using assms(1) keep base by (simp add: merge_log_def word_le_nat_alt)
  next
    case 2
    then show ?thesis
      using assms(1) keep trunc by (simp add: merge_log_def Let_def not_le word_le_nat_alt)
  next
    case 3
    then show ?thesis
      using app by (simp add: merge_log_def)
  qed
  then show "log_ok (merge_log idx e r)" "no_gap (idx + 1) (merge_log idx e r)"
    by simp_all
  show "lr_base (merge_log idx e r) = lr_base r"
    using truncate_suffix_wf(3) [OF wf] by (simp add: merge_log_def Let_def push_lr_base)
qed

lemma merge_logs_ok:
  assumes "log_ok r" and "no_gap idx r" and "unat idx + length es < 2 ^ 64"
  shows "log_ok (merge_logs idx es r) \<and> lr_base (merge_logs idx es r) = lr_base r"
  using assms
proof (induction es arbitrary: idx r)
  case (Cons e es)
  have b: "unat idx + 1 < 2 ^ 64" and s1: "unat (idx + 1) = unat idx + 1"
    using Cons.prems(3) by (simp, subst unat_add_no_wrap) simp_all
  note m = merge_log_ok [OF Cons.prems(1,2) b, of e]
  show ?case
    using Cons.IH [OF m(1,3)] m(2) Cons.prems(3) s1 by simp
qed simp

text \<open>
  One step, where the ring has room up to the index: everything below stays, the index itself
  holds an entry of the sender's term, and an entry that agrees is not touched.
\<close>

lemma merge_log_spec:
  assumes "log_ok r" and "unat idx \<le> unat (last_index r) + 1" and "unat idx + 1 < 2 ^ 64"
    and "unat idx \<le> unat (lr_base r) + LOG_CAPACITY"
  shows "\<forall>i. unat i < unat idx \<longrightarrow> at (merge_log idx e r) i = at r i"
    and "lr_base r < idx \<longrightarrow> map_option e_term (at (merge_log idx e r) idx) = Some (e_term e)"
    and "unat idx \<le> unat (last_index (merge_log idx e r))"
proof -
  have wf: "wf_ring r"
    using assms(1) by (simp add: log_ok_def)
  let ?new = "e\<lparr>e_index := idx\<rparr>"
  have base: "lr_base r \<le> last_index r"
    using wf by (simp add: word_le_nat_alt unat_last_index)
  have "(\<forall>i. unat i < unat idx \<longrightarrow> at (merge_log idx e r) i = at r i) \<and>
      (lr_base r < idx \<longrightarrow> map_option e_term (at (merge_log idx e r) idx) = Some (e_term e)) \<and>
      unat idx \<le> unat (last_index (merge_log idx e r))"
  proof -
    consider "idx \<le> lr_base r" | "lr_base r < idx" "idx \<le> last_index r" | "\<not> idx \<le> last_index r" "\<not> idx \<le> lr_base r"
      using base by force
    then show ?thesis
    proof cases
      case 1
      then have "\<not> lr_base r < idx"
        by (simp add: not_less)
      with 1 show ?thesis
        using base by (simp add: merge_log_def word_le_nat_alt)
    next
      case 2
      obtain x where x: "at r idx = Some x" "term_at r idx = Some (e_term x)"
        using term_at_exists [OF wf 2] .
      let ?t = "truncate_suffix idx r"
      have l: "unat (last_index ?t) = unat idx - 1" "\<not> full ?t" "wf_ring ?t"
        using last_index_truncate [OF wf 2] truncate_suffix_wf [OF wf] by simp_all
      have pos: "0 < unat idx"
        using 2 by (simp add: word_less_nat_alt)
      have h: "unat (last_index ?t) + 2 < 2 ^ 64"
        using l pos assms(3) by simp
      have "unat (last_index ?t + 1) = unat idx"
        using l pos assms(3) by (subst unat_add_no_wrap) simp_all
      then have idx: "idx = last_index ?t + 1"
        by (simp add: word_unat_eq_iff)
      have "at (snd (push ?new ?t)) i = at r i" if "unat i < unat idx" for i
        using that at_push [OF l(3,2) h, of ?new i] idx ring.lookup_cut [OF wf, of idx i] by auto
      moreover have "at (snd (push ?new ?t)) idx = Some ?new"
        using at_push [OF l(3,2) h, of ?new idx] idx by simp
      moreover have "last_index (snd (push ?new ?t)) = idx"
        using last_index_push [OF l(3,2) h] idx by simp
      ultimately show ?thesis
        using 2 x by (simp add: merge_log_def Let_def word_cmp_unat)
    next
      case 3
      then have eq: "unat idx = unat (last_index r) + 1"
        using assms(2) by (simp add: word_le_nat_alt)
      have nf: "\<not> full r"
        using eq assms(4) by (simp add: full_def unat_last_index [OF wf])
      have h: "unat (last_index r) + 2 < 2 ^ 64"
        using eq assms(3) by simp
      have "unat (last_index r + 1) = unat idx"
        using eq h by (subst unat_add_no_wrap) simp_all
      then have idx: "idx = last_index r + 1"
        by (simp add: word_unat_eq_iff)
      show ?thesis
        using 3 at_push [OF wf nf h, of ?new] last_index_push [OF wf nf h, of ?new] idx
        by (auto simp: merge_log_def)
    qed
  qed
  then show "\<forall>i. unat i < unat idx \<longrightarrow> at (merge_log idx e r) i = at r i"
    "lr_base r < idx \<longrightarrow> map_option e_term (at (merge_log idx e r) idx) = Some (e_term e)"
    "unat idx \<le> unat (last_index (merge_log idx e r))"
    by blast+
qed

lemma merge_log_agree:
  assumes "wf_ring r" and "lr_base r < idx \<Longrightarrow> map_option e_term (at r idx) = Some (e_term e)"
    and "idx \<le> last_index r"
  shows "merge_log idx e r = r"
proof (cases "lr_base r < idx")
  case True
  then have "term_at r idx = Some (e_term e)"
    using assms term_at_exists [OF assms(1) True assms(3)] by (metis option.map(2))
  with assms(3) show ?thesis
    by (simp add: merge_log_def Let_def)
qed (simp add: merge_log_def not_less)

lemma merge_logs_spec:
  assumes "log_ok r" and "unat prev \<le> unat (last_index r)" and "unat prev + length es + 2 < 2 ^ 64"
    and "unat prev + length es \<le> unat (lr_base r) + LOG_CAPACITY"
  defines "r' \<equiv> merge_logs (prev + 1) es r"
  shows "unat i \<le> unat prev \<Longrightarrow> at r' i = at r i"
    and "lr_base r < i \<Longrightarrow> unat prev < unat i \<Longrightarrow> unat i \<le> unat prev + length es \<Longrightarrow>
      map_option e_term (at r' i) = Some (e_term (es ! (unat i - unat prev - 1)))"
    and "unat prev + length es \<le> unat (last_index r')"
proof -
  have "(\<forall>i. unat i \<le> unat prev \<longrightarrow> at (merge_logs (prev + 1) es r) i = at r i) \<and>
    (\<forall>i. lr_base r < i \<longrightarrow> unat prev < unat i \<longrightarrow> unat i \<le> unat prev + length es \<longrightarrow>
      map_option e_term (at (merge_logs (prev + 1) es r) i) = Some (e_term (es ! (unat i - unat prev - 1)))) \<and>
    unat prev + length es \<le> unat (last_index (merge_logs (prev + 1) es r))"
    using assms(1-4)
  proof (induction es arbitrary: prev r)
    case (Cons e es)
    let ?idx = "prev + 1"
    let ?r1 = "merge_log ?idx e r"
    have s1: "unat ?idx = unat prev + 1"
      using Cons.prems(3) by (subst unat_add_no_wrap) simp_all
    have ng: "no_gap ?idx r"
      using Cons.prems(2) s1 by (simp add: no_gap_def)
    have b: "unat ?idx + 1 < 2 ^ 64"
      using Cons.prems(3) s1 by simp
    note ok = merge_log_ok [OF Cons.prems(1) ng b, of e]
    have "unat ?idx \<le> unat (last_index r) + 1" "unat ?idx \<le> unat (lr_base r) + LOG_CAPACITY"
      using Cons.prems(2,4) s1 by simp_all
    note m = merge_log_spec [OF Cons.prems(1) this(1) b this(2), of e]
    have IH: "\<And>i. unat i \<le> unat ?idx \<Longrightarrow> at (merge_logs (?idx + 1) es ?r1) i = at ?r1 i"
      "\<And>i. lr_base r < i \<Longrightarrow> unat ?idx < unat i \<Longrightarrow> unat i \<le> unat ?idx + length es \<Longrightarrow>
        map_option e_term (at (merge_logs (?idx + 1) es ?r1) i) = Some (e_term (es ! (unat i - unat ?idx - 1)))"
      "unat ?idx + length es \<le> unat (last_index (merge_logs (?idx + 1) es ?r1))"
      using Cons.IH [OF ok(1), of ?idx] m(3) ok(2) Cons.prems(3,4) s1 by auto
    have "map_option e_term (at (merge_logs (?idx + 1) es ?r1) i) = Some (e_term ((e # es) ! (unat i - unat prev - 1)))"
      if "lr_base r < i" "unat prev < unat i" "unat i \<le> unat prev + length (e # es)" for i
    proof (cases "i = ?idx")
      case True
      then show ?thesis
        using IH(1) [of i] m(2) that(1) s1 by simp
    next
      case False
      then have gt: "unat ?idx < unat i"
        using that(2) s1 by (metis Suc_eq_plus1 Suc_leI le_neq_implies_less word_unat_eq_iff)
      then show ?thesis
        using IH(2) [OF that(1) gt] that(3) s1 by (simp add: nth_Cons')
    qed
    then show ?case
      using IH(1,3) m(1) s1 by simp
  qed simp
  then show "unat i \<le> unat prev \<Longrightarrow> at r' i = at r i"
    "lr_base r < i \<Longrightarrow> unat prev < unat i \<Longrightarrow> unat i \<le> unat prev + length es \<Longrightarrow>
      map_option e_term (at r' i) = Some (e_term (es ! (unat i - unat prev - 1)))"
    "unat prev + length es \<le> unat (last_index r')"
    by (simp_all add: r'_def)
qed

lemma merge_logs_agree:
  assumes "wf_ring r" and "unat prev + length es \<le> unat (last_index r)"
    and "\<And>i. lr_base r < i \<Longrightarrow> unat prev < unat i \<Longrightarrow> unat i \<le> unat prev + length es \<Longrightarrow>
      map_option e_term (at r i) = Some (e_term (es ! (unat i - unat prev - 1)))"
  shows "merge_logs (prev + 1) es r = r"
  using assms(2,3)
proof (induction es arbitrary: prev)
  case (Cons e es)
  let ?idx = "prev + 1"
  have "unat prev + 1 < 18446744073709551616"
    using Cons.prems(1) unat_lt_64 [of "last_index r"] by (simp del: unat_lt_64)
  then have s1: "unat ?idx = unat prev + 1"
    by (subst unat_add_no_wrap) simp_all
  have "merge_log ?idx e r = r"
    using assms(1) Cons.prems(2) [of ?idx] Cons.prems(1) s1
    by (intro merge_log_agree) (simp_all add: word_le_nat_alt)
  moreover have "map_option e_term (at r i) = Some (e_term (es ! (unat i - unat ?idx - 1)))"
    if "lr_base r < i" "unat ?idx < unat i" "unat i \<le> unat ?idx + length es" for i
    using Cons.prems(2) [OF that(1)] that(2,3) s1 by (simp add: nth_Cons')
  ultimately show ?case
    using Cons.IH [of ?idx] Cons.prems(1) s1 by simp
qed simp

lemma word_le_pred_iff:
  assumes "(n :: 'a::len word) \<noteq> 0"
  shows "k \<le> n - 1 \<longleftrightarrow> k < n"
proof -
  have "0 < unat n"
    using assms by (simp add: unat_gt_0)
  then show ?thesis
    by (auto simp: word_cmp_unat unat_sub_no_wrap)
qed

section \<open>Conflict hints\<close>

text \<open>
  The hint of a refused AppendEntries is the start of the run of entries of the conflicting term
  that ends at the refused index.
\<close>

lemma conflict_scan_spec:
  assumes "lr_base r < scan" and "term_at r scan = Some t"
    and "\<And>i. scan \<le> i \<Longrightarrow> i \<le> prev \<Longrightarrow> term_at r i = Some t" and "scan \<le> prev"
    and "unat (lr_base r) + 1 < 2 ^ 64"
  defines "c \<equiv> conflict_scan r t scan scan"
  shows "lr_base r < c \<and> c \<le> prev \<and> (\<forall>i. c \<le> i \<and> i \<le> prev \<longrightarrow> term_at r i = Some t) \<and>
    (c = lr_base r + 1 \<or> term_at r (c - 1) \<noteq> Some t)"
  using assms(1-4) unfolding c_def
proof (induction scan rule: measure_induct_rule [of unat])
  case (less scan)
  have base1: "unat (lr_base r + 1) = unat (lr_base r) + 1"
    using assms(5) by (subst unat_add_no_wrap) simp_all
  have nz: "scan \<noteq> 0"
    using less.prems(1) word_not_simps(1) by metis
  show ?case
  proof (cases "lr_base r + 1 < scan \<and> term_at r (scan - 1) = Some t")
    case True
    have lt: "unat (scan - 1) < unat scan"
      using True word_pred_measure by blast
    have b: "lr_base r < scan - 1"
      using True base1 nz by (auto simp: word_less_nat_alt unat_sub_no_wrap)
    have "term_at r i = Some t" if "scan - 1 \<le> i" "i \<le> prev" for i
    proof (cases "scan \<le> i")
      case False
      then have "i = scan - 1"
        using that(1) word_le_pred_iff [OF nz, of i] by (simp add: not_le)
      with True show ?thesis by simp
    qed (use less.prems(3) that in blast)
    moreover have "scan - 1 \<le> prev"
      using less.prems(4) lt by (simp add: word_le_nat_alt)
    moreover have "conflict_scan r t scan scan = conflict_scan r t (scan - 1) (scan - 1)"
      using True by (subst conflict_scan.simps) simp
    ultimately show ?thesis
      using less.IH [OF lt b] True by simp
  next
    case False
    have stop: "conflict_scan r t scan scan = scan"
      using False by (subst conflict_scan.simps) (auto split: option.split)
    have "scan = lr_base r + 1" if "\<not> lr_base r + 1 < scan"
      using that less.prems(1) base1 by (simp add: word_cmp_unat word_unat_eq_iff)
    with False show ?thesis
      unfolding stop using less.prems by blast
  qed
qed

text \<open>The leader resumes behind its last entry of the conflicting term.\<close>

lemma find_term_index_spec:
  fixes r :: LogRing and t :: Term
  defines "f \<equiv> find_term_index r t"
  shows "(f n \<noteq> 0 \<longrightarrow> lr_base r < f n \<and> f n \<le> n \<and> term_at r (f n) = Some t \<and>
      (\<forall>k. f n < k \<and> k \<le> n \<longrightarrow> term_at r k \<noteq> Some t)) \<and>
    (f n = 0 \<longrightarrow> (\<forall>k. lr_base r < k \<and> k \<le> n \<longrightarrow> term_at r k \<noteq> Some t))"
  unfolding f_def
proof (induction n rule: measure_induct_rule [of unat])
  case (less n)
  show ?case
  proof (cases "lr_base r < n")
    case False
    then have "find_term_index r t n = 0"
      by (simp add: find_term_index.simps)
    with False show ?thesis
      by auto
  next
    case True
    then have nz: "n \<noteq> 0"
      using word_not_simps(1) by metis
    note pred = word_le_pred_iff [OF nz]
    show ?thesis
    proof (cases "term_at r n = Some t")
      case True
      then have "find_term_index r t n = n"
        using \<open>lr_base r < n\<close> by (simp add: find_term_index.simps)
      with True nz \<open>lr_base r < n\<close> show ?thesis
        by auto
    next
      case False
      then have eq: "find_term_index r t n = find_term_index r t (n - 1)"
        using \<open>lr_base r < n\<close> by (subst find_term_index.simps) simp
      have "unat (n - 1) < unat n"
        using \<open>lr_base r < n\<close> by (rule word_pred_measure)
      from less.IH [OF this] False show ?thesis
        unfolding eq by (auto simp: pred) (metis le_less)+
    qed
  qed
qed

end
