(* ===== verification/Raft_Replication.thy ===== *)
theory Raft_Replication
  imports Raft_Cluster Log_Merge
begin

text \<open>
  Replication at one server: the log stays well formed, entries keep the index they were given,
  and the state machine is fed committed entries in index order, each at most once. The commit
  rule of a leader and the merge of a follower are characterised.
\<close>

section \<open>The log view of a server\<close>

text \<open>What replication sees of a server: its log, its two cursors, and the entries it has applied.\<close>

fun apply_event :: "Event \<Rightarrow> Entry list" where
  "apply_event (EvApply e) = [e]"
| "apply_event _ = []"

definition applied :: "Server \<Rightarrow> Entry list" where
  "applied s = concat (map apply_event (io_events s))"

definition lview :: "Server \<Rightarrow> LogRing \<times> Index \<times> Index \<times> Entry list \<times> Callbacks" where
  "lview s = (m_log s, m_commit_index s, m_last_applied s, applied s, m_cbs s)"

lemma lview_eqD:
  assumes "lview s' = lview s"
  shows "m_log s' = m_log s" "m_commit_index s' = m_commit_index s"
    "m_last_applied s' = m_last_applied s" "applied s' = applied s" "m_cbs s' = m_cbs s"
  using assms by (simp_all add: lview_def)

lemma applied_call_if [simp]:
  "applied (call_if b ev s) = applied s @ (if b then apply_event ev else [])"
  by (simp add: applied_def call_if_def record_event_def)

lemma lview_call_if: "apply_event ev = [] \<Longrightarrow> lview (call_if b ev s) = lview s"
  by (simp add: lview_def) (simp add: call_if_def record_event_def)

lemma lview_simple [simp]:
  "lview (now_called s) = lview s" "lview (rand_called s) = lview s" "lview (emit m s) = lview s"
  "lview (persist_state s) = lview s" "lview (s\<lparr>m_current_leader := n\<rparr>) = lview s"
  "lview (s\<lparr>m_leader_hint := n\<rparr>) = lview s" "lview (s\<lparr>m_election_deadline := d\<rparr>) = lview s"
  "lview (s\<lparr>m_last_heartbeat_sent := d\<rparr>) = lview s" "lview (s\<lparr>m_leader_since := d\<rparr>) = lview s"
  "lview (s\<lparr>m_last_leader_contact := d\<rparr>) = lview s" "lview (s\<lparr>m_pre_votes_granted := k\<rparr>) = lview s"
  "lview (s\<lparr>m_votes_granted := k\<rparr>) = lview s" "lview (s\<lparr>m_snap_buf := b\<rparr>) = lview s"
  "lview (s\<lparr>m_snap_len := w\<rparr>) = lview s" "lview (s\<lparr>m_snap_index := i\<rparr>) = lview s"
  "lview (s\<lparr>m_snap_term := t\<rparr>) = lview s" "lview (s\<lparr>m_running := b1\<rparr>) = lview s"
  "lview (s\<lparr>m_pre_vote_active := b1\<rparr>) = lview s" "lview (s\<lparr>io_fault := b1\<rparr>) = lview s"
  "lview (s\<lparr>m_current_term := t\<rparr>) = lview s" "lview (s\<lparr>m_voted_for := n\<rparr>) = lview s"
  "lview (s\<lparr>m_state := st\<rparr>) = lview s" "lview (upd_node j f s) = lview s"
  "lview (upd_all_nodes f s) = lview s" "lview (upd_self f s) = lview s"
  by (auto simp: lview_def now_called_def rand_called_def emit_def persist_state_def applied_def
      upd_node_def upd_all_nodes_def upd_self_def call_if_def record_event_def split: option.split)

lemma lview_each_other:
  assumes "\<And>p s. lview (f p s) = lview s"
  shows "lview (each_other f s) = lview s"
  by (rule each_other_field) (rule assms)

lemma lview_ops [simp]:
  "lview (set_state st s) = lview s" "lview (reset_election_timer s) = lview s"
  "lview (send_request_vote p s) = lview s" "lview (send_pre_vote p s) = lview s"
  "lview (send_install_snapshot p s) = lview s"
  by (simp_all add: set_state_def reset_election_timer_def Let_def lview_call_if send_request_vote_def
      send_pre_vote_def send_install_snapshot_def)

lemma lview_send_append_entries [simp]: "lview (send_append_entries p s) = lview s"
  by (simp add: send_append_entries_def Let_def split: option.split)

lemma lview_loops [simp]:
  "lview (each_other send_append_entries s) = lview s" "lview (each_other send_request_vote s) = lview s"
  "lview (each_other send_pre_vote s) = lview s"
  by (simp_all add: lview_each_other)

lemma lview_roles [simp]:
  "lview (maybe_step_down t s) = lview s" "lview (become_follower t l s) = lview s"
  "lview (handle_request_vote rv s) = lview s"
  by (simp_all add: maybe_step_down_def become_follower_def handle_request_vote_def request_vote_guard_def Let_def)

lemma lview_campaign_start [simp]: "lview (campaign_start s) = lview s"
  by (simp add: campaign_start_def Let_def split: option.split)

lemma lview_store_chunk [simp]: "lview (store_chunk is s) = lview s"
  by (simp add: store_chunk_def Let_def)

section \<open>The replication invariant\<close>

definition in_order :: "Entry list \<Rightarrow> bool" where
  "in_order es \<longleftrightarrow> sorted_wrt (<) (map e_index es)"

definition server_inv :: "Server \<Rightarrow> bool" where
  "server_inv s \<longleftrightarrow>
     log_ok (m_log s) \<and> lr_base (m_log s) \<le> m_last_applied s \<and> m_last_applied s \<le> m_commit_index s \<and>
     in_order (applied s) \<and> (\<forall>e \<in> set (applied s). e_index e \<le> m_last_applied s)"

lemma server_inv_cong: "lview s' = lview s \<Longrightarrow> server_inv s' = server_inv s"
  by (simp add: server_inv_def lview_def)

text \<open>Room for one more index below the largest value.\<close>

definition headroom :: "Server \<Rightarrow> bool" where
  "headroom s \<longleftrightarrow> unat (last_index (m_log s)) + 2 < 2 ^ 64"

lemma headroom_cong: "lview s' = lview s \<Longrightarrow> headroom s' = headroom s"
  by (simp add: headroom_def lview_def)

lemma word_succ_le: "(a :: 'a::len word) < b \<Longrightarrow> a + 1 \<le> b"
  by (simp add: word_cmp_unat unat_Suc_no_wrap)

lemma apply_one_inv:
  assumes "server_inv s" and "m_last_applied s < m_commit_index s"
  shows "server_inv (apply_one s)"
proof -
  let ?i = "m_last_applied s + 1"
  have lt: "m_last_applied s < ?i" and le: "?i \<le> m_commit_index s"
    using assms(2) unat_Suc_no_wrap [OF assms(2)] by (simp_all add: word_less_nat_alt word_succ_le)
  have "e_index e = ?i" if "at (m_log s) ?i = Some e" for e
    using assms(1) that by (simp add: server_inv_def log_ok_def aligned_def)
  moreover have "\<forall>e \<in> set (applied s). e_index e < ?i"
    using assms(1) lt by (auto simp: server_inv_def)
  ultimately show ?thesis
    using assms(1) lt le
    by (auto simp: server_inv_def apply_one_def Let_def in_order_def sorted_wrt_append call_if_def
        record_event_def applied_def split: option.split intro: less_imp_le)
qed

lemma apply_loop_inv: "server_inv s \<Longrightarrow> server_inv (apply_loop s)"
proof (induction s rule: apply_loop.induct)
  case (1 s)
  then show ?case
    by (subst apply_loop.simps) (simp add: apply_one_inv)
qed

lemma term_at_range:
  assumes "wf_ring r" and "lr_base r < i" and "term_at r i = Some t"
  shows "i \<le> last_index r"
  using assms by (auto simp: term_at_def dest: at_Some_range split: if_splits option.splits)

lemma begin_snapshot_inv:
  assumes "server_inv s"
  shows "server_inv (snd (begin_snapshot s))"
proof -
  have "server_inv (call_if b (EvPersistLogCompact j)
      (s\<lparr>m_snap_buf := x, m_snap_len := n, m_log := compact_to (m_last_applied s) t (m_log s)\<rparr>))"
    if "lr_base (m_log s) < m_last_applied s" "term_at (m_log s) (m_last_applied s) = Some t" for b j x n t
  proof -
    have r: "m_last_applied s \<le> last_index (m_log s)"
      using assms that by (auto simp: server_inv_def log_ok_def intro: term_at_range)
    moreover have "lr_base (compact_to (m_last_applied s) t (m_log s)) = m_last_applied s"
      by (simp add: compact_to_def Let_def)
    ultimately show ?thesis
      using assms that
      by (simp add: server_inv_def log_ok_compact call_if_def record_event_def applied_def less_imp_le)
  qed
  moreover have "server_inv (s\<lparr>m_snap_buf := x\<rparr>)" for x
    using assms by (simp add: server_inv_def applied_def)
  ultimately show ?thesis
    using assms by (simp add: begin_snapshot_def Let_def not_le split: option.split prod.split)
qed

lemma apply_committed_inv: "server_inv s \<Longrightarrow> server_inv (apply_committed s)"
  by (simp add: apply_committed_def maybe_compact_def Let_def apply_loop_inv begin_snapshot_inv)

lemma advance_loop_inv: "server_inv s \<Longrightarrow> server_inv (advance_loop n s)"
proof (induction n s rule: advance_loop.induct)
  case (1 n s)
  then show ?case
    by (subst advance_loop.simps) (auto simp: server_inv_def applied_def)
qed

lemma leader_advance_commit_inv: "server_inv s \<Longrightarrow> server_inv (leader_advance_commit s)"
  by (simp add: leader_advance_commit_def apply_committed_inv advance_loop_inv)

text \<open>A push of the entry for the next index, with whatever else changes outside the log view.\<close>

lemma push_inv:
  assumes "server_inv s" and "headroom s" and "e_index e = last_index (m_log s) + 1"
    and "lview s' = lview (s\<lparr>m_log := snd (push e (m_log s))\<rparr>)"
  shows "server_inv s'"
proof -
  have "lr_base (snd (push e (m_log s))) = lr_base (m_log s)"
    by (simp add: push_def Let_def)
  then have "server_inv (s\<lparr>m_log := snd (push e (m_log s))\<rparr>)"
    using assms(1-3) by (simp add: server_inv_def headroom_def log_ok_push applied_def)
  then show ?thesis
    using server_inv_cong [OF assms(4)] by simp
qed

lemma lview_set_log: "lview s = lview t \<Longrightarrow> lview (s\<lparr>m_log := l\<rparr>) = lview (t\<lparr>m_log := l\<rparr>)"
  by (simp add: lview_def applied_def)

lemma become_leader_lview:
  "\<exists>e. e_index e = last_index (m_log s) + 1 \<and> e_term e = m_current_term s \<and>
     lview (become_leader s) = lview (s\<lparr>m_log := snd (push e (m_log s))\<rparr>)"
proof -
  let ?last = "last_index (m_log s)"
  define s4 where "s4 = upd_self (\<lambda>p. p\<lparr>p_match_index := ?last\<rparr>)
     (upd_all_nodes (\<lambda>p. p\<lparr>p_next_index := ?last + 1, p_match_index := 0\<rparr>)
       ((set_state LEADER (s\<lparr>m_pre_vote_active := False\<rparr>))
         \<lparr>m_current_leader := m_self_id s, m_leader_hint := m_self_id s\<rparr>))"
  have v: "lview s4 = lview s"
    by (simp add: s4_def)
  have writes: "m_current_term (upd_self f u) = m_current_term u" "m_current_term (upd_all_nodes f u) = m_current_term u" for f u
    by (simp_all add: upd_self_def upd_node_def upd_all_nodes_def split: option.split)
  have trm: "m_current_term s4 = m_current_term s"
    by (simp add: s4_def writes set_state_fields)
  define e where "e = default_entry\<lparr>e_term := m_current_term s4, e_index := ?last + 1, e_type := NOOP, e_data_len := 0\<rparr>"
  have "lview (become_leader s) = lview (s\<lparr>m_log := snd (push e (m_log s))\<rparr>)"
  proof -
    have log: "m_log s4 = m_log s"
      using lview_eqD(1) [OF v] .
    have self: "m_self_id (set_state LEADER (s\<lparr>m_pre_vote_active := False\<rparr>)) = m_self_id s"
      by (simp add: set_state_fields)
    obtain err l where p: "push e (m_log s) = (err, l)"
      by force
    have f: "err \<noteq> OK \<Longrightarrow> l = m_log s"
      using p by (auto simp: push_def Let_def split: if_splits)
    have "lview (s4\<lparr>m_log := l\<rparr>) = lview (s\<lparr>m_log := l\<rparr>)"
      using v by (rule lview_set_log)
    moreover have "lview s4 = lview (s\<lparr>m_log := l\<rparr>)" if "err \<noteq> OK"
      using v f [OF that] by simp
    ultimately show ?thesis
      unfolding become_leader_def Let_def self
      by (fold s4_def, fold e_def) (simp add: p log ok_def lview_call_if)
  qed
  then show ?thesis
    by (intro exI [of _ e]) (simp add: e_def trm)
qed

lemma become_leader_inv: "server_inv s \<Longrightarrow> headroom s \<Longrightarrow> server_inv (become_leader s)"
  using become_leader_lview [of s] push_inv by blast

lemma become_candidate_inv:
  assumes "server_inv s" and "headroom s"
  shows "server_inv (become_candidate s)"
proof -
  let ?s6 = "each_other send_request_vote (reset_election_timer (campaign_start s))"
  have "lview ?s6 = lview s"
    by simp
  then have "server_inv ?s6" "headroom ?s6"
    using assms server_inv_cong headroom_cong by blast+
  then show ?thesis
    by (simp add: become_candidate_eq Let_def become_leader_inv)
qed

lemma start_pre_vote_inv:
  assumes "server_inv s" and "headroom s"
  shows "server_inv (start_pre_vote s)"
proof -
  let ?s2 = "each_other send_pre_vote (reset_election_timer (s\<lparr>m_pre_vote_active := True, m_pre_votes_granted := 1\<rparr>))"
  have "lview ?s2 = lview s" "lview (?s2\<lparr>m_pre_vote_active := False\<rparr>) = lview s"
    by simp_all
  then have "server_inv ?s2" "server_inv (?s2\<lparr>m_pre_vote_active := False\<rparr>)" "headroom (?s2\<lparr>m_pre_vote_active := False\<rparr>)"
    using assms server_inv_cong headroom_cong by blast+
  then show ?thesis
    by (simp add: start_pre_vote_def Let_def become_candidate_inv)
qed

section \<open>The merge loop of the server\<close>

lemma append_one_lview:
  "lview (append_one idx e s) = lview (s\<lparr>m_log := snd (push (e\<lparr>e_index := idx\<rparr>) (m_log s))\<rparr>)"
proof -
  obtain err l where p: "push (e\<lparr>e_index := idx\<rparr>) (m_log s) = (err, l)"
    by force
  have "err \<noteq> OK \<Longrightarrow> l = m_log s"
    using p by (auto simp: push_def Let_def split: if_splits)
  then show ?thesis
    by (simp add: append_one_def p ok_def lview_call_if)
qed

lemma merge_entry_lview:
  assumes "wf_ring (m_log s)"
  shows "lview (merge_entry idx e s) = lview (s\<lparr>m_log := merge_log idx e (m_log s)\<rparr>)"
proof -
  let ?t = "call_if b (EvPersistLogTruncate idx) (s\<lparr>m_log := l\<rparr>)"
  have trunc: "lview (append_one idx e (call_if b (EvPersistLogTruncate idx) (s\<lparr>m_log := l\<rparr>))) =
      lview (s\<lparr>m_log := snd (push (e\<lparr>e_index := idx\<rparr>) l)\<rparr>)" for b l
  proof -
    have v: "lview (call_if b (EvPersistLogTruncate idx) (s\<lparr>m_log := l\<rparr>)) = lview (s\<lparr>m_log := l\<rparr>)"
      by (simp add: lview_call_if)
    show ?thesis
      unfolding append_one_lview using lview_set_log [OF v] lview_eqD(1) [OF v] by simp
  qed
  show ?thesis
  proof (cases "lr_base (m_log s) < idx \<and> idx \<le> last_index (m_log s)")
    case True
    then obtain x where "term_at (m_log s) idx = Some x"
      using term_at_exists [OF assms] by blast
    moreover have "\<not> idx \<le> lr_base (m_log s)"
      using True by (simp add: not_le)
    ultimately show ?thesis
      using True by (simp add: merge_entry_def merge_log_def Let_def trunc)
  next
    case False
    then show ?thesis
      by (auto simp: merge_entry_def merge_log_def Let_def append_one_lview)
  qed
qed

lemma merge_entries_lview:
  assumes "log_ok (m_log s)" and "no_gap idx (m_log s)" and "unat idx + length es < 2 ^ 64"
  shows "lview (merge_entries idx es s) = lview (s\<lparr>m_log := merge_logs idx es (m_log s)\<rparr>)"
  using assms
proof (induction es arbitrary: idx s)
  case (Cons e es)
  let ?s1 = "merge_entry idx e s"
  have b: "unat idx + 1 < 2 ^ 64" and s1: "unat (idx + 1) = unat idx + 1"
    using Cons.prems(3) by (simp, subst unat_add_no_wrap) simp_all
  have v: "lview ?s1 = lview (s\<lparr>m_log := merge_log idx e (m_log s)\<rparr>)"
    using Cons.prems(1) by (simp add: merge_entry_lview log_ok_def)
  have l: "m_log ?s1 = merge_log idx e (m_log s)"
    using lview_eqD(1) [OF v] by simp
  show ?case
    using Cons.IH [of ?s1 "idx + 1"] merge_log_ok [OF Cons.prems(1,2) b, of e] Cons.prems(3) s1 l
      lview_set_log [OF v] by simp
qed simp

section \<open>The invariant at every entry point\<close>

text \<open>
  The bounds a message must respect, all far from anything a cluster of this size produces: the
  indices it names stay below the largest value, its entry count fits the array it carries, and
  a snapshot does not claim to end at index 0.
\<close>

fun payload_ok :: "Payload \<Rightarrow> bool" where
  "payload_ok (PAppendEntries ae) \<longleftrightarrow>
     view_ok ae \<and> unat (ae_prev_log_index ae) + unat (ae_n_entries ae) + 2 < 2 ^ 64"
| "payload_ok (PInstallSnapshot is) \<longleftrightarrow>
     is_last_included_index is \<noteq> 0 \<and> unat (is_last_included_index is) + 1 < 2 ^ 64"
| "payload_ok _ \<longleftrightarrow> True"

lemma length_view: "view_ok ae \<Longrightarrow> length (view ae) = unat (ae_n_entries ae)"
  by (simp add: view_def view_ok_def)

lemma server_inv_set_commit:
  "server_inv s \<Longrightarrow> m_commit_index s \<le> c \<Longrightarrow> server_inv (s\<lparr>m_commit_index := c\<rparr>)"
  by (auto simp: server_inv_def applied_def)

lemma merge_entries_inv:
  assumes "server_inv s" and "no_gap idx (m_log s)" and "unat idx + length es < 2 ^ 64"
  shows "server_inv (merge_entries idx es s)"
proof -
  have ok: "log_ok (m_log s)"
    using assms(1) by (simp add: server_inv_def)
  have "server_inv (s\<lparr>m_log := merge_logs idx es (m_log s)\<rparr>)"
    using assms(1) merge_logs_ok [OF ok assms(2,3)] by (simp add: server_inv_def applied_def)
  then show ?thesis
    using server_inv_cong [OF merge_entries_lview [OF ok assms(2,3)]] by simp
qed

lemma accept_entries_inv:
  assumes "server_inv s" and "ae_prev_log_index ae \<le> last_index (m_log s)"
    and "payload_ok (PAppendEntries ae)"
  shows "server_inv (accept_entries ae s)"
proof -
  have ng: "no_gap (ae_prev_log_index ae + 1) (m_log s)"
    and b: "unat (ae_prev_log_index ae + 1) + length (view ae) < 2 ^ 64"
    using assms(2,3) by (simp_all add: no_gap_def word_le_nat_alt unat_add_no_wrap length_view)
  have "server_inv (merge_entries (ae_prev_log_index ae + 1) (view ae) s)" (is "server_inv ?s1")
    using assms(1) ng b by (rule merge_entries_inv)
  then have "server_inv ?s1" "server_inv (?s1\<lparr>m_commit_index := max c (m_commit_index ?s1)\<rparr>)" for c
    by (simp_all add: server_inv_set_commit)
  then have "server_inv (emit m ?s1)"
      "server_inv (emit m (?s1\<lparr>m_commit_index := max c (m_commit_index ?s1)\<rparr>))" for c m
    by (simp_all only: server_inv_cong [OF lview_simple(3)])
  then show ?thesis
    using assms(3) by (simp add: accept_entries_def Let_def apply_committed_inv)
qed

lemma server_inv_emit [simp]: "server_inv (emit m s) = server_inv s"
  by (rule server_inv_cong) simp

lemma handle_append_entries_inv:
  assumes "server_inv s" and "payload_ok (PAppendEntries ae)"
  shows "server_inv (handle_append_entries ae s)"
proof -
  let ?s1 = "become_follower (ae_term ae) (ae_leader_id ae) (maybe_step_down (ae_term ae) s)"
  let ?s2 = "(now_called ?s1)\<lparr>m_last_leader_contact := now_value ?s1\<rparr>"
  have "lview ?s2 = lview s"
    by simp
  then have i2: "server_inv ?s2"
    using assms(1) server_inv_cong by blast
  have "server_inv (accept_entries ae ?s2)" if "\<not> last_index (m_log ?s2) < ae_prev_log_index ae"
    using i2 that assms(2) by (intro accept_entries_inv) (simp_all add: not_less)
  then show ?thesis
    using assms(1) i2 by (simp add: handle_append_entries_def Let_def split: option.split)
qed

lemma install_log_ok:
  assumes "log_ok r" and "is_last_included_index is \<noteq> 0" and "unat (is_last_included_index is) + 1 < 2 ^ 64"
  shows "log_ok (install_log is r)" and "lr_base (install_log is r) = is_last_included_index is"
proof -
  let ?i = "is_last_included_index is"
  have "lr_base r \<le> ?i" if "term_at r ?i = Some t" for t
    using that assms(1,2) at_Some_range(1) [of r ?i]
    by (auto simp: term_at_def log_ok_def split: if_splits option.splits)
  then show "log_ok (install_log is r)"
    using assms by (auto simp: install_log_def Let_def intro: log_ok_compact log_ok_reset)
  show "lr_base (install_log is r) = ?i"
    by (simp add: install_log_def Let_def compact_to_def reset_to_snapshot_def)
qed

lemma handle_install_snapshot_inv:
  assumes "server_inv s" and "payload_ok (PInstallSnapshot is)"
  shows "server_inv (handle_install_snapshot is s)"
proof -
  let ?s1 = "become_follower (is_term is) (is_leader_id is) (maybe_step_down (is_term is) s)"
  let ?s2 = "if is_offset is = 0
     then ?s1\<lparr>m_snap_len := 0, m_snap_index := is_last_included_index is,
              m_snap_term := is_last_included_term is\<rparr>
     else ?s1"
  let ?s3 = "store_chunk is ?s2"
  have "lview ?s3 = lview s"
    by simp
  then have i3: "server_inv ?s3"
    using assms(1) server_inv_cong by blast
  have inst: "server_inv (call_if b1 (EvPersistLogCompact j) (call_if b2 (EvSnapshotLoad d n)
      (t\<lparr>m_log := install_log is (m_log t),
         m_commit_index := max (m_commit_index t) (lr_base (install_log is (m_log t))),
         m_last_applied := max (m_last_applied t) (lr_base (install_log is (m_log t)))\<rparr>)))"
    if "server_inv t" for t b1 b2 j d n
    using that assms(2) install_log_ok [of "m_log t" "is"]
    by (auto simp: server_inv_def call_if_def record_event_def applied_def max_def)
      (blast intro: order_trans)+
  show ?thesis
    using assms(1) i3 inst [OF i3]
    by (simp add: handle_install_snapshot_def Let_def apply_committed_inv)
qed

lemma handle_append_entries_resp_inv:
  assumes "server_inv s"
  shows "server_inv (handle_append_entries_resp from rr s)"
proof -
  have contact: "server_inv (upd_node i f (upd_node i g (now_called s)))" for i f g
    using assms server_inv_cong [of "upd_node i f (upd_node i g (now_called s))" s] by simp
  have send: "server_inv t \<Longrightarrow> server_inv (send_append_entries p t)" for t p
    using server_inv_cong [OF lview_send_append_entries] by simp
  have "server_inv (maybe_step_down t s)" for t
    using assms server_inv_cong [of "maybe_step_down t s" s] by simp
  then show ?thesis
    using assms contact
    by (simp add: handle_append_entries_resp_def Let_def send leader_advance_commit_inv apply_committed_inv
        split: option.split)
qed

lemma handle_install_snapshot_resp_inv:
  assumes "server_inv s"
  shows "server_inv (handle_install_snapshot_resp from rr s)"
proof -
  have inv: "server_inv t" if "lview t = lview s" for t
    using assms that server_inv_cong by blast
  show ?thesis
    using assms by (simp add: handle_install_snapshot_resp_def Let_def inv apply_committed_inv split: option.split)
qed

lemma handle_request_vote_resp_inv:
  assumes "server_inv s" and "headroom s"
  shows "server_inv (handle_request_vote_resp from rr s)"
proof -
  have inv: "server_inv t \<and> headroom t" if "lview t = lview s" for t
    using assms that server_inv_cong headroom_cong by blast
  show ?thesis
    using assms
    by (simp add: handle_request_vote_resp_def Let_def inv become_candidate_inv become_leader_inv
        split: option.split)
qed

lemma handle_inv:
  assumes "server_inv s" and "headroom s" and "payload_ok (msg_payload m)"
  shows "server_inv (handle m s)"
proof -
  have "server_inv (handle_request_vote rv s)" for rv
    using assms(1) server_inv_cong [of "handle_request_vote rv s" s] by simp
  then show ?thesis
    using assms
    by (cases "msg_payload m")
      (auto simp: handle_def simp del: payload_ok.simps intro: handle_request_vote_resp_inv
        handle_append_entries_inv handle_append_entries_resp_inv handle_install_snapshot_inv
        handle_install_snapshot_resp_inv)
qed

lemma periodic_inv:
  assumes "server_inv s" and "headroom s"
  shows "server_inv (periodic s)"
proof -
  have inv: "server_inv t \<and> headroom t" if "lview t = lview s" for t
    using assms that server_inv_cong headroom_cong by blast
  show ?thesis
    using assms
    by (simp add: periodic_def Let_def inv apply_committed_inv start_pre_vote_inv)
qed

lemma submit_inv:
  assumes "server_inv s" and "headroom s"
  shows "server_inv (snd (submit ty data s))"
proof (cases "\<not> full (m_log s)")
  case True
  let ?e = "submit_entry ty data s"
  have p: "push ?e (m_log s) = (OK, snd (push ?e (m_log s)))"
    using True by (simp add: push_def Let_def)
  have "server_inv (each_other send_append_entries (upd_self f
      (call_if b (EvPersistLogAppend ?e) (s\<lparr>m_log := snd (push ?e (m_log s))\<rparr>))))" for b f
    using assms by (rule push_inv [where e = ?e]) (simp_all add: submit_entry_def lview_call_if)
  then show ?thesis
    using assms(1) p
    by (auto simp: submit_def Let_def ok_def leader_advance_commit_inv apply_committed_inv split: prod.split)
qed (simp add: submit_def assms)

section \<open>Runs of one server\<close>

text \<open>Between two restarts a server is driven through its entry points, in any order.\<close>

inductive server_step :: "Server \<Rightarrow> Server \<Rightarrow> bool" where
  message: "headroom s \<Longrightarrow> payload_ok (msg_payload m) \<Longrightarrow> server_step s (handle m s)"
| tick: "headroom s \<Longrightarrow> server_step s (periodic s)"
| command: "headroom s \<Longrightarrow> server_step s (snd (submit ty data s))"
| snapshot: "server_step s (snd (begin_snapshot s))"
| started: "server_step s (start s)"
| stopped: "server_step s (stop s)"

inductive_cases server_stepE: "server_step s s'"

lemma server_step_inv: "server_step s s' \<Longrightarrow> server_inv s \<Longrightarrow> server_inv s'"
  using server_inv_cong [of "start s" s] server_inv_cong [of "stop s" s]
  by (auto elim!: server_stepE simp: handle_inv periodic_inv submit_inv begin_snapshot_inv start_def stop_def)

lemma server_steps_inv: "server_step\<^sup>*\<^sup>* s s' \<Longrightarrow> server_inv s \<Longrightarrow> server_inv s'"
  by (induction rule: rtranclp_induct) (auto intro: server_step_inv)

lemma new_server_inv: "server_inv (new_server self_id node_ids cbs)"
  by (simp add: new_server_def Let_def blank_server_def server_inv_def applied_def in_order_def)
    (simp add: new_ring_def)

section \<open>Advancing the commit index\<close>

lemma advance_loop_spec:
  "(m_commit_index (advance_loop n s) = m_commit_index s \<and>
      (\<forall>k. m_commit_index s < k \<and> k \<le> n \<longrightarrow> \<not> committable k s)) \<or>
   (m_commit_index s < m_commit_index (advance_loop n s) \<and> m_commit_index (advance_loop n s) \<le> n \<and>
      committable (m_commit_index (advance_loop n s)) s \<and>
      (\<forall>k. m_commit_index (advance_loop n s) < k \<and> k \<le> n \<longrightarrow> \<not> committable k s))"
proof (induction n s rule: advance_loop.induct)
  case (1 n s)
  show ?case
  proof (cases "m_commit_index s < n")
    case False
    then show ?thesis
      by (subst (1 2) advance_loop.simps) auto
  next
    case True
    show ?thesis
    proof (cases "committable n s")
      case True
      with \<open>m_commit_index s < n\<close> show ?thesis
        by (subst (2 3 4 5) advance_loop.simps) auto
    next
      case False
      have "n \<noteq> 0"
        using True word_not_simps(1) by metis
      then have pred: "k \<le> n - 1 \<longleftrightarrow> k < n" for k
        by (rule word_le_pred_iff)
      have "advance_loop n s = advance_loop (n - 1) s"
        using True False by (subst advance_loop.simps) simp
      then show ?thesis
        using 1 [OF True False] False pred by (auto simp: le_less)
    qed
  qed
qed

lemma begin_snapshot_cursors:
  "m_commit_index (snd (begin_snapshot s)) = m_commit_index s"
  "m_last_applied (snd (begin_snapshot s)) = m_last_applied s"
  by (simp_all add: begin_snapshot_def Let_def call_if_def record_event_def split: option.split prod.split)

lemma apply_loop_cursors:
  "m_commit_index (apply_loop s) = m_commit_index s"
  "m_last_applied s \<le> m_commit_index s \<Longrightarrow> m_last_applied (apply_loop s) = m_commit_index s"
proof (induction s rule: apply_loop.induct)
  case (1 s)
  {
    case 1
    show ?case
      using "1.IH"(1) by (subst apply_loop.simps) (simp add: apply_one_fields)
  next
    case 2
    then show ?case
      using "1.IH"(2) by (subst apply_loop.simps) (auto simp: apply_one_fields word_succ_le)
  }
qed

lemma apply_committed_cursors:
  "m_commit_index (apply_committed s) = m_commit_index s"
  "m_last_applied s \<le> m_commit_index s \<Longrightarrow> m_last_applied (apply_committed s) = m_commit_index s"
  by (simp_all add: apply_committed_def maybe_compact_def Let_def begin_snapshot_cursors apply_loop_cursors)

section \<open>Properties\<close>

text \<open>A server alone in its cluster, started, timed out and given one command.\<close>

definition demo_server :: Server where
  "demo_server = start (new_server 1 [1] (demo_cbs 1))"

definition demo_server_run :: Server where
  "demo_server_run = snd (submit SENSOR_DATA [7, 8, 9] (periodic demo_server))"

lemma demo_server_steps: "server_step\<^sup>*\<^sup>* (new_server 1 [1] (demo_cbs 1)) demo_server_run"
proof -
  have "last_index (m_log demo_server) = 0" "last_index (m_log (periodic demo_server)) = 1"
    by code_simp+
  then have "headroom demo_server" "headroom (periodic demo_server)"
    by (simp_all add: headroom_def)
  then have "server_step demo_server (periodic demo_server)" "server_step (periodic demo_server) demo_server_run"
    unfolding demo_server_run_def by (auto intro: server_step.intros)
  moreover have "server_step (new_server 1 [1] (demo_cbs 1)) demo_server"
    unfolding demo_server_def by (rule server_step.started)
  ultimately show ?thesis
    by (meson converse_rtranclp_into_rtranclp rtranclp.rtrancl_refl)
qed






text \<open>
  A log of three entries of terms 1, 1 and 2, and a message that replaces the third.
\<close>

definition demo_entry :: "Term \<Rightarrow> Index \<Rightarrow> Entry" where
  "demo_entry t i = default_entry\<lparr>e_term := t, e_index := i\<rparr>"

lemma demo_entry_fields [simp]: "e_index (demo_entry t i) = i" "e_term (demo_entry t i) = t"
  by (simp_all add: demo_entry_def)

definition demo_log :: LogRing where
  "demo_log = snd (push (demo_entry 2 3) (snd (push (demo_entry 1 2) (snd (push (demo_entry 1 1) new_ring)))))"

lemma demo_log_ok: "log_ok demo_log" "last_index demo_log = 3" "lr_base demo_log = 0"
proof -
  have l: "last_index (snd (push (demo_entry 1 1) new_ring)) = 1"
      "last_index (snd (push (demo_entry 1 2) (snd (push (demo_entry 1 1) new_ring)))) = 2"
      "last_index new_ring = 0"
    by code_simp+
  show "log_ok demo_log"
    unfolding demo_log_def by (intro log_ok_push log_ok_new; simp add: l)
  show "last_index demo_log = 3" "lr_base demo_log = 0"
    by code_simp+
qed


text \<open>
  C21. A repeated or delayed AppendEntries never truncates: when the log already holds an entry of
  the right term at every index the message names, merging it changes neither the log nor the
  cursors, however many entries follow.
\<close>

theorem merge_never_truncates_agreement:
  assumes "log_ok (m_log s)" and "unat prev + length es \<le> unat (last_index (m_log s))"
    and "\<And>i. lr_base (m_log s) < i \<Longrightarrow> unat prev < unat i \<Longrightarrow> unat i \<le> unat prev + length es \<Longrightarrow>
      map_option e_term (get_entry i s) = Some (e_term (es ! (unat i - unat prev - 1)))"
  shows "m_log (merge_entries (prev + 1) es s) = m_log s \<and>
    m_commit_index (merge_entries (prev + 1) es s) = m_commit_index s \<and>
    applied (merge_entries (prev + 1) es s) = applied s"
proof (cases "es = []")
  case False
  have wf: "wf_ring (m_log s)"
    using assms(1) by (simp add: log_ok_def)
  then have b: "unat (last_index (m_log s)) + 1 < 2 ^ 64"
    by (simp add: unat_last_index) (simp add: wf_ring_def)
  have "0 < length es"
    using False by simp
  then have "unat (prev + 1) = unat prev + 1"
    using assms(2) b by (subst unat_add_no_wrap) simp_all
  then have "lview (merge_entries (prev + 1) es s) = lview (s\<lparr>m_log := merge_logs (prev + 1) es (m_log s)\<rparr>)"
    using assms(1,2) b by (intro merge_entries_lview) (simp_all add: no_gap_def)
  moreover have "merge_logs (prev + 1) es (m_log s) = m_log s"
    using wf assms(2,3) by (intro merge_logs_agree) (simp_all add: get_entry_def)
  ultimately show ?thesis
    by (simp add: lview_def applied_def)
qed simp

theorem merge_never_truncates_agreement_witness:
  "m_log (merge_entries 1 [demo_entry 1 1] (demo_server\<lparr>m_log := demo_log\<rparr>)) = demo_log"
proof -
  have at1: "map_option e_term (at demo_log 1) = Some 1"
    by code_simp
  have "i = 1" if "0 < unat i" "unat i \<le> 1" for i :: Index
    using that by (metis One_nat_def Suc_leI le_antisym unat_1 word_unat_eq_iff)
  then have "map_option e_term (at demo_log i) = Some 1" if "0 < unat i" "unat i \<le> 1" for i
    using that at1 by blast
  then show ?thesis
    using merge_never_truncates_agreement [of "demo_server\<lparr>m_log := demo_log\<rparr>" 0 "[demo_entry 1 1]"] demo_log_ok
    by (simp add: get_entry_def del: merge_entries.simps)
qed

text \<open>
  C10. The commit rule of a leader: the new commit index is the highest index, above the old one,
  whose entry is of the leader's term and is held by a majority of the table; without such an
  index it does not move. It never falls.
\<close>

theorem leader_commits_highest_majority_entry:
  "(m_commit_index (leader_advance_commit s) = m_commit_index s \<and>
      \<not> (\<exists>k. m_commit_index s < k \<and> k \<le> last_index (m_log s) \<and> committable k s)) \<or>
   (m_commit_index s < m_commit_index (leader_advance_commit s) \<and>
      m_commit_index (leader_advance_commit s) \<le> last_index (m_log s) \<and>
      term_at (m_log s) (m_commit_index (leader_advance_commit s)) = Some (m_current_term s) \<and>
      majority s \<le> replicated_count (m_commit_index (leader_advance_commit s)) s \<and>
      \<not> (\<exists>k. m_commit_index (leader_advance_commit s) < k \<and> k \<le> last_index (m_log s) \<and> committable k s))"
  using advance_loop_spec [of "last_index (m_log s)" s]
  by (auto simp: leader_advance_commit_def apply_committed_cursors committable_def)

end
