(* ===== verification/Raft_Contracts.thy ===== *)
theory Raft_Contracts
  imports Raft_Replication
begin

text \<open>
  Contracts of the server's operations that clients and peers rely on: who gets a vote, what a
  refused AppendEntries says, what a submission returns, and that a snapshot sent in chunks is
  reassembled byte for byte.
\<close>

section \<open>Votes\<close>

text \<open>The position of the end of a log, ordered by term and then by index.\<close>

definition log_end :: "LogRing \<Rightarrow> log_pos" where
  "log_end r = LogPos (last_term r) (last_index r)"

lemma up_to_date_iff: "up_to_date rv s \<longleftrightarrow> log_end (m_log s) \<le> LogPos (rv_last_log_term rv) (rv_last_log_index rv)"
  by (auto simp: up_to_date_def log_end_def less_eq_log_pos_def)

definition new_events :: "Server \<Rightarrow> Server \<Rightarrow> Event list" where
  "new_events s s' = drop (length (io_events s)) (io_events s')"

lemma io_events_frame [simp]:
  "io_events (now_called s) = io_events s" "io_events (rand_called s) = io_events s"
  "io_events (reset_election_timer s) = io_events s"
  "io_events (emit m s) = io_events s @ (if cb_send (m_cbs s) then [EvSend m] else [])"
  "io_events (persist_state s) =
     io_events s @ (if cb_persist_state (m_cbs s) then [EvPersistState (m_current_term s) (m_voted_for s)] else [])"
  by (simp_all add: now_called_def rand_called_def reset_election_timer_def Let_def emit_def persist_state_def
      call_if_def record_event_def)

lemma maybe_step_down_events:
  assumes "EvSend m \<in> set (io_events (maybe_step_down t s))"
  shows "EvSend m \<in> set (io_events s)"
  using assms
  by (auto simp: maybe_step_down_def Let_def set_state_def call_if_def record_event_def split: if_splits)

lemma lview_up_to_date: "lview s' = lview s \<Longrightarrow> up_to_date rv s' = up_to_date rv s"
  by (simp add: up_to_date_def lview_def)

lemma cbs_frame [simp]: "m_cbs (maybe_step_down t s) = m_cbs s" "m_cbs (now_called s) = m_cbs s"
  using lview_eqD(5) [OF lview_roles(1)] lview_eqD(5) [OF lview_simple(1)] by blast+

text \<open>
  C20. A node grants its vote, and its pre-vote, only to a candidate whose log ends at or after
  its own, in the order of last term first and last index second.
\<close>

theorem vote_only_for_up_to_date:
  assumes "EvSend m \<in> set (io_events (handle_request_vote rv s))" and "EvSend m \<notin> set (io_events s)"
    and "msg_payload m = PRequestVoteResp rr" and "rvr_vote_granted rr"
  shows "log_end (m_log s) \<le> LogPos (rv_last_log_term rv) (rv_last_log_index rv)"
proof -
  let ?s1 = "now_called s"
  let ?s2 = "maybe_step_down (rv_term rv) ?s1"
  have v: "lview ?s1 = lview s" "lview ?s2 = lview s"
    by simp_all
  have old: "EvSend m \<notin> set (io_events ?s2)"
    using assms(2) maybe_step_down_events by fastforce
  have "up_to_date rv ?s1 \<or> up_to_date rv ?s2"
    using assms old
    by (auto simp: handle_request_vote_def request_vote_guard_def Let_def vote_reply_def split: if_splits)
  then have "up_to_date rv s"
    using lview_up_to_date v by blast
  then show ?thesis
    by (simp add: up_to_date_iff)
qed

definition demo_voter :: Server where
  "demo_voter = start (new_server 2 [1, 2, 3] (demo_cbs 2))"

definition demo_request :: RequestVote where
  "demo_request = \<lparr>rv_term = 1, rv_candidate_id = 3, rv_last_log_index = 4, rv_last_log_term = 1, rv_pre_vote = False\<rparr>"

definition demo_grant :: Message where
  "demo_grant = \<lparr>msg_from = 2, msg_to = 3,
     msg_payload = PRequestVoteResp \<lparr>rvr_term = 1, rvr_vote_granted = True, rvr_pre_vote = False\<rparr>\<rparr>"

theorem vote_only_for_up_to_date_witness:
  "last (io_events (handle_request_vote demo_request demo_voter)) = EvSend demo_grant \<and>
   log_end (m_log demo_voter) \<le> LogPos 1 4"
proof -
  have l: "last (io_events (handle_request_vote demo_request demo_voter)) = EvSend demo_grant"
      "io_events (handle_request_vote demo_request demo_voter) \<noteq> []" "io_events demo_voter = []"
    by code_simp+
  then have "EvSend demo_grant \<in> set (io_events (handle_request_vote demo_request demo_voter))"
    using last_in_set by metis
  with l show ?thesis
    using vote_only_for_up_to_date [of demo_grant demo_request demo_voter]
    by (simp add: demo_grant_def demo_request_def)
qed

section \<open>Refused AppendEntries\<close>

text \<open>
  When the entry before the new ones conflicts, a follower answers with the conflicting term
  and the first index of the run of that term in its log that ends there; the leader can skip
  the whole run. The log is not changed.
\<close>

theorem conflict_hint_is_start_of_term:
  assumes "log_ok (m_log s)" and "m_current_term s \<le> ae_term ae" and "cb_send (m_cbs s)"
    and "lr_base (m_log s) < ae_prev_log_index ae" and "ae_prev_log_index ae \<le> last_index (m_log s)"
    and "term_at (m_log s) (ae_prev_log_index ae) = Some t" and "t \<noteq> ae_prev_log_term ae"
  defines "s' \<equiv> handle_append_entries ae s"
  shows "\<exists>m rr c. last (io_events s') = EvSend m \<and> msg_to m = ae_leader_id ae \<and>
      msg_payload m = PAppendEntriesResp rr \<and> \<not> aer_success rr \<and>
      aer_conflict_term rr = t \<and> aer_conflict_index rr = c \<and>
      lr_base (m_log s) < c \<and> c \<le> ae_prev_log_index ae \<and>
      (\<forall>i. c \<le> i \<and> i \<le> ae_prev_log_index ae \<longrightarrow> term_at (m_log s) i = Some t) \<and>
      (c = lr_base (m_log s) + 1 \<or> term_at (m_log s) (c - 1) \<noteq> Some t) \<and>
      m_log s' = m_log s"
proof -
  let ?s1 = "become_follower (ae_term ae) (ae_leader_id ae) (maybe_step_down (ae_term ae) s)"
  let ?s2 = "(now_called ?s1)\<lparr>m_last_leader_contact := now_value ?s1\<rparr>"
  let ?prev = "ae_prev_log_index ae"
  let ?c = "conflict_scan (m_log s) t ?prev ?prev"
  have "lview ?s2 = lview s"
    by simp
  note f = lview_eqD [OF this]
  have s': "s' = emit (ae_reply (ae_leader_id ae) False ?c t ?s2) ?s2"
    unfolding s'_def handle_append_entries_def Let_def f
    using assms(2,4-7) by (simp add: not_less less_le_not_le)
  have "unat (lr_base (m_log s)) + 1 < 2 ^ 64"
    using assms(1) by (simp add: log_ok_def wf_ring_def)
  then have spec: "lr_base (m_log s) < ?c \<and> ?c \<le> ?prev \<and>
      (\<forall>i. ?c \<le> i \<and> i \<le> ?prev \<longrightarrow> term_at (m_log s) i = Some t) \<and>
      (?c = lr_base (m_log s) + 1 \<or> term_at (m_log s) (?c - 1) \<noteq> Some t)"
    by (intro conflict_scan_spec) (use assms(4,6) in auto)
  have "last (io_events s') = EvSend (ae_reply (ae_leader_id ae) False ?c t ?s2)"
    unfolding s' using assms(3) f(5) by simp
  moreover have "m_log s' = m_log s"
    unfolding s' using f(1) lview_eqD(1) [OF lview_simple(3)] by metis
  ultimately show ?thesis
    using spec by (simp add: ae_reply_def)
qed

theorem conflict_hint_is_start_of_term_witness:
  "\<exists>m rr. last (io_events (handle_append_entries
        \<lparr>ae_term = 5, ae_leader_id = 1, ae_prev_log_index = 2, ae_prev_log_term = 3, ae_leader_commit = 0,
         ae_n_entries = 0, ae_entries = []\<rparr> (demo_voter\<lparr>m_log := demo_log\<rparr>))) = EvSend m \<and>
     msg_payload m = PAppendEntriesResp rr \<and> aer_conflict_term rr = 1"
proof -
  have "term_at demo_log 2 = Some 1" "m_current_term demo_voter = 0" "cb_send (m_cbs demo_voter)"
    by code_simp+
  then show ?thesis
    using conflict_hint_is_start_of_term [of "demo_voter\<lparr>m_log := demo_log\<rparr>"
        "\<lparr>ae_term = 5, ae_leader_id = 1, ae_prev_log_index = 2, ae_prev_log_term = 3, ae_leader_commit = 0,
         ae_n_entries = 0, ae_entries = []\<rparr>" 1] demo_log_ok
    by auto
qed

section \<open>Submitting a command\<close>

text \<open>What an accepted submission in a cluster of several nodes leaves in the log.\<close>

lemma submit_accepted:
  assumes "m_n_nodes s \<noteq> 1" and "fst (submit type data s) = Inr i"
  shows "length data \<le> MAX_ENTRY_DATA" and "\<not> full (m_log s)" and "i = last_index (m_log s) + 1"
    and "m_log (snd (submit type data s)) = snd (push (submit_entry type data s) (m_log s))"
proof -
  let ?e = "submit_entry type data s"
  have ok: "m_running s" "m_state s = LEADER" "length data \<le> MAX_ENTRY_DATA" "\<not> full (m_log s)"
      "i = last_index (m_log s) + 1"
    using assms(2) by (auto simp: submit_def Let_def push_def ok_def submit_entry_def split: if_splits)
  then show "length data \<le> MAX_ENTRY_DATA" "\<not> full (m_log s)" "i = last_index (m_log s) + 1"
    by simp_all
  have p: "push ?e (m_log s) = (OK, snd (push ?e (m_log s)))"
    using ok(4) by (simp add: push_def Let_def)
  have n: "m_n_nodes (each_other send_append_entries t) = m_n_nodes t" for t
    by (rule each_other_field)
      (simp add: send_append_entries_def send_install_snapshot_def emit_def call_if_def record_event_def
        Let_def split: option.split)
  have n2: "m_n_nodes (upd_self f (call_if b ev (s\<lparr>m_log := l\<rparr>))) = m_n_nodes s" for f b ev l
    by (simp add: upd_self_def upd_node_def call_if_def record_event_def split: option.split)
  have "lview (snd (submit type data s)) = lview (s\<lparr>m_log := snd (push ?e (m_log s))\<rparr>)"
    unfolding submit_def Let_def
    using ok p assms(1) by (auto simp: ok_def n n2 lview_call_if split: prod.split)
  from lview_eqD(1) [OF this] show "m_log (snd (submit type data s)) = snd (push ?e (m_log s))"
    by simp
qed

lemma submit_get_entry:
  assumes "wf_ring (m_log s)" and "headroom s" and "m_n_nodes s \<noteq> 1"
    and "fst (submit type data s) = Inr i"
  shows "get_entry i (snd (submit type data s)) = Some (submit_entry type data s)"
    and "j \<noteq> i \<Longrightarrow> get_entry j (snd (submit type data s)) = get_entry j s"
  using at_push [OF assms(1) submit_accepted(2) [OF assms(3,4)] assms(2) [unfolded headroom_def], of "submit_entry type data s"]
    submit_accepted(3,4) [OF assms(3,4)]
  by (simp_all add: get_entry_def)

text \<open>
  A submission is refused with the error of the first failing check, leaving the server as
  it was; otherwise it returns the index after the last one.
\<close>

theorem submit_result:
  "submit type data s =
     (if \<not> m_running s then (Inl SHUTDOWN, s)
      else if m_state s \<noteq> LEADER then (Inl NOT_LEADER, s)
      else if MAX_ENTRY_DATA < length data then (Inl BAD_ARG, s)
      else if full (m_log s) then (Inl LOG_FULL, s)
      else (Inr (last_index (m_log s) + 1), snd (submit type data s)))"
  by (simp add: submit_def Let_def push_def ok_def submit_entry_def)

text \<open>
  An accepted submission in a cluster of several nodes is in the log: the returned index
  holds an entry of the current term with the given type and exactly the given bytes, earlier
  indices are untouched, and the log sent to the other nodes is this one.
\<close>

theorem submit_appends:
  assumes "wf_ring (m_log s)" and "headroom s" and "m_n_nodes s \<noteq> 1"
    and "fst (submit type data s) = Inr i"
  defines "s' \<equiv> snd (submit type data s)"
  shows "\<exists>e. get_entry i s' = Some e \<and> e_term e = m_current_term s \<and> e_index e = i \<and> e_type e = type \<and>
      payload e = data \<and> (\<forall>j. j \<noteq> i \<longrightarrow> get_entry j s' = get_entry j s)"
proof -
  note acc = submit_accepted [OF assms(3,4)] and get = submit_get_entry [OF assms(1-4)]
  have "unat (of_nat (length data) :: u16) = length data"
    using acc(1) by (intro unat_of_nat_small) (simp add: MAX_ENTRY_DATA_def)
  then show ?thesis
    using get acc(3) by (intro exI [of _ "submit_entry type data s"]) (simp add: s'_def submit_entry_def payload_def)
qed

lemma demo_voter_log: "m_log demo_voter = new_ring" "m_n_nodes demo_voter = 3" "m_running demo_voter"
  by (code_simp, code_simp, code_simp)

theorem submit_appends_witness:
  "\<exists>e. get_entry 1 (snd (submit SENSOR_DATA [7, 8, 9] (demo_voter\<lparr>m_state := LEADER\<rparr>))) = Some e \<and>
     e_type e = SENSOR_DATA \<and> payload e = [7, 8, 9]"
proof -
  have "last_index new_ring = 0" "\<not> full new_ring"
    by code_simp+
  then show ?thesis
    using submit_appends [of "demo_voter\<lparr>m_state := LEADER\<rparr>" SENSOR_DATA "[7, 8, 9]" 1] demo_voter_log
    by (auto simp: headroom_def submit_def Let_def push_def ok_def submit_entry_def MAX_ENTRY_DATA_def)
qed

section \<open>Snapshot transfer\<close>

text \<open>The chunk a leader sends for a peer's offset, and what the answer makes of the offset.\<close>

definition chunk_msg :: "Peer \<Rightarrow> Server \<Rightarrow> InstallSnapshot" where
  "chunk_msg peer s =
     (let offset = p_snap_offset peer;
          chunk = (of_nat (min (unat (m_snap_len s - offset)) SNAPSHOT_CHUNK) :: u16);
          bytes = take (unat chunk) (drop (unat offset) (m_snap_buf s))
      in \<lparr>is_term = m_current_term s, is_leader_id = m_self_id s,
          is_last_included_index = lr_base (m_log s), is_last_included_term = lr_base_term (m_log s),
          is_offset = offset, is_total_len = m_snap_len s, is_data_len = chunk,
          is_done = (m_snap_len s \<le> offset + ucast chunk),
          is_data = bytes @ replicate (SNAPSHOT_CHUNK - length bytes) 0\<rparr>)"

lemma send_install_snapshot_sends:
  assumes "\<not> p_is_self peer" and "p_snap_offset peer < m_snap_len s" and "cb_send (m_cbs s)"
  shows "io_events (send_install_snapshot peer s) =
    io_events s @ [EvSend \<lparr>msg_from = m_self_id s, msg_to = p_id peer,
      msg_payload = PInstallSnapshot (chunk_msg peer s)\<rparr>]"
proof -
  have "m_snap_len s \<noteq> 0" "\<not> m_snap_len s \<le> p_snap_offset peer"
    using assms(2) word_not_simps(1) by (metis, simp add: not_le)
  with assms show ?thesis
    by (simp add: send_install_snapshot_def chunk_msg_def Let_def)
qed

text \<open>The buffers of both sides have their full size, and the snapshot fits.\<close>

definition snap_ok :: "Server \<Rightarrow> bool" where
  "snap_ok s \<longleftrightarrow> length (m_snap_buf s) = SNAPSHOT_MAX \<and> unat (m_snap_len s) \<le> SNAPSHOT_MAX"

text \<open>The receiver holds the first \<open>n\<close> bytes of the sender's snapshot.\<close>

definition received :: "nat \<Rightarrow> Server \<Rightarrow> Server \<Rightarrow> bool" where
  "received n s r \<longleftrightarrow> unat (m_snap_len r) = n \<and> take n (m_snap_buf r) = take n (m_snap_buf s)"

lemma chunk_msg_fields:
  assumes "snap_ok s" and "p_snap_offset peer < m_snap_len s"
  defines "n \<equiv> min (unat (m_snap_len s) - unat (p_snap_offset peer)) SNAPSHOT_CHUNK"
  shows "unat (is_data_len (chunk_msg peer s)) = n"
    and "take n (is_data (chunk_msg peer s)) = take n (drop (unat (p_snap_offset peer)) (m_snap_buf s))"
    and "n \<le> length (is_data (chunk_msg peer s))"
    and "is_done (chunk_msg peer s) \<longleftrightarrow> unat (p_snap_offset peer) + n = unat (m_snap_len s)"
    and "unat (is_offset (chunk_msg peer s) + ucast (is_data_len (chunk_msg peer s))) = unat (p_snap_offset peer) + n"
proof -
  have le: "unat (p_snap_offset peer) < unat (m_snap_len s)" "unat (m_snap_len s) \<le> 512"
    using assms(1,2) by (simp_all add: word_less_nat_alt snap_ok_def SNAPSHOT_MAX_def)
  have d: "unat (m_snap_len s - p_snap_offset peer) = unat (m_snap_len s) - unat (p_snap_offset peer)"
    using le by (simp add: unat_sub_no_wrap)
  have n: "n \<le> 256"
    by (simp add: n_def SNAPSHOT_CHUNK_def)
  have c: "unat (of_nat n :: u16) = n"
    using n by (intro unat_of_nat_small) simp
  show len: "unat (is_data_len (chunk_msg peer s)) = n"
    using c by (simp add: chunk_msg_def Let_def d n_def)
  show sum: "unat (is_offset (chunk_msg peer s) + ucast (is_data_len (chunk_msg peer s))) = unat (p_snap_offset peer) + n"
    using len le n by (subst unat_add_no_wrap) (simp_all add: chunk_msg_def Let_def)
  have buf: "length (m_snap_buf s) = 512"
    using assms(1) by (simp add: snap_ok_def SNAPSHOT_MAX_def)
  have bytes: "length (take n (drop (unat (p_snap_offset peer)) (m_snap_buf s))) = n"
    using buf le by (simp add: n_def)
  have "is_data (chunk_msg peer s) =
      take n (drop (unat (p_snap_offset peer)) (m_snap_buf s)) @ replicate (SNAPSHOT_CHUNK - n) 0"
    using bytes c by (simp add: chunk_msg_def Let_def d n_def [symmetric])
  then show "take n (is_data (chunk_msg peer s)) = take n (drop (unat (p_snap_offset peer)) (m_snap_buf s))"
    "n \<le> length (is_data (chunk_msg peer s))"
    using bytes by simp_all
  have "is_done (chunk_msg peer s) \<longleftrightarrow>
      m_snap_len s \<le> is_offset (chunk_msg peer s) + ucast (is_data_len (chunk_msg peer s))"
    by (simp add: chunk_msg_def Let_def)
  also have "\<dots> \<longleftrightarrow> unat (p_snap_offset peer) + n = unat (m_snap_len s)"
    using sum le by (auto simp: word_le_nat_alt n_def)
  finally show "is_done (chunk_msg peer s) \<longleftrightarrow> unat (p_snap_offset peer) + n = unat (m_snap_len s)" .
qed

lemma take_splice:
  assumes "length xs = length ys" and "take a xs = take a ys" and "a + n \<le> length ys"
  shows "take (a + n) (take a xs @ take n (drop a ys) @ drop (a + n) xs) = take (a + n) ys"
  using assms by (simp add: take_add [symmetric] min_def)

text \<open>One chunk extends what the receiver holds by what the chunk carries, and stays in bounds.\<close>

lemma store_chunk_received:
  assumes "snap_ok s" and "snap_ok r" and "p_snap_offset peer < m_snap_len s"
    and "received (unat (p_snap_offset peer)) s r"
  defines "n \<equiv> min (unat (m_snap_len s) - unat (p_snap_offset peer)) SNAPSHOT_CHUNK"
  shows "received (unat (p_snap_offset peer) + n) s (store_chunk (chunk_msg peer s) r)"
    and "snap_ok (store_chunk (chunk_msg peer s) r)"
    and "io_fault (store_chunk (chunk_msg peer s) r) = io_fault r"
proof -
  let ?off = "unat (p_snap_offset peer)" and ?is = "chunk_msg peer s"
  note c = chunk_msg_fields [OF assms(1,3), folded n_def]
  have le: "?off < unat (m_snap_len s)" "unat (m_snap_len s) \<le> SNAPSHOT_MAX"
      "length (m_snap_buf s) = SNAPSHOT_MAX" "length (m_snap_buf r) = SNAPSHOT_MAX"
    using assms(1-3) by (simp_all add: word_less_nat_alt snap_ok_def)
  have bound: "?off + n \<le> SNAPSHOT_MAX" and pos: "0 < n"
    using le by (auto simp: n_def SNAPSHOT_CHUNK_def)
  have off: "is_offset ?is = p_snap_offset peer"
    by (simp add: chunk_msg_def Let_def)
  let ?buf = "take ?off (m_snap_buf r) @ take n (drop ?off (m_snap_buf s)) @ drop (?off + n) (m_snap_buf r)"
  have grow: "m_snap_len r < is_offset ?is + ucast (is_data_len ?is)"
    using assms(4) pos by (simp add: word_less_nat_alt c(5) received_def)
  have eq: "store_chunk ?is r =
      r\<lparr>m_snap_buf := ?buf, m_snap_len := is_offset ?is + ucast (is_data_len ?is)\<rparr>"
    using bound c grow le by (simp add: store_chunk_def Let_def off)
  have "take (?off + n) ?buf = take (?off + n) (m_snap_buf s)"
    using assms(4) le bound by (intro take_splice) (simp_all add: received_def)
  then show "received (?off + n) s (store_chunk ?is r)"
    unfolding eq received_def by (simp add: c(5))
  show "snap_ok (store_chunk ?is r)"
    unfolding eq snap_ok_def using le bound by (simp add: c(5) n_def)
  show "io_fault (store_chunk ?is r) = io_fault r"
    unfolding eq by simp
qed

text \<open>
  The exchange for one peer: the leader sends the chunk at the peer's offset, the follower stores
  it and answers, and the answer advances the offset, until the chunk marked as the last one.
\<close>

fun transfer :: "nat \<Rightarrow> Server \<Rightarrow> Peer \<Rightarrow> Server \<Rightarrow> Server option" where
  "transfer 0 s peer r = None"
| "transfer (Suc k) s peer r =
     (let is = chunk_msg peer s; r' = store_chunk is r
      in if is_done is then Some r'
         else transfer k s (peer\<lparr>p_snap_offset :=
                min (p_snap_offset peer + of_nat SNAPSHOT_CHUNK) (m_snap_len s)\<rparr>) r')"

lemma transfer_complete:
  assumes "snap_ok s" and "snap_ok r" and "p_snap_offset peer < m_snap_len s"
    and "received (unat (p_snap_offset peer)) s r"
    and "unat (m_snap_len s) - unat (p_snap_offset peer) \<le> k * SNAPSHOT_CHUNK"
  shows "\<exists>r'. transfer k s peer r = Some r' \<and> received (unat (m_snap_len s)) s r' \<and> io_fault r' = io_fault r"
  using assms
proof (induction k arbitrary: peer r)
  case 0
  then show ?case
    by (simp add: word_less_nat_alt)
next
  case (Suc k)
  let ?off = "p_snap_offset peer" and ?is = "chunk_msg peer s"
  define n where "n = min (unat (m_snap_len s) - unat ?off) SNAPSHOT_CHUNK"
  note c = chunk_msg_fields [OF Suc.prems(1,3), folded n_def]
  note st = store_chunk_received [OF Suc.prems(1-4), folded n_def]
  have lt: "unat ?off < unat (m_snap_len s)" "unat (m_snap_len s) \<le> 512"
    using Suc.prems(1,3) by (simp_all add: word_less_nat_alt snap_ok_def SNAPSHOT_MAX_def)
  show ?case
  proof (cases "is_done ?is")
    case True
    then show ?thesis
      using c(4) st by (simp add: Let_def)
  next
    case False
    then have n: "n = 256" and more: "unat ?off + 256 < unat (m_snap_len s)"
      using c(4) lt by (auto simp: n_def SNAPSHOT_CHUNK_def split: if_splits)
    define off' where "off' = min (?off + of_nat SNAPSHOT_CHUNK) (m_snap_len s)"
    have "unat (?off + of_nat SNAPSHOT_CHUNK) = unat ?off + 256"
      using lt by (subst unat_add_no_wrap) (simp_all add: SNAPSHOT_CHUNK_def)
    with more have off': "unat off' = unat ?off + 256"
      by (simp add: off'_def min_def word_le_nat_alt)
    have "\<exists>r'. transfer k s (peer\<lparr>p_snap_offset := off'\<rparr>) (store_chunk ?is r) = Some r' \<and>
        received (unat (m_snap_len s)) s r' \<and> io_fault r' = io_fault (store_chunk ?is r)"
      using Suc.prems(1,5) st(1,2) more off' n
      by (intro Suc.IH) (simp_all add: word_less_nat_alt SNAPSHOT_CHUNK_def)
    with False st(3) show ?thesis
      by (simp add: Let_def off'_def)
  qed
qed


definition demo_snap :: "u32 \<Rightarrow> u8 \<Rightarrow> Server" where
  "demo_snap len b = demo_voter\<lparr>m_snap_buf := replicate SNAPSHOT_MAX b, m_snap_len := len\<rparr>"


section \<open>Where the contracts end\<close>

text \<open>
  The checks the code does not make. A follower whose ring is full drops the new entries but
  still takes over the leader's commit index, past the end of its log; the loop that applies
  entries then counts the missing ones as applied.
\<close>

lemma merge_logs_full:
  assumes "log_ok r" and "full r" and "unat (last_index r) < unat idx" and "unat idx + length es < 2 ^ 64"
  shows "merge_logs idx es r = r"
  using assms(3,4)
proof (induction es arbitrary: idx)
  case (Cons e es)
  have wf: "wf_ring r"
    using assms(1) by (simp add: log_ok_def)
  then have "\<not> idx \<le> lr_base r" "\<not> idx \<le> last_index r"
    using Cons.prems(1) by (simp_all add: word_le_nat_alt unat_last_index)
  then have "merge_log idx e r = r"
    using assms(2) by (simp add: merge_log_def push_full)
  moreover have "unat (idx + 1) = unat idx + 1"
    using Cons.prems(2) by (subst unat_add_no_wrap) simp_all
  ultimately show ?case
    using Cons by simp
qed simp

theorem full_ring_commit_overruns:
  assumes "server_inv s" and "full (m_log s)" and "ae_prev_log_index ae = last_index (m_log s)"
    and "payload_ok (PAppendEntries ae)" and "0 < unat (ae_n_entries ae)"
    and "m_commit_index s \<le> last_index (m_log s)" and "last_index (m_log s) < ae_leader_commit ae"
  shows "last_index (m_log s) < m_commit_index (accept_entries ae s)"
    and "m_last_applied (accept_entries ae s) = m_commit_index (accept_entries ae s)"
proof -
  let ?prev = "ae_prev_log_index ae"
  let ?s1 = "merge_entries (?prev + 1) (view ae) s"
  have ok: "log_ok (m_log s)" and cur: "m_last_applied s \<le> m_commit_index s"
    using assms(1) by (simp_all add: server_inv_def)
  have vok: "view_ok ae" and b: "unat ?prev + unat (ae_n_entries ae) + 2 < 2 ^ 64"
    using assms(4) by simp_all
  have p1: "unat (?prev + 1) = unat ?prev + 1"
    using b by (subst unat_add_no_wrap) simp_all
  have "lview ?s1 = lview (s\<lparr>m_log := merge_logs (?prev + 1) (view ae) (m_log s)\<rparr>)"
    using ok b p1 assms(3) length_view [OF vok] by (intro merge_entries_lview) (simp_all add: no_gap_def)
  moreover have "merge_logs (?prev + 1) (view ae) (m_log s) = m_log s"
    using ok assms(2,3) b p1 length_view [OF vok] by (intro merge_logs_full) simp_all
  ultimately have "lview ?s1 = lview s"
    by simp
  note f = lview_eqD [OF this]
  let ?last_new = "?prev + ucast (ae_n_entries ae)"
  have u: "unat (ucast (ae_n_entries ae) :: Index) = unat (ae_n_entries ae)"
    by (simp add: unsigned_ucast_eq take_bit_nat_eq_self order_less_trans [OF unat_lt_16])
  have last_new: "unat ?last_new = unat ?prev + unat (ae_n_entries ae)"
    using b u by (subst unat_add_no_wrap) simp_all
  have gt: "last_index (m_log s) < min (ae_leader_commit ae) ?last_new"
    using assms(3,5,7) last_new by (simp add: word_less_nat_alt)
  have lt: "m_commit_index s < ae_leader_commit ae"
    using assms(6,7) by (rule le_less_trans)
  define c where "c = max (min (ae_leader_commit ae) ?last_new) (m_commit_index s)"
  have eq: "accept_entries ae s =
      apply_committed (emit (ae_reply (ae_leader_id ae) True 0 0 (?s1\<lparr>m_commit_index := c\<rparr>))
        (?s1\<lparr>m_commit_index := c\<rparr>))"
    using vok lt by (simp add: accept_entries_def Let_def f c_def)
  have e: "m_commit_index (emit m t) = m_commit_index t" "m_last_applied (emit m t) = m_last_applied t" for m t
    by (simp_all add: emit_def call_if_def record_event_def)
  have "last_index (m_log s) < c" "m_last_applied s \<le> c"
    unfolding c_def using gt cur by (meson less_le_trans max.cobounded1, meson max.cobounded2 order_trans)
  then show "last_index (m_log s) < m_commit_index (accept_entries ae s)"
    "m_last_applied (accept_entries ae s) = m_commit_index (accept_entries ae s)"
    unfolding eq by (simp_all add: apply_committed_cursors e f)
qed

text \<open>
  A node that becomes leader with a full ring cannot append its no-op entry and refuses every
  command.
\<close>

theorem full_ring_leader_refuses:
  assumes "full (m_log s)" and "length data \<le> MAX_ENTRY_DATA" and "m_running s"
  shows "m_log (become_leader s) = m_log s" and "fst (submit type data (become_leader s)) = Inl LOG_FULL"
proof -
  show log: "m_log (become_leader s) = m_log s"
    using become_leader_lview [of s] assms(1) by (auto simp: push_full lview_def)
  have run: "m_running (set_state st t) = m_running t" "m_running (upd_all_nodes f t) = m_running t"
      "m_running (upd_self f t) = m_running t" "m_running (call_if b ev t) = m_running t"
      "m_running (now_called t) = m_running t" for st t f b ev
    by (simp_all add: set_state_def Let_def call_if_def record_event_def upd_all_nodes_def upd_self_def
        upd_node_def now_called_def split: option.split)
  have "m_running (become_leader s)"
    using assms(3) by (simp add: become_leader_def Let_def run split: prod.split)
  then show "fst (submit type data (become_leader s)) = Inl LOG_FULL"
    using log assms(1,2) become_leader_view(1) [of s] by (simp add: submit_def)
qed

text \<open>
  A snapshot that claims to end at index 0 matches the sentinel term of that index and makes the
  ring count entries it does not hold.
\<close>

theorem snapshot_at_zero_overfills:
  "LOG_CAPACITY < unat (lr_count (install_log
     \<lparr>is_term = 1, is_leader_id = 1, is_last_included_index = 0, is_last_included_term = 0, is_offset = 0,
      is_total_len = 0, is_data_len = 0, is_done = True, is_data = []\<rparr> (reset_to_snapshot 100 1 new_ring)))"
  by (simp add: install_log_def Let_def term_at_def compact_to_def reset_to_snapshot_def last_index_def LOG_CAPACITY_def)

end
