(* ===== verification/Slot_Table.thy ===== *)
theory Slot_Table
  imports Flood_Prelude
begin

text \<open>
  The fixed-size tables of the firmware share one discipline: look a key up by scanning the
  array; if it is not there, take a free element and enter the key; if there is none, fail. The
  voting slots, the reputation table, the replay table and the peer tables are all of this kind.
  \<open>slot_table\<close> states the discipline, and what clients rely on is proved from it once.
\<close>

locale slot_table =
  fixes lookup :: "'k \<Rightarrow> 't \<Rightarrow> nat option"
    and claim :: "'k \<Rightarrow> 't \<Rightarrow> (nat \<times> 't) option"
    and invar :: "'t \<Rightarrow> bool"
    and cap :: nat
  assumes claim_found: "invar t \<Longrightarrow> lookup k t = Some i \<Longrightarrow> claim k t = Some (i, t)"
    and claim_new: "invar t \<Longrightarrow> claim k t = Some (i, t') \<Longrightarrow> invar t' \<and> lookup k t' = Some i"
    and claim_other: "invar t \<Longrightarrow> claim k t = Some (i, t') \<Longrightarrow> k' \<noteq> k \<Longrightarrow> lookup k' t' = lookup k' t"
    and lookup_inj: "invar t \<Longrightarrow> lookup k t = Some i \<Longrightarrow> lookup k' t = Some i \<Longrightarrow> k = k'"
    and lookup_bound: "invar t \<Longrightarrow> lookup k t = Some i \<Longrightarrow> i < cap"
begin

text \<open>Claims of a sequence of keys, skipping those the table has no room for.\<close>

fun claim_all :: "'k list \<Rightarrow> 't \<Rightarrow> 't" where
  "claim_all [] t = t"
| "claim_all (k # ks) t = (case claim k t of None \<Rightarrow> claim_all ks t | Some (i, t') \<Rightarrow> claim_all ks t')"

lemma claim_again:
  assumes "invar t" and "claim k t = Some (i, t')"
  shows "claim k t' = Some (i, t')"
  using claim_new [OF assms] claim_found by blast

lemma claim_keeps:
  assumes "invar t" and "lookup k t = Some i" and "claim k' t = Some (j, t')"
  shows "lookup k t' = Some i"
  using assms claim_found [OF assms(1)] claim_other [OF assms(1,3)] by (cases "k = k'") auto

text \<open>A key keeps its place for ever, whatever is claimed later.\<close>

lemma claim_all_keeps:
  assumes "invar t" and "lookup k t = Some i"
  shows "invar (claim_all ks t) \<and> lookup k (claim_all ks t) = Some i"
  using assms
proof (induction ks arbitrary: t)
  case (Cons k' ks)
  show ?case
  proof (cases "claim k' t")
    case (Some p)
    then obtain j t' where p: "claim k' t = Some (j, t')"
      by (cases p) auto
    have "invar t'" "lookup k t' = Some i"
      using claim_new [OF Cons.prems(1) p] claim_keeps [OF Cons.prems p] by simp_all
    with Cons.IH p show ?thesis
      by simp
  qed (use Cons in simp)
qed simp

text \<open>Two keys never share a place.\<close>

lemma claims_apart:
  assumes "invar t" and "claim k t = Some (i, t')" and "claim k' t' = Some (j, t'')" and "k \<noteq> k'"
  shows "i \<noteq> j"
proof
  assume "i = j"
  have t': "invar t'" "lookup k t' = Some i"
    using claim_new [OF assms(1,2)] by simp_all
  have "invar t''" "lookup k' t'' = Some j"
    using claim_new [OF t'(1) assms(3)] by simp_all
  moreover have "lookup k t'' = Some i"
    using claim_keeps [OF t' assms(3)] .
  ultimately show False
    using lookup_inj \<open>i = j\<close> assms(4) by blast
qed

text \<open>The table serves at most as many keys as it has places.\<close>

lemma keys_bounded:
  assumes "invar t" and "finite K" and "\<forall>k \<in> K. lookup k t \<noteq> None"
  shows "card K \<le> cap"
proof -
  have "inj_on (\<lambda>k. the (lookup k t)) K"
  proof (rule inj_onI)
    fix k k'
    assume "k \<in> K" "k' \<in> K" and eq: "the (lookup k t) = the (lookup k' t)"
    then obtain i j where "lookup k t = Some i" "lookup k' t = Some j"
      using assms(3) by blast
    with eq show "k = k'"
      using lookup_inj [OF assms(1)] by simp
  qed
  moreover have "(\<lambda>k. the (lookup k t)) ` K \<subseteq> {..<cap}"
    using assms lookup_bound by fastforce
  ultimately show ?thesis
    by (metis card_inj_on_le card_lessThan finite_lessThan)
qed

end

section \<open>Tables that grow from the front\<close>

text \<open>
  The common implementation: an array whose used elements are a prefix. \<open>used\<close> marks an element
  in use, \<open>key\<close> reads its key and \<open>fresh\<close> makes a new one.
\<close>

definition table_find :: "('e \<Rightarrow> bool) \<Rightarrow> ('e \<Rightarrow> 'k) \<Rightarrow> 'k \<Rightarrow> 'e list \<Rightarrow> nat option" where
  "table_find used key k es = find_index (\<lambda>e. used e \<and> key e = k) es"

definition table_claim :: "('e \<Rightarrow> bool) \<Rightarrow> ('e \<Rightarrow> 'k) \<Rightarrow> ('k \<Rightarrow> 'e) \<Rightarrow> 'k \<Rightarrow> 'e list \<Rightarrow> (nat \<times> 'e list) option" where
  "table_claim used key fresh k es =
     (case table_find used key k es of
        Some i \<Rightarrow> Some (i, es)
      | None \<Rightarrow>
          (case find_index (\<lambda>e. \<not> used e) es of
             Some i \<Rightarrow> Some (i, es[i := fresh k])
           | None \<Rightarrow> None))"

definition table_ok :: "('e \<Rightarrow> bool) \<Rightarrow> ('e \<Rightarrow> 'k) \<Rightarrow> nat \<Rightarrow> 'e list \<Rightarrow> bool" where
  "table_ok used key n es \<longleftrightarrow> length es = n \<and> distinct (map key (filter used es))"

lemma table_ok_inj:
  assumes "table_ok used key n es" and "i < n" "j < n" and "used (es ! i)" "used (es ! j)"
    and "key (es ! i) = key (es ! j)"
  shows "i = j"
proof -
  have "distinct (map key (filter used es)) \<Longrightarrow> i < length es \<Longrightarrow> j < length es \<Longrightarrow> used (es ! i) \<Longrightarrow>
      used (es ! j) \<Longrightarrow> key (es ! i) = key (es ! j) \<Longrightarrow> i = j" for i j
  proof (induction es arbitrary: i j)
    case (Cons e es)
    have mem: "used e \<Longrightarrow> k < length es \<Longrightarrow> used (es ! k) \<Longrightarrow> key (es ! k) \<noteq> key e" for k
      using Cons.prems(1) by (auto simp: image_iff)
    have "distinct (map key (filter used es))"
      using Cons.prems(1) by (simp split: if_splits)
    with Cons mem show ?case
      by (cases i; cases j) force+
  qed simp
  then show ?thesis
    using assms by (simp add: table_ok_def)
qed

lemma table_okI:
  assumes "length es = n"
    and "\<And>i j. i < n \<Longrightarrow> j < n \<Longrightarrow> used (es ! i) \<Longrightarrow> used (es ! j) \<Longrightarrow> key (es ! i) = key (es ! j) \<Longrightarrow> i = j"
  shows "table_ok used key n es"
proof -
  have "(\<And>i j. i < length es \<Longrightarrow> j < length es \<Longrightarrow> used (es ! i) \<Longrightarrow> used (es ! j) \<Longrightarrow> key (es ! i) = key (es ! j) \<Longrightarrow> i = j)
      \<Longrightarrow> distinct (map key (filter used es))"
  proof (induction es)
    case (Cons e es)
    have "distinct (map key (filter used es))"
      using Cons.IH Cons.prems [of "Suc i" "Suc j" for i j] by force
    moreover have "key e \<notin> key ` set (filter used es)" if "used e"
      using Cons.prems [of 0 "Suc j" for j] that by (force simp: in_set_conv_nth)
    ultimately show ?case
      by simp
  qed simp
  then show ?thesis
    using assms by (simp add: table_ok_def)
qed

lemma table_find_Some_iff:
  assumes "table_ok used key n es"
  shows "table_find used key k es = Some i \<longleftrightarrow> i < n \<and> used (es ! i) \<and> key (es ! i) = k"
proof -
  have len: "length es = n"
    using assms by (simp add: table_ok_def)
  have "\<not> (used (es ! j) \<and> key (es ! j) = k)" if "j < i" "i < n" "used (es ! i)" "key (es ! i) = k" for j
    using table_ok_inj [OF assms, of j i] that by auto
  with len show ?thesis
    by (auto simp: table_find_def find_index_Some_iff)
qed

text \<open>Writing a used element, over the one that has its key or in a free place if there is none.\<close>

lemma table_enter:
  assumes ok: "table_ok used key n es" and i: "i < n" and v: "used v"
    and at: "used (es ! i) \<and> key (es ! i) = key v \<or> \<not> used (es ! i) \<and> table_find used key (key v) es = None"
  shows "table_ok used key n (es[i := v])"
    and "(\<lambda>k. table_find used key k (es[i := v])) = (\<lambda>k. table_find used key k es)(key v \<mapsto> i)"
proof -
  have len: "length es = n"
    using ok by (simp add: table_ok_def)
  have only: "j = i" if "j < n" "used (es ! j)" "key (es ! j) = key v" for j
    using at that i len table_ok_inj [OF ok that(1) i that(2)]
    by (auto simp: table_find_def find_index_None_iff)
  show ok': "table_ok used key n (es[i := v])"
  proof (rule table_okI)
    fix j k
    assume "j < n" "k < n" "used (es[i := v] ! j)" "used (es[i := v] ! k)" "key (es[i := v] ! j) = key (es[i := v] ! k)"
    then show "j = k"
      using len i only table_ok_inj [OF ok, of j k] by (metis nth_list_update_eq nth_list_update_neq)
  qed (simp add: len)
  show "(\<lambda>k. table_find used key k (es[i := v])) = (\<lambda>k. table_find used key k es)(key v \<mapsto> i)"
  proof
    fix k
    show "table_find used key k (es[i := v]) = ((\<lambda>k. table_find used key k es)(key v \<mapsto> i)) k"
    proof (cases "k = key v")
      case True
      then have "table_find used key k (es[i := v]) = Some i"
        using table_find_Some_iff [OF ok'] len i v by simp
      with True show ?thesis
        by simp
    next
      case False
      have "used (es[i := v] ! j) \<and> key (es[i := v] ! j) = k \<longleftrightarrow> used (es ! j) \<and> key (es ! j) = k" if "j < n" for j
        using False at that len by (cases "j = i") auto
      then have "table_find used key k (es[i := v]) = Some j \<longleftrightarrow> table_find used key k es = Some j" for j
        using table_find_Some_iff [OF ok] table_find_Some_iff [OF ok'] by blast
      with False show ?thesis
        by (metis fun_upd_other not_Some_eq)
    qed
  qed
qed

lemma filter_update_free:
  assumes "i < length es" and "\<not> used (es ! i)" and "used v"
  shows "mset (filter used (es[i := v])) = add_mset v (mset (filter used es))"
proof -
  have "es = take i es @ es ! i # drop (Suc i) es"
    using assms(1) by (rule id_take_nth_drop)
  then have "filter used es = filter used (take i es) @ filter used (drop (Suc i) es)"
    using assms(2) by (metis filter.simps(2) filter_append)
  moreover have "filter used (es[i := v]) = filter used (take i es) @ v # filter used (drop (Suc i) es)"
    using assms(1,3) by (simp add: upd_conv_take_nth_drop)
  ultimately show ?thesis
    by simp
qed

locale front_table =
  fixes used :: "'e \<Rightarrow> bool" and key :: "'e \<Rightarrow> 'k" and fresh :: "'k \<Rightarrow> 'e" and size :: nat
  assumes used_fresh: "used (fresh k)" and key_fresh: "key (fresh k) = k"
begin

abbreviation find where "find \<equiv> table_find used key"
abbreviation take_place where "take_place \<equiv> table_claim used key fresh"
abbreviation ok where "ok \<equiv> table_ok used key size"

lemma find_Some_iff:
  "ok es \<Longrightarrow> find k es = Some i \<longleftrightarrow> i < size \<and> used (es ! i) \<and> key (es ! i) = k"
  by (rule table_find_Some_iff)

lemma ok_update:
  assumes "ok es" and "find k es = None" and "i < size" and "\<not> used (es ! i)"
  shows "ok (es[i := fresh k])"
proof -
  have len: "length es = size" and d: "distinct (map key (filter used es))"
    using assms(1) by (simp_all add: table_ok_def)
  have m: "mset (filter used (es[i := fresh k])) = add_mset (fresh k) (mset (filter used es))"
    using filter_update_free [of i es used "fresh k"] assms(3,4) len used_fresh by simp
  then have "mset (map key (filter used (es[i := fresh k]))) = mset (key (fresh k) # map key (filter used es))"
    by simp
  moreover have "key (fresh k) \<notin> set (map key (filter used es))"
    using assms(2) key_fresh by (auto simp: table_find_def find_index_None_iff)
  ultimately show ?thesis
    using d len by (metis distinct.simps(2) length_list_update mset_eq_imp_distinct_iff table_ok_def)
qed

end

sublocale front_table \<subseteq> slot_table "table_find used key" "table_claim used key fresh" "table_ok used key size" size
proof
  fix es :: "'e list" and k k' :: 'k and i
  assume ok: "ok es"
  show "find k es = Some i \<Longrightarrow> take_place k es = Some (i, es)"
    by (simp add: table_claim_def)
  show "find k es = Some i \<Longrightarrow> find k' es = Some i \<Longrightarrow> k = k'"
    using find_Some_iff [OF ok] by simp
  show "find k es = Some i \<Longrightarrow> i < size"
    using find_Some_iff [OF ok] by simp
  fix es'
  assume c: "take_place k es = Some (i, es')"
  have len: "length es = size"
    using ok by (simp add: table_ok_def)
  have split: "find k es = Some i \<and> es' = es \<or>
      find k es = None \<and> i < size \<and> \<not> used (es ! i) \<and> es' = es[i := fresh k]"
    using c len by (auto simp: table_claim_def find_index_Some_iff split: option.splits)
  then have ok': "ok es'"
    using ok ok_update by auto
  have "find k es' = Some i"
    using split len used_fresh key_fresh find_Some_iff [OF ok] by (auto simp: find_Some_iff [OF ok'])
  with ok' show "ok es' \<and> find k es' = Some i"
    by simp
  assume "k' \<noteq> k"
  show "find k' es' = find k' es"
  proof -
    have "find k' es' = Some j \<longleftrightarrow> find k' es = Some j" for j
      using split len used_fresh key_fresh \<open>k' \<noteq> k\<close>
      by (auto simp: find_Some_iff [OF ok] find_Some_iff [OF ok'] nth_list_update split: if_splits)
    then show ?thesis
      by (metis not_Some_eq)
  qed
qed

end
