(* ===== verification/Trusted_Devices.thy ===== *)
theory Trusted_Devices
  imports Slot_Table
begin

text \<open>
  The key store of every node, \<^verbatim>\<open>common/security/trusted_device_store.hpp\<close>: the node's own
  signing key, derived from its identity, and a table of the public keys of trusted peers. The
  PSA crypto services and the hardware identity are not part of the firmware; they are the fields
  of a record of functions, over an abstract key storage of type \<open>'k\<close>.
\<close>

type_synonym psa_status = int
type_synonym key_id = u32
type_synonym bytes = "u8 list"

definition PSA_SUCCESS :: psa_status where "PSA_SUCCESS = 0"
definition PSA_ERROR_INVALID_HANDLE :: psa_status where "PSA_ERROR_INVALID_HANDLE = - 136"
definition PSA_ERROR_INSUFFICIENT_MEMORY :: psa_status where "PSA_ERROR_INSUFFICIENT_MEMORY = - 141"
definition PSA_ERROR_HARDWARE_FAILURE :: psa_status where "PSA_ERROR_HARDWARE_FAILURE = - 147"

datatype kd_step = KD_SALT | KD_SECRET | KD_INFO
datatype key_type = Key_Pair | Public_Key

record 'k Psa =
  psa_import_key :: "key_type \<Rightarrow> bytes \<Rightarrow> 'k \<Rightarrow> psa_status \<times> key_id \<times> 'k"
  psa_export_public_key :: "'k \<Rightarrow> key_id \<Rightarrow> psa_status \<times> bytes"
  psa_sign_hash :: "'k \<Rightarrow> key_id \<Rightarrow> bytes \<Rightarrow> psa_status \<times> bytes"
  psa_verify_hash :: "'k \<Rightarrow> key_id \<Rightarrow> bytes \<Rightarrow> bytes \<Rightarrow> psa_status"
  psa_hash_setup :: psa_status
  psa_hash_update :: "bytes \<Rightarrow> psa_status"
  psa_hash_finish :: "bytes \<Rightarrow> psa_status \<times> bytes"
  psa_kd_setup :: psa_status
  psa_kd_input :: "kd_step \<Rightarrow> bytes \<Rightarrow> psa_status"
  psa_kd_output :: "bytes \<Rightarrow> bytes \<Rightarrow> bytes \<Rightarrow> psa_status \<times> bytes"
  hwinfo_get_device_id :: "bytes option"

definition MAX_PEERS :: nat where [config_defs]: "MAX_PEERS = 8"

text \<open>The characters of the label \<open>flood-ews-sign-v1\<close>.\<close>

definition DEVICE_LABEL :: bytes where
  "DEVICE_LABEL = [102, 108, 111, 111, 100, 45, 101, 119, 115, 45, 115, 105, 103, 110, 45, 118, 49]"

record TrustedDevice =
  dev_eui :: u64
  dev_pub_key :: bytes

record TrustedPeer =
  tp_eui :: u64
  tp_pubkey_id :: key_id
  tp_in_use :: bool

record TrustedDeviceStore =
  td_my_key_id :: key_id
  td_peers :: "TrustedPeer list"

definition no_peer :: TrustedPeer where
  "no_peer = \<lparr>tp_eui = 0, tp_pubkey_id = 0, tp_in_use = False\<rparr>"

definition new_store :: TrustedDeviceStore where
  "new_store = \<lparr>td_my_key_id = 0, td_peers = replicate MAX_PEERS no_peer\<rparr>"

section \<open>Operations\<close>

definition compute_digest :: "'k Psa \<Rightarrow> bytes \<Rightarrow> psa_status \<times> bytes" where
  "compute_digest psa rpc_bytes =
     (if psa_hash_setup psa \<noteq> PSA_SUCCESS then (psa_hash_setup psa, [])
      else if psa_hash_update psa rpc_bytes \<noteq> PSA_SUCCESS then (psa_hash_update psa rpc_bytes, [])
      else psa_hash_finish psa rpc_bytes)"

definition eui_bytes :: "u64 \<Rightarrow> bytes" where
  "eui_bytes eui = map (\<lambda>i. ucast (drop_bit (8 * i) eui)) [0..<8]"

text \<open>The build without \<open>CONFIG_SECURE_SIGN\<close>: the hardware identity is the secret input.\<close>

definition derive_identity_seed :: "'k Psa \<Rightarrow> u64 \<Rightarrow> psa_status + bytes" where
  "derive_identity_seed psa eui =
     (if psa_kd_setup psa \<noteq> PSA_SUCCESS then Inl (psa_kd_setup psa)
      else let status = psa_kd_input psa KD_SALT DEVICE_LABEL in
      if status \<noteq> PSA_SUCCESS then Inl status
      else case hwinfo_get_device_id psa of
        None \<Rightarrow> Inl PSA_ERROR_HARDWARE_FAILURE
      | Some hw_id \<Rightarrow>
          let status = psa_kd_input psa KD_SECRET hw_id in
          if status \<noteq> PSA_SUCCESS then Inl status
          else let status = psa_kd_input psa KD_INFO (eui_bytes eui) in
          if status \<noteq> PSA_SUCCESS then Inl status
          else let (status, seed_out) = psa_kd_output psa DEVICE_LABEL hw_id (eui_bytes eui) in
          if status \<noteq> PSA_SUCCESS then Inl status else Inr seed_out)"

definition store_init :: "'k Psa \<Rightarrow> u64 \<Rightarrow> 'k \<Rightarrow> TrustedDeviceStore \<Rightarrow> psa_status \<times> 'k \<times> TrustedDeviceStore" where
  "store_init psa eui ks s =
     (case derive_identity_seed psa eui of
        Inl e \<Rightarrow> (e, ks, s)
      | Inr seed \<Rightarrow>
          let (status, key, ks) = psa_import_key psa Key_Pair seed ks in (status, ks, s\<lparr>td_my_key_id := key\<rparr>))"

definition export_pubkey :: "'k Psa \<Rightarrow> 'k \<Rightarrow> TrustedDeviceStore \<Rightarrow> psa_status + bytes" where
  "export_pubkey psa ks s =
     (let (err, out) = psa_export_public_key psa ks (td_my_key_id s) in
      if err \<noteq> PSA_SUCCESS then Inl err else Inr out)"

definition trust_peer :: "'k Psa \<Rightarrow> u64 \<Rightarrow> bytes \<Rightarrow> 'k \<Rightarrow> TrustedDeviceStore \<Rightarrow> psa_status \<times> 'k \<times> TrustedDeviceStore" where
  "trust_peer psa eui pub_key ks s =
     (let (status, key, ks) = psa_import_key psa Public_Key pub_key ks in
      if status \<noteq> PSA_SUCCESS then (status, ks, s)
      else case find_index (\<lambda>p. \<not> tp_in_use p) (td_peers s) of
             Some i \<Rightarrow> (PSA_SUCCESS, ks, s\<lparr>td_peers := (td_peers s)[i := \<lparr>tp_eui = eui, tp_pubkey_id = key, tp_in_use = True\<rparr>]\<rparr>)
           | None \<Rightarrow> (PSA_ERROR_INSUFFICIENT_MEMORY, ks, s))"

fun trust_peers :: "'k Psa \<Rightarrow> TrustedDevice list \<Rightarrow> 'k \<Rightarrow> TrustedDeviceStore \<Rightarrow> psa_status \<times> 'k \<times> TrustedDeviceStore" where
  "trust_peers psa [] ks s = (PSA_SUCCESS, ks, s)"
| "trust_peers psa (dev # devices) ks s =
     (let (status, ks, s) = trust_peer psa (dev_eui dev) (dev_pub_key dev) ks s in
      if status \<noteq> PSA_SUCCESS then (status, ks, s) else trust_peers psa devices ks s)"

definition find_peer :: "u64 \<Rightarrow> TrustedDeviceStore \<Rightarrow> nat option" where
  "find_peer eui s = find_index (\<lambda>p. tp_in_use p \<and> tp_eui p = eui) (td_peers s)"

definition sign :: "'k Psa \<Rightarrow> 'k \<Rightarrow> TrustedDeviceStore \<Rightarrow> bytes \<Rightarrow> psa_status + bytes" where
  "sign psa ks s rpc_bytes =
     (let (status, digest) = compute_digest psa rpc_bytes in
      if status \<noteq> PSA_SUCCESS then Inl status
      else let (status, sig_out) = psa_sign_hash psa ks (td_my_key_id s) digest in
      if status \<noteq> PSA_SUCCESS then Inl status else Inr sig_out)"

definition verify :: "'k Psa \<Rightarrow> 'k \<Rightarrow> TrustedDeviceStore \<Rightarrow> u64 \<Rightarrow> bytes \<Rightarrow> bytes \<Rightarrow> psa_status" where
  "verify psa ks s sender_eui rpc_bytes sig =
     (case find_peer sender_eui s of
        None \<Rightarrow> PSA_ERROR_INVALID_HANDLE
      | Some i \<Rightarrow>
          let (status, digest) = compute_digest psa rpc_bytes in
          if status \<noteq> PSA_SUCCESS then status
          else psa_verify_hash psa ks (tp_pubkey_id (td_peers s ! i)) digest sig)"

section \<open>The peer table\<close>

definition peer_entry :: "u64 \<Rightarrow> TrustedPeer" where
  "peer_entry eui = \<lparr>tp_eui = eui, tp_pubkey_id = 0, tp_in_use = True\<rparr>"

interpretation peers: front_table tp_in_use tp_eui peer_entry MAX_PEERS
  by unfold_locales (simp_all add: peer_entry_def)

definition peers_ok :: "TrustedDeviceStore \<Rightarrow> bool" where
  "peers_ok s \<longleftrightarrow> table_ok tp_in_use tp_eui MAX_PEERS (td_peers s)"

definition trusted :: "TrustedDeviceStore \<Rightarrow> u64 set" where
  "trusted s = tp_eui ` set (filter tp_in_use (td_peers s))"

lemma find_peer_table: "find_peer eui s = table_find tp_in_use tp_eui eui (td_peers s)"
  by (simp add: find_peer_def table_find_def)

lemma find_peer_None_iff: "find_peer eui s = None \<longleftrightarrow> eui \<notin> trusted s"
  by (auto simp: find_peer_def find_index_None_iff trusted_def)

lemma card_trusted: "peers_ok s \<Longrightarrow> card (trusted s) = length (filter tp_in_use (td_peers s))"
  using distinct_card [of "map tp_eui (filter tp_in_use (td_peers s))"] by (simp add: peers_ok_def table_ok_def trusted_def)

lemma new_store_ok: "peers_ok new_store" "trusted new_store = {}"
  by (simp_all add: peers_ok_def table_ok_def new_store_def no_peer_def trusted_def)

text \<open>The key identifier a sender's messages are checked with.\<close>

definition peer_key :: "TrustedDeviceStore \<Rightarrow> u64 \<rightharpoonup> key_id" where
  "peer_key s eui = map_option (\<lambda>i. tp_pubkey_id (td_peers s ! i)) (find_peer eui s)"

lemma dom_peer_key: "dom (peer_key s) = trusted s"
  using find_peer_None_iff by (auto simp: peer_key_def dom_def)

lemma trust_peer_success:
  assumes ok: "peers_ok s" and new: "eui \<notin> trusted s"
    and success: "trust_peer psa eui pk ks s = (PSA_SUCCESS, ks', s')"
  obtains key where "psa_import_key psa Public_Key pk ks = (PSA_SUCCESS, key, ks')" and "peers_ok s'"
    and "peer_key s' = (peer_key s)(eui \<mapsto> key)"
proof -
  obtain key i where key: "psa_import_key psa Public_Key pk ks = (PSA_SUCCESS, key, ks')"
    and i: "find_index (\<lambda>p. \<not> tp_in_use p) (td_peers s) = Some i"
    and s': "s' = s\<lparr>td_peers := (td_peers s)[i := \<lparr>tp_eui = eui, tp_pubkey_id = key, tp_in_use = True\<rparr>]\<rparr>"
    using success by (auto simp: trust_peer_def PSA_SUCCESS_def PSA_ERROR_INSUFFICIENT_MEMORY_def split: prod.splits if_splits option.splits)
  let ?e = "\<lparr>tp_eui = eui, tp_pubkey_id = key, tp_in_use = True\<rparr>"
  have tab: "table_ok tp_in_use tp_eui MAX_PEERS (td_peers s)" and len: "length (td_peers s) = MAX_PEERS"
    using ok by (simp_all add: peers_ok_def table_ok_def)
  have at: "i < MAX_PEERS" "\<not> tp_in_use (td_peers s ! i)"
    using find_index_SomeD [OF i] len by simp_all
  have absent: "table_find tp_in_use tp_eui eui (td_peers s) = None"
    using new find_peer_None_iff [of eui s] by (simp add: find_peer_table)
  have enter: "peers_ok s'" "(\<lambda>k. find_peer k s') = (\<lambda>k. find_peer k s)(eui \<mapsto> i)"
    using table_enter [OF tab at(1), of ?e] at absent by (simp_all add: s' peers_ok_def find_peer_table)
  have "(td_peers s)[i := ?e] ! j = td_peers s ! j" if "find_peer k s = Some j" for k j
    using that at table_find_Some_iff [OF tab, of k j] by (cases "j = i") (auto simp: find_peer_table)
  then have "peer_key s' = (peer_key s)(eui \<mapsto> key)"
    using fun_cong [OF enter(2)] at len
    by (intro ext) (auto simp: peer_key_def s' intro!: option.map_cong0)
  with that key enter(1) show ?thesis
    by blast
qed

text \<open>
  What the key store relies on of PSA, stated over an abstraction \<open>key_of\<close> of its key storage:
  an import that succeeds creates a key and keeps the others; the export of a key pair is its
  public half \<open>pub\<close>; a signature made with a key pair verifies under its public half.
\<close>

definition psa_keeps_keys :: "'k Psa \<Rightarrow> ('k \<Rightarrow> key_id \<rightharpoonup> key_type \<times> bytes) \<Rightarrow> bool" where
  "psa_keeps_keys psa key_of \<longleftrightarrow>
     (\<forall>kind key ks k ks'. psa_import_key psa kind key ks = (PSA_SUCCESS, k, ks') \<longrightarrow>
        key_of ks' k = Some (kind, key) \<and> key_of ks \<subseteq>\<^sub>m key_of ks')"

definition psa_signs :: "'k Psa \<Rightarrow> ('k \<Rightarrow> key_id \<rightharpoonup> key_type \<times> bytes) \<Rightarrow> (bytes \<Rightarrow> bytes) \<Rightarrow> bool" where
  "psa_signs psa key_of pub \<longleftrightarrow>
     (\<forall>ks k seed d sig ks' k'. key_of ks k = Some (Key_Pair, seed) \<and> psa_sign_hash psa ks k d = (PSA_SUCCESS, sig) \<and>
        key_of ks' k' = Some (Public_Key, pub seed) \<longrightarrow> psa_verify_hash psa ks' k' d sig = PSA_SUCCESS) \<and>
     (\<forall>ks k seed pk. key_of ks k = Some (Key_Pair, seed) \<and> psa_export_public_key psa ks k = (PSA_SUCCESS, pk) \<longrightarrow>
        pk = pub seed)"

text \<open>The keys behind the peer table.\<close>

definition trusted_keys :: "('k \<Rightarrow> key_id \<rightharpoonup> key_type \<times> bytes) \<Rightarrow> 'k \<Rightarrow> TrustedDeviceStore \<Rightarrow> u64 \<rightharpoonup> key_type \<times> bytes" where
  "trusted_keys key_of ks s eui = Option.bind (peer_key s eui) (key_of ks)"

lemma trust_peers_keys:
  assumes "psa_keeps_keys psa key_of" and "peers_ok s" and "distinct (map dev_eui devs)"
    and "set (map dev_eui devs) \<inter> trusted s = {}" and "trust_peers psa devs ks s = (PSA_SUCCESS, ks', s')"
  shows "trusted_keys key_of ks s \<subseteq>\<^sub>m trusted_keys key_of ks' s' \<and>
    (\<forall>dev \<in> set devs. trusted_keys key_of ks' s' (dev_eui dev) = Some (Public_Key, dev_pub_key dev))"
  using assms(2-)
proof (induction devs arbitrary: ks s)
  case (Cons dev devs)
  obtain ks1 s1 where s1: "trust_peer psa (dev_eui dev) (dev_pub_key dev) ks s = (PSA_SUCCESS, ks1, s1)"
    and rest: "trust_peers psa devs ks1 s1 = (PSA_SUCCESS, ks', s')"
    using Cons.prems(4) by (auto split: prod.splits if_splits)
  have new: "dev_eui dev \<notin> trusted s"
    using Cons.prems(3) by auto
  obtain key where imp: "psa_import_key psa Public_Key (dev_pub_key dev) ks = (PSA_SUCCESS, key, ks1)" and ok: "peers_ok s1"
    and pk: "peer_key s1 = (peer_key s)(dev_eui dev \<mapsto> key)"
    using trust_peer_success [OF Cons.prems(1) new s1] .
  have t1: "trusted s1 = insert (dev_eui dev) (trusted s)"
    using pk dom_peer_key [of s1] dom_peer_key [of s] by simp
  have keys: "key_of ks1 key = Some (Public_Key, dev_pub_key dev)" "key_of ks \<subseteq>\<^sub>m key_of ks1"
    using assms(1) imp by (auto simp: psa_keeps_keys_def)
  have tk: "trusted_keys key_of ks s \<subseteq>\<^sub>m trusted_keys key_of ks1 s1"
      "trusted_keys key_of ks1 s1 (dev_eui dev) = Some (Public_Key, dev_pub_key dev)"
    using pk keys new dom_peer_key [of s]
    by (auto simp: trusted_keys_def map_le_def dom_def bind_eq_Some_conv)
  from Cons.IH [OF ok _ _ rest] Cons.prems(2,3) t1 have "trusted_keys key_of ks1 s1 \<subseteq>\<^sub>m trusted_keys key_of ks' s' \<and>
      (\<forall>dev \<in> set devs. trusted_keys key_of ks' s' (dev_eui dev) = Some (Public_Key, dev_pub_key dev))"
    by auto
  with tk show ?case
    by (auto intro: map_le_trans) (metis domI map_le_def)
qed auto

lemma trust_peers_trusted: "trust_peers psa devs ks s = (status, ks', s') \<Longrightarrow> trusted s' \<subseteq> trusted s \<union> set (map dev_eui devs)"
proof (induction devs arbitrary: ks s)
  case (Cons dev devs)
  have one: "trusted t' \<subseteq> insert eui (trusted t)" if "trust_peer psa eui pk k t = (st, k', t')" for eui pk k t st k' t'
    using that by (auto simp: trust_peer_def trusted_def set_nth_update_iff find_index_Some_iff
        split: prod.splits if_splits option.splits dest!: set_update_subset_insert [THEN subsetD])
  show ?case
    using Cons.prems one Cons.IH by (fastforce split: prod.splits if_splits)
qed simp

lemma trust_peers_length: "trust_peers psa devs ks s = (status, ks', s') \<Longrightarrow> length (td_peers s') = length (td_peers s)"
proof (induction devs arbitrary: ks s)
  case (Cons dev devs)
  have one: "length (td_peers t') = length (td_peers t)" if "trust_peer psa eui pk k t = (st, k', t')" for eui pk k t st k' t'
    using that by (auto simp: trust_peer_def split: prod.splits if_splits option.splits)
  show ?case
    using Cons.prems one Cons.IH by (fastforce split: prod.splits if_splits)
qed simp

section \<open>Properties\<close>

lemma signer_is_trusted:
  assumes "psa_keeps_keys psa key_of" and "psa_signs psa key_of pub"
    and "store_init psa eui ks0 new_store = (PSA_SUCCESS, ksA, sA)" and "export_pubkey psa ksA sA = Inr pk"
    and "distinct (map dev_eui devs)" and "\<lparr>dev_eui = eui, dev_pub_key = pk\<rparr> \<in> set devs"
    and "trust_peers psa devs ks1 new_store = (PSA_SUCCESS, ksB, sB)"
  obtains seed i where "key_of ksA (td_my_key_id sA) = Some (Key_Pair, seed)" and "find_peer eui sB = Some i"
    and "key_of ksB (tp_pubkey_id (td_peers sB ! i)) = Some (Public_Key, pub seed)"
proof -
  obtain seed where mine: "key_of ksA (td_my_key_id sA) = Some (Key_Pair, seed)"
    using assms(1,3) by (auto simp: store_init_def psa_keeps_keys_def PSA_SUCCESS_def derive_identity_seed_def Let_def
        PSA_ERROR_HARDWARE_FAILURE_def split: sum.splits prod.splits if_splits option.splits)
  have pk: "pk = pub seed"
    using assms(2,4) mine by (auto simp: psa_signs_def export_pubkey_def split: prod.splits if_splits)
  have "trusted_keys key_of ksB sB eui = Some (Public_Key, pk)"
    using trust_peers_keys [OF assms(1) new_store_ok(1) assms(5) _ assms(7)] assms(6) new_store_ok(2) by fastforce
  then obtain i where "find_peer eui sB = Some i" "key_of ksB (tp_pubkey_id (td_peers sB ! i)) = Some (Public_Key, pub seed)"
    by (auto simp: trusted_keys_def peer_key_def pk bind_eq_Some_conv)
  with mine show thesis
    by (rule that)
qed

lemma sign_digest:
  assumes "sign psa ks s b = Inr sig"
  obtains digest where "compute_digest psa b = (PSA_SUCCESS, digest)" and "psa_sign_hash psa ks (td_my_key_id s) digest = (PSA_SUCCESS, sig)"
  using assms by (auto simp: sign_def split: prod.splits if_splits)

lemma signed_message_accepted:
  assumes "psa_keeps_keys psa key_of" and "psa_signs psa key_of pub"
    and "store_init psa eui ks0 new_store = (PSA_SUCCESS, ksA, sA)"
    and "export_pubkey psa ksA sA = Inr pk" and "sign psa ksA sA rpc_bytes = Inr sig"
    and "distinct (map dev_eui devs)" and "\<lparr>dev_eui = eui, dev_pub_key = pk\<rparr> \<in> set devs"
    and "trust_peers psa devs ks1 new_store = (PSA_SUCCESS, ksB, sB)"
  shows "verify psa ksB sB eui rpc_bytes sig = PSA_SUCCESS"
proof -
  obtain seed i where "key_of ksA (td_my_key_id sA) = Some (Key_Pair, seed)" "find_peer eui sB = Some i"
      "key_of ksB (tp_pubkey_id (td_peers sB ! i)) = Some (Public_Key, pub seed)"
    by (rule signer_is_trusted [OF assms(1-4,6-8)])
  moreover obtain digest where "compute_digest psa rpc_bytes = (PSA_SUCCESS, digest)"
      "psa_sign_hash psa ksA (td_my_key_id sA) digest = (PSA_SUCCESS, sig)"
    by (rule sign_digest [OF assms(5)])
  ultimately show ?thesis
    using assms(2) by (auto simp: verify_def psa_signs_def)
qed

text \<open>
  What a signature is for: under the public half of the signing key it is valid for the digest that was
  signed and no other, and two messages of the length \<open>n\<close> do not share their digest.
\<close>

definition psa_binds :: "'k Psa \<Rightarrow> ('k \<Rightarrow> key_id \<rightharpoonup> key_type \<times> bytes) \<Rightarrow> (bytes \<Rightarrow> bytes) \<Rightarrow> nat \<Rightarrow> bool" where
  "psa_binds psa key_of pub n \<longleftrightarrow>
     (\<forall>ks k seed d sig ks' k' d'. key_of ks k = Some (Key_Pair, seed) \<and> psa_sign_hash psa ks k d = (PSA_SUCCESS, sig) \<and>
        key_of ks' k' = Some (Public_Key, pub seed) \<and> psa_verify_hash psa ks' k' d' sig = PSA_SUCCESS \<longrightarrow> d' = d) \<and>
     (\<forall>a b. length a = n \<and> length b = n \<and> psa_hash_finish psa a = psa_hash_finish psa b \<longrightarrow> a = b)"

lemma altered_message_refused:
  assumes "psa_keeps_keys psa key_of" and "psa_signs psa key_of pub" and "psa_binds psa key_of pub n"
    and "store_init psa eui ks0 new_store = (PSA_SUCCESS, ksA, sA)"
    and "export_pubkey psa ksA sA = Inr pk" and "sign psa ksA sA b = Inr sig"
    and "distinct (map dev_eui devs)" and "\<lparr>dev_eui = eui, dev_pub_key = pk\<rparr> \<in> set devs"
    and "trust_peers psa devs ks1 new_store = (PSA_SUCCESS, ksB, sB)"
    and "length b = n" and "length b' = n" and "b' \<noteq> b"
  shows "verify psa ksB sB eui b' sig \<noteq> PSA_SUCCESS"
proof
  assume v: "verify psa ksB sB eui b' sig = PSA_SUCCESS"
  obtain seed i where key: "key_of ksA (td_my_key_id sA) = Some (Key_Pair, seed)" "find_peer eui sB = Some i"
      "key_of ksB (tp_pubkey_id (td_peers sB ! i)) = Some (Public_Key, pub seed)"
    by (rule signer_is_trusted [OF assms(1,2,4,5,7-9)])
  obtain digest where d: "compute_digest psa b = (PSA_SUCCESS, digest)" "psa_sign_hash psa ksA (td_my_key_id sA) digest = (PSA_SUCCESS, sig)"
    by (rule sign_digest [OF assms(6)])
  from v key(2) obtain digest' where d': "compute_digest psa b' = (PSA_SUCCESS, digest')"
      "psa_verify_hash psa ksB (tp_pubkey_id (td_peers sB ! i)) digest' sig = PSA_SUCCESS"
    by (auto simp: verify_def split: prod.splits if_splits)
  have "digest' = digest"
    using assms(3) key d(2) d'(2) by (auto simp: psa_binds_def)
  then have "psa_hash_finish psa b' = psa_hash_finish psa b"
    using d(1) d'(1) by (auto simp: compute_digest_def split: if_splits)
  with assms(3,10-12) show False
    by (auto simp: psa_binds_def)
qed

text \<open>
  A message signed by a node that brought up its key store is accepted by every node that
  trusts the public key the signer exported, provided the receiver's trust list names no device
  twice and was installed without error. PSA is used as documented: imports keep keys, exports
  give the public half, signatures verify under it.
\<close>

theorem signed_messages_verify:
  assumes "psa_keeps_keys psa key_of" and "psa_signs psa key_of pub"
    and "store_init psa eui ks0 new_store = (PSA_SUCCESS, ksA, sA)"
    and "export_pubkey psa ksA sA = Inr pk" and "sign psa ksA sA rpc_bytes = Inr sig"
    and "distinct (map dev_eui devs)" and "\<lparr>dev_eui = eui, dev_pub_key = pk\<rparr> \<in> set devs"
    and "trust_peers psa devs ks1 new_store = (PSA_SUCCESS, ksB, sB)"
  shows "verify psa ksB sB eui rpc_bytes sig = PSA_SUCCESS"
  by (rule signed_message_accepted [OF assms])

text \<open>A crypto service that keeps its keys in a list and signs by repeating digest and key.\<close>

definition demo_psa :: "(key_type \<times> bytes) list Psa" where
  "demo_psa = \<lparr>
     psa_import_key = (\<lambda>kind key ks. if length ks < 4294967296 then (0, of_nat (length ks), ks @ [(kind, key)]) else (- 141, 0, ks)),
     psa_export_public_key = (\<lambda>ks k. if unat k < length ks then (0, snd (ks ! unat k)) else (- 136, [])),
     psa_sign_hash = (\<lambda>ks k d. if unat k < length ks then (0, d @ snd (ks ! unat k)) else (- 136, [])),
     psa_verify_hash = (\<lambda>ks k d sig. if unat k < length ks \<and> sig = d @ snd (ks ! unat k) then 0 else - 149),
     psa_hash_setup = 0, psa_hash_update = (\<lambda>_. 0), psa_hash_finish = (\<lambda>b. (0, b)),
     psa_kd_setup = 0, psa_kd_input = (\<lambda>_ _. 0), psa_kd_output = (\<lambda>_ _ info. (0, info)),
     hwinfo_get_device_id = Some [1, 2, 3]\<rparr>"

definition demo_key_of :: "(key_type \<times> bytes) list \<Rightarrow> key_id \<rightharpoonup> key_type \<times> bytes" where
  "demo_key_of ks k = (if unat k < length ks then Some (ks ! unat k) else None)"

lemma demo_psa_laws: "psa_keeps_keys demo_psa demo_key_of" "psa_signs demo_psa demo_key_of id"
proof -
  have "unat (of_nat (length ks) :: key_id) = length ks" if "length ks < 4294967296" for ks :: "(key_type \<times> bytes) list"
    using that by (simp add: unat_of_nat_small)
  then show "psa_keeps_keys demo_psa demo_key_of"
    by (auto simp: psa_keeps_keys_def demo_psa_def demo_key_of_def map_le_def PSA_SUCCESS_def nth_append split: if_splits)
  show "psa_signs demo_psa demo_key_of id"
    by (auto simp: psa_signs_def demo_psa_def demo_key_of_def PSA_SUCCESS_def split: if_splits)
qed

lemma demo_psa_binds: "psa_binds demo_psa demo_key_of id n"
  by (auto simp: psa_binds_def demo_psa_def demo_key_of_def PSA_SUCCESS_def split: if_splits)

definition demo_signer :: TrustedDeviceStore where
  "demo_signer = snd (snd (store_init demo_psa 7 [] new_store))"

definition demo_receiver :: TrustedDeviceStore where
  "demo_receiver = snd (snd (trust_peers demo_psa [\<lparr>dev_eui = 7, dev_pub_key = eui_bytes 7\<rparr>] [] new_store))"

lemma demo_stores_run:
  "store_init demo_psa 7 [] new_store = (PSA_SUCCESS, [(Key_Pair, eui_bytes 7)], demo_signer)"
  "export_pubkey demo_psa [(Key_Pair, eui_bytes 7)] demo_signer = Inr (eui_bytes 7)"
  "sign demo_psa [(Key_Pair, eui_bytes 7)] demo_signer [1, 2] = Inr ([1, 2] @ eui_bytes 7)"
  "trust_peers demo_psa [\<lparr>dev_eui = 7, dev_pub_key = eui_bytes 7\<rparr>] [] new_store =
     (PSA_SUCCESS, [(Public_Key, eui_bytes 7)], demo_receiver)"
proof -
  have slots: "replicate 8 x = [x, x, x, x, x, x, x, x]" for x :: TrustedPeer
    by (simp add: numeral_eq_Suc)
  show "store_init demo_psa 7 [] new_store = (PSA_SUCCESS, [(Key_Pair, eui_bytes 7)], demo_signer)"
      "export_pubkey demo_psa [(Key_Pair, eui_bytes 7)] demo_signer = Inr (eui_bytes 7)"
      "sign demo_psa [(Key_Pair, eui_bytes 7)] demo_signer [1, 2] = Inr ([1, 2] @ eui_bytes 7)"
      "trust_peers demo_psa [\<lparr>dev_eui = 7, dev_pub_key = eui_bytes 7\<rparr>] [] new_store =
         (PSA_SUCCESS, [(Public_Key, eui_bytes 7)], demo_receiver)"
    by (simp_all add: demo_signer_def demo_receiver_def demo_psa_def store_init_def derive_identity_seed_def
        export_pubkey_def sign_def compute_digest_def trust_peer_def PSA_SUCCESS_def new_store_def no_peer_def MAX_PEERS_def slots Let_def)
qed

theorem signed_messages_verify_witness:
  "verify demo_psa [(Public_Key, eui_bytes 7)] demo_receiver 7 [1, 2] ([1, 2] @ eui_bytes 7) = PSA_SUCCESS"
  using signed_messages_verify [OF demo_psa_laws demo_stores_run(1-3) _ _ demo_stores_run(4)] by simp

text \<open>
  A sender that was never entered into the trust list is refused, whatever its signature and
  whatever the crypto service would say, and the table never holds more than its eight peers.
\<close>

theorem untrusted_sender_refused:
  assumes "trust_peers psa devs ks new_store = (status, ks', s)" and "eui \<notin> set (map dev_eui devs)"
  shows "verify psa ks'' s eui rpc_bytes sig = PSA_ERROR_INVALID_HANDLE \<and> length (filter tp_in_use (td_peers s)) \<le> MAX_PEERS"
proof -
  have "find_peer eui s = None"
    using trust_peers_trusted [OF assms(1)] assms(2) new_store_ok(2) by (auto simp: find_peer_None_iff)
  moreover have "length (td_peers s) = MAX_PEERS"
    using trust_peers_length [OF assms(1)] by (simp add: new_store_def)
  ultimately show ?thesis
    using length_filter_le [of tp_in_use "td_peers s"] by (simp add: verify_def)
qed

theorem untrusted_sender_refused_witness:
  "verify demo_psa [] demo_receiver 9 [1, 2] [] = PSA_ERROR_INVALID_HANDLE"
proof -
  have "trust_peers demo_psa [\<lparr>dev_eui = 7, dev_pub_key = eui_bytes 7\<rparr>] [] new_store =
      (fst (trust_peers demo_psa [\<lparr>dev_eui = 7, dev_pub_key = eui_bytes 7\<rparr>] [] new_store),
       fst (snd (trust_peers demo_psa [\<lparr>dev_eui = 7, dev_pub_key = eui_bytes 7\<rparr>] [] new_store)), demo_receiver)"
    by (simp only: demo_receiver_def prod.collapse)
  from untrusted_sender_refused [OF this, of 9 "[]" "[1, 2]" "[]"] show ?thesis
    by simp
qed

end
