(* ===== verification/Sensor_Reading.thy ===== *)
theory Sensor_Reading
  imports Flood_Prelude
begin

text \<open>
  The readings that travel from the edge nodes to the fog nodes,
  \<^verbatim>\<open>firmware/common/sensor_reading.hpp\<close>,
  \<^verbatim>\<open>firmware/common/global_config.h\<close> and
  \<^verbatim>\<open>fog/src/outlier_vote/sensor_batch.hpp\<close>. The two quality fields are enumerations
  over a byte that arrive from the network as raw bytes, so they are modelled as bytes with named
  values.
\<close>

type_synonym Eui = u64
type_synonym Validity = u8
type_synonym Detail = u8

definition VALIDITY_GOOD :: Validity where "VALIDITY_GOOD = 0"
definition VALIDITY_INVALID :: Validity where "VALIDITY_INVALID = 1"
definition VALIDITY_QUESTIONABLE :: Validity where "VALIDITY_QUESTIONABLE = 2"

definition DETAIL_NONE :: Detail where "DETAIL_NONE = 0"
definition DETAIL_OVERFLOW :: Detail where "DETAIL_OVERFLOW = 1"
definition DETAIL_OUT_OF_RANGE :: Detail where "DETAIL_OUT_OF_RANGE = 2"
definition DETAIL_FAILURE :: Detail where "DETAIL_FAILURE = 4"
definition DETAIL_OLD_DATA :: Detail where "DETAIL_OLD_DATA = 8"
definition DETAIL_OUTLIER :: Detail where "DETAIL_OUTLIER = 16"

record SensorReading =
  sr_water_level :: u16
  sr_validity :: Validity
  sr_detail :: Detail

record SensorReadingWire =
  w_eui :: Eui
  w_timestamp :: u64
  w_water_level_mm :: u16
  w_validity :: Validity
  w_detail :: Detail
  w_seq :: u32

record SensorReadingSigned =
  sg_reading :: SensorReadingWire
  sg_signature :: "u8 list"

definition MAX_SENSORS :: nat where [config_defs]: "MAX_SENSORS = 3"

text \<open>The build without fault injection.\<close>

definition DEFAULT_TIMEOUT_MS :: u64 where [config_defs]: "DEFAULT_TIMEOUT_MS = 300 * 1000"
definition ALERT_TIMEOUT_MS :: u64 where [config_defs]: "ALERT_TIMEOUT_MS = 30 * 1000"

definition zero_wire :: SensorReadingWire where
  "zero_wire = \<lparr>w_eui = 0, w_timestamp = 0, w_water_level_mm = 0, w_validity = 0, w_detail = 0, w_seq = 0\<rparr>"

record SensorBatch =
  sb_entries :: "SensorReadingWire list"
  sb_count :: u8
  sb_alert_active :: bool

definition zero_batch :: SensorBatch where
  "zero_batch = \<lparr>sb_entries = replicate MAX_SENSORS zero_wire, sb_count = 0, sb_alert_active = False\<rparr>"

text \<open>The entries a batch carries.\<close>

definition batch_entries :: "SensorBatch \<Rightarrow> SensorReadingWire list" where
  "batch_entries b = take (unat (sb_count b)) (sb_entries b)"

section \<open>Quality codes\<close>

text \<open>The bit operators of the flags, and the names the log shows.\<close>

definition detail_or :: "Detail \<Rightarrow> Detail \<Rightarrow> Detail" where
  "detail_or lhs rhs = lhs OR rhs"

definition detail_and :: "Detail \<Rightarrow> Detail \<Rightarrow> Detail" where
  "detail_and lhs rhs = lhs AND rhs"

definition validity_to_string :: "Validity \<Rightarrow> string" where
  "validity_to_string val =
     (if val = VALIDITY_GOOD then ''VALIDITY_GOOD''
      else if val = VALIDITY_INVALID then ''VALIDITY_INVALID''
      else if val = VALIDITY_QUESTIONABLE then ''VALIDITY_QUESTIONABLE''
      else ''Unkown'')"

definition detail_to_string :: "Detail \<Rightarrow> string" where
  "detail_to_string det =
     (if det = DETAIL_NONE then ''DETAIL_NONE''
      else if det = DETAIL_OVERFLOW then ''DETAIL_OVERFLOW''
      else if det = DETAIL_OUT_OF_RANGE then ''DETAIL_OUT_OF_RANGE''
      else if det = DETAIL_FAILURE then ''DETAIL_FAILURE''
      else if det = DETAIL_OLD_DATA then ''DETAIL_OLD_DATA''
      else if det = DETAIL_OUTLIER then ''DETAIL_OUTLIER''
      else ''Unkown'')"

lemmas detail_defs = DETAIL_NONE_def DETAIL_OVERFLOW_def DETAIL_OUT_OF_RANGE_def DETAIL_FAILURE_def DETAIL_OLD_DATA_def DETAIL_OUTLIER_def
lemmas validity_defs = VALIDITY_GOOD_def VALIDITY_INVALID_def VALIDITY_QUESTIONABLE_def

text \<open>A flag that was set can be read back, and setting it leaves the others.\<close>

lemma detail_flags:
  "detail_and (detail_or d f) f = f" "detail_and f g = 0 \<Longrightarrow> detail_and (detail_or d f) g = detail_and d g"
  by (simp_all add: detail_or_def detail_and_def bit.conj_disj_distrib2)

text \<open>The log tells the named values apart; two flags together have no name of their own.\<close>

lemma names_identify:
  "validity_to_string a = validity_to_string b \<Longrightarrow> a = b \<or> validity_to_string a = ''Unkown''"
  "detail_to_string c = detail_to_string d \<Longrightarrow> c = d \<or> detail_to_string c = ''Unkown''"
  by (auto simp: validity_to_string_def detail_to_string_def split: if_splits)

lemma combined_flags_unnamed: "detail_to_string (detail_or DETAIL_FAILURE DETAIL_OUTLIER) = ''Unkown''"
  by (simp add: detail_to_string_def detail_or_def detail_defs)

end
