(* ===== verification/Lora_Protocol.thy ===== *)
theory Lora_Protocol
  imports Sensor_Reading
begin

text \<open>
  The LoRaWAN uplink: the packed structures, hex coding and back-off of
  \<^verbatim>\<open>fog/src/lorawan/protocol.hpp\<close>, the command builder of
  \<^verbatim>\<open>fog/src/lorawan/join.hpp\<close>, and the decoder the gateway runs on what arrives,
  \<^verbatim>\<open>gateway/chirpstack-codec/codec.js\<close>. Structures are packed and little-endian.
\<close>

section \<open>Little-endian integers\<close>

definition le16 :: "u16 \<Rightarrow> u8 list" where
  "le16 w = [ucast w, ucast (drop_bit 8 w)]"

definition le32 :: "u32 \<Rightarrow> u8 list" where
  "le32 w = [ucast w, ucast (drop_bit 8 w), ucast (drop_bit 16 w), ucast (drop_bit 24 w)]"

definition le64 :: "u64 \<Rightarrow> u8 list" where
  "le64 w = le32 (ucast w) @ le32 (ucast (drop_bit 32 w))"

lemma length_le [simp]: "length (le16 a) = 2" "length (le32 b) = 4" "length (le64 c) = 8"
  by (simp_all add: le16_def le32_def le64_def)

section \<open>The payload\<close>

definition MAX_ENTRIES :: nat where [config_defs]: "MAX_ENTRIES = 3"

record LoraEntry =
  le_device_rloc :: u64
  le_water_level_mm :: u16
  le_validity :: u8
  le_detail :: u8
  le_timestamp :: u32

record LoraPayload =
  lp_node_id :: u64
  lp_raft_term :: u32
  lp_raft_log_index :: u32
  lp_sequence :: u32
  lp_alert :: u8
  lp_count :: u8
  lp_entries :: "LoraEntry list"

definition zero_lora_entry :: LoraEntry where
  "zero_lora_entry = \<lparr>le_device_rloc = 0, le_water_level_mm = 0, le_validity = 0, le_detail = 0, le_timestamp = 0\<rparr>"

definition zero_payload :: LoraPayload where
  "zero_payload = \<lparr>lp_node_id = 0, lp_raft_term = 0, lp_raft_log_index = 0, lp_sequence = 0, lp_alert = 0, lp_count = 0,
     lp_entries = replicate MAX_ENTRIES zero_lora_entry\<rparr>"

definition entry_bytes :: "LoraEntry \<Rightarrow> u8 list" where
  "entry_bytes e = le64 (le_device_rloc e) @ le16 (le_water_level_mm e) @ [le_validity e] @ [le_detail e] @ le32 (le_timestamp e)"

definition header_bytes :: "LoraPayload \<Rightarrow> u8 list" where
  "header_bytes p = le64 (lp_node_id p) @ le32 (lp_raft_term p) @ le32 (lp_raft_log_index p) @ le32 (lp_sequence p) @
     [lp_alert p] @ [lp_count p]"

definition payload_bytes :: "LoraPayload \<Rightarrow> u8 list" where
  "payload_bytes p = header_bytes p @ concat (map entry_bytes (lp_entries p))"

definition wire_len :: "LoraPayload \<Rightarrow> nat" where
  "wire_len p = 22 + unat (lp_count p) * 16"

text \<open>The view of the first \<open>wire_len\<close> bytes; \<open>None\<close> if it would reach past the structure.\<close>

definition wire_bytes :: "LoraPayload \<Rightarrow> u8 list option" where
  "wire_bytes p = (if wire_len p \<le> length (payload_bytes p) then Some (take (wire_len p) (payload_bytes p)) else None)"

section \<open>Hex coding\<close>

definition HEX :: string where "HEX = ''0123456789ABCDEF''"

definition hex_byte :: "u8 \<Rightarrow> string" where
  "hex_byte val = [HEX ! unat (drop_bit 4 val), HEX ! unat (val AND 0x0F)]"

definition to_hex :: "u8 list \<Rightarrow> nat \<Rightarrow> string option" where
  "to_hex bs out_size = (if out_size < length bs * 2 then None else Some (concat (map hex_byte bs)))"

definition MSG_START_CMD :: string where "MSG_START_CMD = ''AT+MSGHEX=\"''"
definition MSG_END_CMD :: string where "MSG_END_CMD = ''\"''"

definition build_uplink :: "LoraPayload \<Rightarrow> nat \<Rightarrow> string option" where
  "build_uplink payload out_size =
     (case wire_bytes payload of
        None \<Rightarrow> None
      | Some bytes \<Rightarrow>
          if out_size < length MSG_START_CMD + length bytes * 2 + length MSG_END_CMD then None
          else case to_hex bytes (out_size - length MSG_START_CMD) of
                 None \<Rightarrow> None
               | Some hex \<Rightarrow> Some (MSG_START_CMD @ hex @ MSG_END_CMD))"

section \<open>Back-off\<close>

definition BACKOFF_MIN_MS :: u64 where [config_defs]: "BACKOFF_MIN_MS = 500"
definition BACKOFF_MAX_MS :: u64 where [config_defs]: "BACKOFF_MAX_MS = 30000"

text \<open>The loop, with the number of iterations the counter still allows.\<close>

fun delay_loop :: "nat \<Rightarrow> u64 \<Rightarrow> u64" where
  "delay_loop 0 duration = duration"
| "delay_loop (Suc n) duration = (if duration < BACKOFF_MAX_MS then delay_loop n (push_bit 1 duration) else duration)"

definition delay_for :: "u32 \<Rightarrow> u32" where
  "delay_for attempt = ucast (min (delay_loop (unat attempt) BACKOFF_MIN_MS) BACKOFF_MAX_MS)"

section \<open>The decoder of the gateway\<close>

definition rdU16LE :: "u8 list \<Rightarrow> nat \<Rightarrow> u16" where
  "rdU16LE b i = ucast (b ! i) OR push_bit 8 (ucast (b ! (i + 1)))"

definition rdU32LE :: "u8 list \<Rightarrow> nat \<Rightarrow> u32" where
  "rdU32LE b i = ucast (b ! i) OR push_bit 8 (ucast (b ! (i + 1))) OR push_bit 16 (ucast (b ! (i + 2))) OR
     push_bit 24 (ucast (b ! (i + 3)))"

definition rdU64LE :: "u8 list \<Rightarrow> nat \<Rightarrow> u64" where
  "rdU64LE b i = push_bit 32 (ucast (rdU32LE b (i + 4))) OR ucast (rdU32LE b i)"

record Uplink =
  up_node_id :: u64
  up_raft_term :: u32
  up_raft_log_index :: u32
  up_seq :: u32
  up_alert :: bool
  up_count :: nat
  up_entries :: "LoraEntry list"

datatype decode_error = Short_Header | Short_Entries

definition decode_entry :: "u8 list \<Rightarrow> nat \<Rightarrow> LoraEntry" where
  "decode_entry b off = \<lparr>le_device_rloc = rdU64LE b off, le_water_level_mm = rdU16LE b (off + 8), le_validity = b ! (off + 10),
     le_detail = b ! (off + 11), le_timestamp = rdU32LE b (off + 12)\<rparr>"

text \<open>The data, if the header is there, and the errors.\<close>

definition decodeUplink :: "u8 list \<Rightarrow> Uplink option \<times> decode_error list" where
  "decodeUplink b =
     (if length b < 22 then (None, [Short_Header])
      else let count = unat (b ! 21);
               expected_len = 22 + count * 16;
               (count, errors) = (if length b < expected_len then ((length b - 22) div 16, [Short_Entries]) else (count, []));
               entries = map (\<lambda>i. decode_entry b (22 + i * 16)) [0..<count]
           in (Some \<lparr>up_node_id = rdU64LE b 0, up_raft_term = rdU32LE b 8, up_raft_log_index = rdU32LE b 12,
                 up_seq = rdU32LE b 16, up_alert = (b ! 20 = 1), up_count = count, up_entries = entries\<rparr>, errors))"

section \<open>Round trips\<close>

lemma le32_nth:
  "(xs @ le32 w @ ys) ! (length xs) = ucast w" "(xs @ le32 w @ ys) ! (length xs + 1) = ucast (drop_bit 8 w)"
  "(xs @ le32 w @ ys) ! (length xs + 2) = ucast (drop_bit 16 w)" "(xs @ le32 w @ ys) ! (length xs + 3) = ucast (drop_bit 24 w)"
  by (simp_all add: le32_def nth_append)

lemma rd16: "rdU16LE (xs @ le16 w @ ys) (length xs) = w"
  by (rule bit_word_eqI) (auto simp: rdU16LE_def le16_def nth_append bit_simps)

lemma join32: "ucast (ucast w :: u8) OR push_bit 8 (ucast (ucast (drop_bit 8 w) :: u8)) OR
    push_bit 16 (ucast (ucast (drop_bit 16 w) :: u8)) OR push_bit 24 (ucast (ucast (drop_bit 24 w) :: u8)) = (w :: u32)"
proof (rule bit_word_eqI)
  fix n
  assume "n < LENGTH(32)"
  then consider "n < 8" | "8 \<le> n" "n < 16" | "16 \<le> n" "n < 24" | "24 \<le> n" "n < 32"
    by (simp, linarith)
  then show "bit ((ucast (ucast w :: u8) :: u32) OR push_bit 8 (ucast (ucast (drop_bit 8 w) :: u8)) OR
      push_bit 16 (ucast (ucast (drop_bit 16 w) :: u8)) OR push_bit 24 (ucast (ucast (drop_bit 24 w) :: u8))) n = bit w n"
    by cases (auto simp: bit_simps)
qed

lemma rd32: "rdU32LE (xs @ le32 w @ ys) (length xs) = w"
  unfolding rdU32LE_def le32_nth by (rule join32)

lemma rd64: "rdU64LE (xs @ le64 w @ ys) (length xs) = w"
proof -
  have "rdU32LE (xs @ le64 w @ ys) (length xs) = ucast w"
    using rd32 [of xs "ucast w" "le32 (ucast (drop_bit 32 w)) @ ys"] by (simp add: le64_def)
  moreover have "rdU32LE (xs @ le64 w @ ys) (length xs + 4) = ucast (drop_bit 32 w)"
    using rd32 [of "xs @ le32 (ucast w)" "ucast (drop_bit 32 w)" ys] by (simp add: le64_def)
  moreover have "push_bit 32 (ucast (ucast (drop_bit 32 w) :: u32)) OR ucast (ucast w :: u32) = (w :: u64)"
    by (rule bit_word_eqI) (auto simp: bit_simps)
  ultimately show ?thesis
    by (simp add: rdU64LE_def)
qed

lemma length_entry_bytes [simp]: "length (entry_bytes e) = 16"
  by (simp add: entry_bytes_def)

lemma length_header_bytes [simp]: "length (header_bytes p) = 22"
  by (simp add: header_bytes_def)

lemma decode_entry_bytes: "decode_entry (xs @ entry_bytes e @ ys) (length xs) = e"
proof -
  have "rdU64LE (xs @ entry_bytes e @ ys) (length xs) = le_device_rloc e"
    using rd64 [of xs "le_device_rloc e"] by (simp add: entry_bytes_def)
  moreover have "rdU16LE (xs @ entry_bytes e @ ys) (length xs + 8) = le_water_level_mm e"
    using rd16 [of "xs @ le64 (le_device_rloc e)" "le_water_level_mm e"] by (simp add: entry_bytes_def)
  moreover have "rdU32LE (xs @ entry_bytes e @ ys) (length xs + 12) = le_timestamp e"
    using rd32 [of "xs @ le64 (le_device_rloc e) @ le16 (le_water_level_mm e) @ [le_validity e] @ [le_detail e]" "le_timestamp e"]
    by (simp add: entry_bytes_def add.assoc)
  moreover have "(xs @ entry_bytes e @ ys) ! (length xs + 10) = le_validity e" "(xs @ entry_bytes e @ ys) ! (length xs + 11) = le_detail e"
    by (simp_all add: entry_bytes_def nth_append)
  ultimately show ?thesis
    by (simp add: decode_entry_def)
qed

lemma length_entries_bytes: "length (concat (map entry_bytes es)) = 16 * length es"
  by (induction es) simp_all

lemma decode_entries:
  assumes "length h = 22" and "i < length es"
  shows "decode_entry (h @ concat (map entry_bytes es) @ ys) (22 + i * 16) = es ! i"
proof -
  have "concat (map entry_bytes es) = concat (map entry_bytes (take i es)) @ entry_bytes (es ! i) @ concat (map entry_bytes (drop (Suc i) es))"
    using assms(2) by (subst id_take_nth_drop [OF assms(2)]) simp
  moreover have "length (h @ concat (map entry_bytes (take i es))) = 22 + i * 16"
    using assms by (simp add: length_entries_bytes)
  ultimately show ?thesis
    using decode_entry_bytes [of "h @ concat (map entry_bytes (take i es))" "es ! i" "concat (map entry_bytes (drop (Suc i) es)) @ ys"]
    by simp
qed

text \<open>What the gateway reads of a payload.\<close>

lemma decode_header:
  "rdU64LE (header_bytes p @ ys) 0 = lp_node_id p" "rdU32LE (header_bytes p @ ys) 8 = lp_raft_term p"
  "rdU32LE (header_bytes p @ ys) 12 = lp_raft_log_index p" "rdU32LE (header_bytes p @ ys) 16 = lp_sequence p"
  "(header_bytes p @ ys) ! 20 = lp_alert p" "(header_bytes p @ ys) ! 21 = lp_count p"
  using rd64 [of "[]" "lp_node_id p"] rd32 [of "le64 (lp_node_id p)" "lp_raft_term p"]
    rd32 [of "le64 (lp_node_id p) @ le32 (lp_raft_term p)" "lp_raft_log_index p"]
    rd32 [of "le64 (lp_node_id p) @ le32 (lp_raft_term p) @ le32 (lp_raft_log_index p)" "lp_sequence p"]
  by (simp_all add: header_bytes_def nth_append)

lemma take_entries: "c \<le> length es \<Longrightarrow> take (16 * c) (concat (map entry_bytes es)) = concat (map entry_bytes (take c es))"
proof (induction es arbitrary: c)
  case (Cons e es)
  then show ?case
    by (cases c) simp_all
qed simp

lemma wire_bytes_eq:
  assumes "unat (lp_count p) \<le> length (lp_entries p)"
  shows "wire_bytes p = Some (header_bytes p @ concat (map entry_bytes (take (unat (lp_count p)) (lp_entries p))))"
  using assms take_entries [OF assms]
  by (simp add: wire_bytes_def wire_len_def payload_bytes_def length_entries_bytes mult.commute)

lemma decode_wire_bytes:
  assumes "unat (lp_count p) \<le> length (lp_entries p)"
  shows "map_option decodeUplink (wire_bytes p) = Some (Some \<lparr>up_node_id = lp_node_id p, up_raft_term = lp_raft_term p,
    up_raft_log_index = lp_raft_log_index p, up_seq = lp_sequence p, up_alert = (lp_alert p = 1),
    up_count = unat (lp_count p), up_entries = take (unat (lp_count p)) (lp_entries p)\<rparr>, [])"
proof -
  define es where "es = take (unat (lp_count p)) (lp_entries p)"
  have len: "length es = unat (lp_count p)"
    using assms by (simp add: es_def)
  have "map (\<lambda>i. decode_entry (header_bytes p @ concat (map entry_bytes es)) (22 + i * 16)) [0..<length es] = es"
    using decode_entries [of "header_bytes p" _ es "[]"] by (intro nth_equalityI) simp_all
  then have "decodeUplink (header_bytes p @ concat (map entry_bytes es)) = (Some \<lparr>up_node_id = lp_node_id p, up_raft_term = lp_raft_term p,
    up_raft_log_index = lp_raft_log_index p, up_seq = lp_sequence p, up_alert = (lp_alert p = 1),
    up_count = length es, up_entries = es\<rparr>, [])"
    by (simp add: decodeUplink_def decode_header length_entries_bytes flip: len)
  then show ?thesis
    using wire_bytes_eq [OF assms] by (simp add: es_def [symmetric] len)
qed

lemma length_hex_bytes [simp]: "length (concat (map hex_byte bs)) = 2 * length bs"
  by (induction bs) (simp_all add: hex_byte_def)

lemma build_uplink_fits:
  assumes "unat (lp_count p) \<le> length (lp_entries p)" and "unat (lp_count p) \<le> MAX_ENTRIES"
  shows "build_uplink p 256 = Some (MSG_START_CMD @
    concat (map hex_byte (header_bytes p @ concat (map entry_bytes (take (unat (lp_count p)) (lp_entries p))))) @ MSG_END_CMD)"
  using assms(2) wire_bytes_eq [OF assms(1)] assms(1)
  by (simp add: build_uplink_def to_hex_def length_entries_bytes MSG_START_CMD_def MSG_END_CMD_def MAX_ENTRIES_def)

section \<open>Back-off\<close>

lemma delay_loop_spec:
  "unat d \<le> 60000 \<Longrightarrow> min (unat (delay_loop n d)) 30000 = min (unat d * 2 ^ n) 30000 \<and> unat (delay_loop n d) \<le> 60000"
proof (induction n arbitrary: d)
  case (Suc n)
  show ?case
  proof (cases "d < BACKOFF_MAX_MS")
    case True
    then have lt: "unat d < 30000"
      by (simp add: word_less_nat_alt BACKOFF_MAX_MS_def)
    have "unat (push_bit 1 d) = 2 * unat d"
      using lt by (simp add: push_bit_eq_mult unat_mult_no_wrap)
    then show ?thesis
      using Suc.IH [of "push_bit 1 d"] True lt by (simp add: mult.assoc mult.left_commute)
  next
    case False
    then have ge: "30000 \<le> unat d"
      by (simp add: word_less_nat_alt BACKOFF_MAX_MS_def)
    moreover have "30000 * 1 \<le> unat d * 2 ^ Suc n"
      using ge by (intro mult_le_mono) simp_all
    ultimately show ?thesis
      using False Suc.prems by (simp add: min_def)
  qed
qed simp

end
