(* ===== verification/Network_Service.thy ===== *)
theory Network_Service
  imports Slot_Table Lora_Protocol
begin

text \<open>
  The directory of the fog nodes, \<^verbatim>\<open>fog/src/raft/service/network_service.hpp\<close> and
  \<^verbatim>\<open>network_service_impl.hpp\<close>: every node advertises its identifier and address in the
  network data of Thread, and a periodic scan keeps a table of the nodes seen lately. The network
  data a scan iterates over and the values of the clock are arguments.
\<close>

section \<open>The table\<close>

type_synonym ip6 = "u8 list"

record ServicePeer =
  sp_eui :: u64
  sp_addr :: ip6
  sp_last_seen_ms :: int
  sp_valid :: bool

definition SERVICE_MAX_PEERS :: nat where [config_defs]: "SERVICE_MAX_PEERS = 3"
definition PEER_TIMEOUT_MS :: int where [config_defs]: "PEER_TIMEOUT_MS = 2000"
definition RAFT_SERVICE_ENTERPRISE_NUMBER :: nat where [config_defs]: "RAFT_SERVICE_ENTERPRISE_NUMBER = 12345"
definition RAFT_SERVICE_ID :: nat where [config_defs]: "RAFT_SERVICE_ID = 0x5A"

record NetworkService =
  ns_peers :: "ServicePeer list"
  ns_eui :: u64

definition new_network_service :: "u64 \<Rightarrow> NetworkService" where
  "new_network_service eui =
     \<lparr>ns_peers = replicate SERVICE_MAX_PEERS \<lparr>sp_eui = 0, sp_addr = replicate 16 0, sp_last_seen_ms = 0, sp_valid = False\<rparr>, ns_eui = eui\<rparr>"

text \<open>An entry of the network data: the fields of \<open>otServiceConfig\<close> the code uses; the server data is an array.\<close>

record service_config =
  svc_service_id :: nat
  svc_enterprise_number :: nat
  svc_service_data :: "u8 list"
  svc_server_data :: "u8 list"

definition local_service :: "u64 \<Rightarrow> ip6 \<Rightarrow> service_config" where
  "local_service eui my_addr =
     \<lparr>svc_service_id = RAFT_SERVICE_ID, svc_enterprise_number = RAFT_SERVICE_ENTERPRISE_NUMBER, svc_service_data = le64 eui,
      svc_server_data = my_addr\<rparr>"

definition find_or_create_peer :: "u64 \<Rightarrow> ServicePeer list \<Rightarrow> (nat \<times> ServicePeer list) option" where
  "find_or_create_peer eui peers =
     (case find_index (\<lambda>p. sp_valid p \<and> sp_eui p = eui) peers of
        Some i \<Rightarrow> Some (i, peers)
      | None \<Rightarrow>
          (case find_index (\<lambda>p. \<not> sp_valid p) peers of
             Some i \<Rightarrow> Some (i, peers[i := (peers ! i)\<lparr>sp_eui := eui, sp_valid := True\<rparr>])
           | None \<Rightarrow> None))"

definition discover_one :: "service_config \<times> int \<Rightarrow> NetworkService \<Rightarrow> NetworkService" where
  "discover_one seen s =
     (let (service, now) = seen in
      if svc_enterprise_number service \<noteq> RAFT_SERVICE_ENTERPRISE_NUMBER \<or> length (svc_service_data service) \<noteq> 8 then s
      else let peer_eui = rdU64LE (svc_service_data service) 0 in
        if peer_eui = ns_eui s then s
        else case find_or_create_peer peer_eui (ns_peers s) of
               None \<Rightarrow> s
             | Some (i, peers) \<Rightarrow>
                 s\<lparr>ns_peers := peers[i := (peers ! i)\<lparr>sp_addr := take 16 (svc_server_data service), sp_last_seen_ms := now\<rparr>]\<rparr>)"

definition prune_stale_peers :: "int \<Rightarrow> NetworkService \<Rightarrow> NetworkService" where
  "prune_stale_peers now s =
     s\<lparr>ns_peers := map (\<lambda>p. if sp_valid p \<and> now - sp_last_seen_ms p > PEER_TIMEOUT_MS then p\<lparr>sp_valid := False\<rparr> else p) (ns_peers s)\<rparr>"

text \<open>A scan: the services the iterator yields, each with the time it is entered, and the time of the pruning.\<close>

definition discover_peers :: "(service_config \<times> int) list \<Rightarrow> int \<Rightarrow> NetworkService \<Rightarrow> NetworkService" where
  "discover_peers services now s = prune_stale_peers now (fold discover_one services s)"

definition get_eui_from_ip :: "ip6 \<Rightarrow> NetworkService \<Rightarrow> u64 option" where
  "get_eui_from_ip ip_addr s =
     map_option (\<lambda>i. sp_eui (ns_peers s ! i)) (find_index (\<lambda>p. sp_valid p \<and> sp_addr p = ip_addr) (ns_peers s))"

definition get_addr_from_eui :: "u64 \<Rightarrow> NetworkService \<Rightarrow> ip6 option" where
  "get_addr_from_eui eui s =
     map_option (\<lambda>i. sp_addr (ns_peers s ! i)) (find_index (\<lambda>p. sp_valid p \<and> sp_eui p = eui) (ns_peers s))"

definition get_active_peers :: "NetworkService \<Rightarrow> ServicePeer list" where
  "get_active_peers s = filter sp_valid (ns_peers s)"

section \<open>The table keeps the slot discipline\<close>

abbreviation directory_ok :: "ServicePeer list \<Rightarrow> bool" where
  "directory_ok \<equiv> table_ok sp_valid sp_eui SERVICE_MAX_PEERS"

abbreviation directory_find :: "u64 \<Rightarrow> ServicePeer list \<Rightarrow> nat option" where
  "directory_find \<equiv> table_find sp_valid sp_eui"

lemma claim_cases:
  assumes "find_or_create_peer eui peers = Some (i, peers')"
  obtains "directory_find eui peers = Some i" "peers' = peers"
  | "directory_find eui peers = None" "i < length peers" "\<not> sp_valid (peers ! i)"
    "peers' = peers[i := (peers ! i)\<lparr>sp_eui := eui, sp_valid := True\<rparr>]"
proof (cases "directory_find eui peers")
  case None
  then obtain j where "find_index (\<lambda>p. \<not> sp_valid p) peers = Some j"
    using assms by (auto simp: find_or_create_peer_def table_find_def split: option.splits)
  with None assms that(2) show thesis
    using find_index_SomeD [of "\<lambda>p. \<not> sp_valid p" peers j] by (auto simp: find_or_create_peer_def table_find_def)
next
  case (Some j)
  then have "j = i" "peers' = peers"
    using assms by (simp_all add: find_or_create_peer_def table_find_def)
  with Some that(1) show thesis
    by blast
qed

lemma claim_enters:
  assumes "directory_ok peers" and "find_or_create_peer eui peers = Some (i, peers')"
  shows "directory_ok peers' \<and> directory_find eui peers' = Some i \<and> (\<forall>k. k \<noteq> eui \<longrightarrow> directory_find k peers' = directory_find k peers)"
  using assms(2)
proof (cases rule: claim_cases)
  case 1
  with assms(1) show ?thesis
    by simp
next
  case 2
  have len: "length peers = SERVICE_MAX_PEERS"
    using assms(1) by (simp add: table_ok_def)
  note enter = table_enter [OF assms(1), of i "(peers ! i)\<lparr>sp_eui := eui, sp_valid := True\<rparr>"]
  have "directory_ok peers'" "(\<lambda>k. directory_find k peers') = (\<lambda>k. directory_find k peers)(eui \<mapsto> i)"
    using enter 2 len by simp_all
  then show ?thesis
    by (metis fun_upd_apply)
qed

interpretation directory: slot_table directory_find find_or_create_peer directory_ok SERVICE_MAX_PEERS
proof unfold_locales
  fix peers peers' k k' i
  assume ok: "directory_ok peers"
  show "directory_find k peers = Some i \<Longrightarrow> find_or_create_peer k peers = Some (i, peers)"
    by (simp add: find_or_create_peer_def table_find_def)
  show "directory_find k peers = Some i \<Longrightarrow> directory_find k' peers = Some i \<Longrightarrow> k = k'" "directory_find k peers = Some i \<Longrightarrow> i < SERVICE_MAX_PEERS"
    using table_find_Some_iff [OF ok] by auto
  assume c: "find_or_create_peer k peers = Some (i, peers')"
  show "directory_ok peers' \<and> directory_find k peers' = Some i" "k' \<noteq> k \<Longrightarrow> directory_find k' peers' = directory_find k' peers"
    using claim_enters [OF ok c] by auto
qed

section \<open>What the table knows was advertised\<close>

text \<open>An advertisement of another node's identifier and address, seen at a time.\<close>

definition advertises :: "u64 \<Rightarrow> ServicePeer \<Rightarrow> service_config \<times> int \<Rightarrow> bool" where
  "advertises own p seen \<longleftrightarrow> svc_enterprise_number (fst seen) = RAFT_SERVICE_ENTERPRISE_NUMBER \<and>
     length (svc_service_data (fst seen)) = 8 \<and> rdU64LE (svc_service_data (fst seen)) 0 = sp_eui p \<and> sp_eui p \<noteq> own \<and>
     take 16 (svc_server_data (fst seen)) = sp_addr p \<and> snd seen = sp_last_seen_ms p"

definition directory_inv :: "u64 \<Rightarrow> (service_config \<times> int) set \<Rightarrow> NetworkService \<Rightarrow> bool" where
  "directory_inv own seen s \<longleftrightarrow> directory_ok (ns_peers s) \<and> ns_eui s = own \<and>
     (\<forall>p \<in> set (ns_peers s). sp_valid p \<longrightarrow> (\<exists>v \<in> seen. advertises own p v))"

lemma table_ok_rewrite:
  assumes "directory_ok peers" and "sp_eui q = sp_eui (peers ! i)" and "sp_valid q = sp_valid (peers ! i)" and "i < SERVICE_MAX_PEERS"
  shows "directory_ok (peers[i := q])"
proof (rule table_okI)
  show "length (peers[i := q]) = SERVICE_MAX_PEERS"
    using assms(1) by (simp add: table_ok_def)
  fix j k
  assume "j < SERVICE_MAX_PEERS" "k < SERVICE_MAX_PEERS" "sp_valid (peers[i := q] ! j)" "sp_valid (peers[i := q] ! k)"
    "sp_eui (peers[i := q] ! j) = sp_eui (peers[i := q] ! k)"
  then show "j = k"
    using assms table_ok_inj [OF assms(1), of j k] by (metis list_update_beyond not_less nth_list_update_eq nth_list_update_neq)
qed

lemma discover_one_inv:
  assumes "directory_inv own seen s"
  shows "directory_inv own (insert v seen) (discover_one v s)"
proof -
  obtain service now where v: "v = (service, now)"
    by (cases v)
  have weak: "directory_inv own (insert v seen) s"
    using assms by (auto simp: directory_inv_def)
  let ?eui = "rdU64LE (svc_service_data service) 0"
  show ?thesis
  proof (cases "svc_enterprise_number service \<noteq> RAFT_SERVICE_ENTERPRISE_NUMBER \<or> length (svc_service_data service) \<noteq> 8 \<or>
      ?eui = ns_eui s \<or> find_or_create_peer ?eui (ns_peers s) = None")
    case True
    then have "discover_one v s = s"
      by (auto simp: discover_one_def v Let_def)
    with weak show ?thesis
      by simp
  next
    case False
    then obtain i peers where c: "find_or_create_peer ?eui (ns_peers s) = Some (i, peers)"
      by auto
    define q where "q = (peers ! i)\<lparr>sp_addr := take 16 (svc_server_data service), sp_last_seen_ms := now\<rparr>"
    have upd: "discover_one v s = s\<lparr>ns_peers := peers[i := q]\<rparr>"
      using False c by (simp add: discover_one_def v q_def)
    have ok: "directory_ok (ns_peers s)" and own: "ns_eui s = own"
      using assms by (simp_all add: directory_inv_def)
    have peers: "directory_ok peers" "i < SERVICE_MAX_PEERS" "sp_valid (peers ! i)" "sp_eui (peers ! i) = ?eui"
      using claim_enters [OF ok c] table_find_Some_iff [of sp_valid sp_eui SERVICE_MAX_PEERS peers ?eui i] by auto
    have len: "length peers = SERVICE_MAX_PEERS"
      using peers(1) by (simp add: table_ok_def)
    have other: "p \<in> set (ns_peers s)" if "j < length peers" "j \<noteq> i" "p = peers ! j" for p j
      using c that by (cases rule: claim_cases) (simp_all add: nth_mem)
    have "\<exists>w \<in> insert v seen. advertises own p w" if "p \<in> set (peers[i := q])" "sp_valid p" for p
    proof (cases "p = q")
      case True
      then have "advertises own p v"
        using False peers(4) own by (simp add: advertises_def v q_def)
      then show ?thesis
        by blast
    next
      case False
      then have "p \<in> set (ns_peers s)"
        using that(1) len peers(2) other by (auto simp: set_nth_update_iff)
      with assms that(2) show ?thesis
        by (auto simp: directory_inv_def)
    qed
    moreover have "directory_ok (peers[i := q])"
      using table_ok_rewrite [OF peers(1) _ _ peers(2)] by (simp add: q_def)
    ultimately show ?thesis
      using upd own by (simp add: directory_inv_def)
  qed
qed

lemma fold_discover_inv: "directory_inv own seen s \<Longrightarrow> directory_inv own (set vs \<union> seen) (fold discover_one vs s)"
proof (induction vs arbitrary: seen s)
  case (Cons v vs)
  then show ?case
    using discover_one_inv [of own seen s v] by (metis Un_insert_left Un_insert_right fold_simps(2) list.simps(15))
qed simp

lemma prune_inv:
  assumes "directory_inv own seen s"
  shows "directory_inv own seen (prune_stale_peers now s)"
    and "p \<in> set (ns_peers (prune_stale_peers now s)) \<Longrightarrow> sp_valid p \<Longrightarrow> now - sp_last_seen_ms p \<le> PEER_TIMEOUT_MS"
proof -
  let ?f = "\<lambda>p. if sp_valid p \<and> now - sp_last_seen_ms p > PEER_TIMEOUT_MS then p\<lparr>sp_valid := False\<rparr> else p"
  have "distinct (map sp_eui (filter sp_valid ps)) \<Longrightarrow> distinct (map sp_eui (filter sp_valid (map ?f ps))) \<and>
      set (map sp_eui (filter sp_valid (map ?f ps))) \<subseteq> set (map sp_eui (filter sp_valid ps))" for ps
    by (induction ps) (auto split: if_splits)
  then have "directory_ok (map ?f (ns_peers s))"
    using assms by (auto simp: directory_inv_def table_ok_def)
  then show "directory_inv own seen (prune_stale_peers now s)"
    using assms by (auto simp: directory_inv_def prune_stale_peers_def split: if_splits)
  show "p \<in> set (ns_peers (prune_stale_peers now s)) \<Longrightarrow> sp_valid p \<Longrightarrow> now - sp_last_seen_ms p \<le> PEER_TIMEOUT_MS"
    by (auto simp: prune_stale_peers_def split: if_splits)
qed

lemma discover_peers_inv:
  assumes "directory_inv own seen s"
  shows "directory_inv own (set services \<union> seen) (discover_peers services now s)"
    and "p \<in> set (ns_peers (discover_peers services now s)) \<Longrightarrow> sp_valid p \<Longrightarrow> now - sp_last_seen_ms p \<le> PEER_TIMEOUT_MS"
  using prune_inv [OF fold_discover_inv [OF assms, of services], where now = now] by (simp_all add: discover_peers_def)

lemma new_directory_inv: "directory_inv own {} (new_network_service own)"
  by (simp add: directory_inv_def new_network_service_def table_ok_def)

lemma scans_inv:
  "directory_inv own seen s \<Longrightarrow>
   directory_inv own (\<Union> (set ` fst ` set scans) \<union> seen) (fold (\<lambda>(services, now). discover_peers services now) scans s)"
proof (induction scans arbitrary: seen s)
  case (Cons scan scans)
  obtain services now where scan: "scan = (services, now)"
    by (cases scan)
  from Cons.IH [OF discover_peers_inv(1) [OF Cons.prems, of services now]] show ?case
    by (simp add: scan Un_ac)
qed simp

section \<open>Properties\<close>

text \<open>
  C24. After any scans the directory holds at most three nodes, no node twice and never this node
  itself, and an address it resolves was advertised for exactly that identifier in an entry seen
  at most two seconds before the last pruning.
\<close>

theorem directory_is_current:
  assumes "s = fold (\<lambda>(services, now). discover_peers services now) (scans @ [(services, now)]) (new_network_service own)"
    and "get_addr_from_eui eui s = Some addr"
  shows "distinct (map sp_eui (get_active_peers s)) \<and> length (get_active_peers s) \<le> SERVICE_MAX_PEERS \<and> eui \<noteq> own \<and>
    (\<exists>service t. (service, t) \<in> \<Union> (set ` fst ` set (scans @ [(services, now)])) \<and> now - t \<le> PEER_TIMEOUT_MS \<and>
      svc_enterprise_number service = RAFT_SERVICE_ENTERPRISE_NUMBER \<and> rdU64LE (svc_service_data service) 0 = eui \<and>
      take 16 (svc_server_data service) = addr)"
proof -
  define s0 where "s0 = fold (\<lambda>(services, now). discover_peers services now) scans (new_network_service own)"
  have s: "s = discover_peers services now s0"
    by (simp add: assms(1) s0_def)
  have inv0: "directory_inv own (\<Union> (set ` fst ` set scans)) s0"
    using scans_inv [OF new_directory_inv, of own scans] by (simp add: s0_def)
  note inv = discover_peers_inv [OF inv0, where services = services and now = now, folded s]
  obtain p where p: "p \<in> set (ns_peers s)" "sp_valid p" "sp_eui p = eui" "sp_addr p = addr"
    using assms(2) by (auto simp: get_addr_from_eui_def find_index_Some_iff dest: nth_mem)
  then have "\<exists>v \<in> set services \<union> \<Union> (set ` fst ` set scans). advertises own p v"
    using inv(1) by (simp add: directory_inv_def)
  then obtain service t where v: "(service, t) \<in> set services \<union> \<Union> (set ` fst ` set scans)" "advertises own p (service, t)"
    by (metis prod.exhaust)
  have ok: "directory_ok (ns_peers s)"
    using inv(1) by (simp add: directory_inv_def)
  then have "distinct (map sp_eui (get_active_peers s))" "length (get_active_peers s) \<le> SERVICE_MAX_PEERS"
    using length_filter_le [of sp_valid "ns_peers s"] by (simp_all add: table_ok_def get_active_peers_def)
  moreover have "(service, t) \<in> \<Union> (set ` fst ` set (scans @ [(services, now)]))" "eui \<noteq> own" "now - t \<le> PEER_TIMEOUT_MS"
    using v p inv(2) [OF p(1,2)] by (auto simp: advertises_def)
  ultimately show ?thesis
    using v(2) p by (auto simp: advertises_def)
qed

text \<open>A node whose service entry is scanned is found at its address when there is room for it.\<close>

lemma advertised_node_is_found:
  assumes "directory_ok (ns_peers s)" and "eui \<noteq> ns_eui s" and "length addr = 16"
    and "find_or_create_peer eui (ns_peers s) \<noteq> None"
  shows "get_addr_from_eui eui (discover_one (local_service eui addr, now) s) = Some addr"
proof -
  obtain i peers where c: "find_or_create_peer eui (ns_peers s) = Some (i, peers)"
    using assms(4) by auto
  have peers: "directory_ok peers" "i < SERVICE_MAX_PEERS" "sp_valid (peers ! i)" "sp_eui (peers ! i) = eui"
    using claim_enters [OF assms(1) c] table_find_Some_iff [of sp_valid sp_eui SERVICE_MAX_PEERS peers eui i] by auto
  define q where "q = (peers ! i)\<lparr>sp_addr := addr, sp_last_seen_ms := now\<rparr>"
  have len: "length peers = SERVICE_MAX_PEERS"
    using peers(1) by (simp add: table_ok_def)
  have "rdU64LE (le64 eui) 0 = eui"
    using rd64 [of "[]" eui "[]"] by simp
  then have "discover_one (local_service eui addr, now) s = s\<lparr>ns_peers := peers[i := q]\<rparr>"
    using assms(2,3) c by (simp add: discover_one_def local_service_def q_def)
  moreover have "directory_find eui (peers[i := q]) = Some i"
    using table_find_Some_iff [OF table_ok_rewrite [OF peers(1) _ _ peers(2), of q]] peers len by (simp add: q_def)
  ultimately show ?thesis
    using peers(2) len by (simp add: get_addr_from_eui_def table_find_def [symmetric] q_def)
qed

definition demo_services :: "(service_config \<times> int) list" where
  "demo_services = [(local_service 7 (replicate 16 1), 1000), (local_service 9 (replicate 16 2), 1001)]"

lemma demo_directory:
  "get_addr_from_eui 9 (fold (\<lambda>(services, now). discover_peers services now) ([] @ [(demo_services, 1002)]) (new_network_service 7)) =
    Some (replicate 16 2)"
proof -
  have "get_addr_from_eui 9 (prune_stale_peers 1002 (fold discover_one demo_services (new_network_service 7))) = Some (replicate 16 2)"
    by code_simp
  then show ?thesis
    by (simp add: discover_peers_def)
qed

theorem directory_is_current_witness:
  "\<exists>service t. (service, t) \<in> set demo_services \<and> 1002 - t \<le> PEER_TIMEOUT_MS \<and> rdU64LE (svc_service_data service) 0 = 9"
  using directory_is_current [OF refl demo_directory] by auto

end
