(* ===== verification/Memory_Image.thy ===== *)
theory Memory_Image
  imports Lora_Protocol Raft_Server
begin

text \<open>
  The structures of the firmware as bytes. Batches and egress records travel through the
  replicated log, the messages of the consensus protocol through signed envelopes; both are copied
  with \<^verbatim>\<open>memcpy\<close>. \<open>memory_image\<close> is what a copy promises, and each structure is shown to keep it.
\<close>

text \<open>
  The code copies structures byte by byte into log entries and back. The targets are
  little-endian, the members are laid out at their natural alignment and the bytes in between hold
  anything, the first argument of a store.
\<close>

locale memory_image =
  fixes store :: "u8 list \<Rightarrow> 'a \<Rightarrow> u8 list" and load :: "u8 list \<Rightarrow> 'a" and storable :: "u8 list \<Rightarrow> 'a \<Rightarrow> bool" and sizeof :: nat
  assumes length_store: "storable pad x \<Longrightarrow> length (store pad x) = sizeof"
    and load_store: "storable pad x \<Longrightarrow> load (store pad x @ rest) = x"

text \<open>The structures that travel as the data of a log entry.\<close>

locale entry_image = memory_image +
  assumes fits_entry: "sizeof \<le> MAX_ENTRY_DATA"
begin

text \<open>A value submitted to the log is the value read back from its entry.\<close>

lemma entry_image:
  assumes "storable pad x"
  shows "load (e_data (submit_entry type (store pad x) s)) = x"
    and "unat (e_data_len (submit_entry type (store pad x) s)) = sizeof"
    and "length (e_data (submit_entry type (store pad x) s)) = MAX_ENTRY_DATA"
  using length_store [OF assms] load_store [OF assms] fits_entry
  by (simp_all add: submit_entry_def unat_of_nat_small MAX_ENTRY_DATA_def)

end

section \<open>Reading at an offset\<close>

text \<open>A reader at an offset reads the list from there on, so the simplifier can walk along a layout.\<close>

lemma rd_at:
  "i + 2 \<le> length b \<Longrightarrow> rdU16LE b i = rdU16LE (drop i b) 0" "i + 4 \<le> length b \<Longrightarrow> rdU32LE b i = rdU32LE (drop i b) 0"
  "i + 8 \<le> length b \<Longrightarrow> rdU64LE b i = rdU64LE (drop i b) 0" "i < length b \<Longrightarrow> b ! i = hd (drop i b)"
  by (simp_all add: rdU16LE_def rdU32LE_def rdU64LE_def hd_drop_conv_nth add.commute add.left_commute)

lemmas rd_numeral = rd_at [of "numeral k" for k]

lemma rd_hd [simp]: "rdU16LE (le16 a @ ys) 0 = a" "rdU32LE (le32 b @ ys) 0 = b" "rdU64LE (le64 c @ ys) 0 = c"
  using rd16 [of "[]" a] rd32 [of "[]" b] rd64 [of "[]" c] by simp_all

section \<open>Batches of readings\<close>

definition SIZEOF_WIRE :: nat where [config_defs]: "SIZEOF_WIRE = 24"
definition SIZEOF_BATCH :: nat where [config_defs]: "SIZEOF_BATCH = 80"

definition store_wire :: "SensorReadingWire \<Rightarrow> u8 list" where
  "store_wire w = le64 (w_eui w) @ le64 (w_timestamp w) @ le16 (w_water_level_mm w) @ [w_validity w] @ [w_detail w] @ le32 (w_seq w)"

definition load_wire :: "u8 list \<Rightarrow> nat \<Rightarrow> SensorReadingWire" where
  "load_wire b i = \<lparr>w_eui = rdU64LE b i, w_timestamp = rdU64LE b (i + 8), w_water_level_mm = rdU16LE b (i + 16),
     w_validity = b ! (i + 18), w_detail = b ! (i + 19), w_seq = rdU32LE b (i + 20)\<rparr>"

definition store_batch :: "u8 list \<Rightarrow> SensorBatch \<Rightarrow> u8 list" where
  "store_batch pad b = concat (map store_wire (sb_entries b)) @ [sb_count b] @ [if sb_alert_active b then 1 else 0] @ pad"

definition load_batch :: "u8 list \<Rightarrow> SensorBatch" where
  "load_batch b = \<lparr>sb_entries = map (\<lambda>i. load_wire b (i * SIZEOF_WIRE)) [0..<MAX_SENSORS],
     sb_count = b ! (MAX_SENSORS * SIZEOF_WIRE), sb_alert_active = (b ! (MAX_SENSORS * SIZEOF_WIRE + 1) \<noteq> 0)\<rparr>"

definition storable_batch :: "u8 list \<Rightarrow> SensorBatch \<Rightarrow> bool" where
  "storable_batch pad b \<longleftrightarrow> length (sb_entries b) = MAX_SENSORS \<and> length pad = 6"

lemma length_store_wire [simp]: "length (store_wire w) = 24"
  by (simp add: store_wire_def)

lemma load_store_wire: "load_wire (xs @ store_wire w @ ys) (length xs) = w"
proof -
  have "rdU64LE (xs @ store_wire w @ ys) (length xs) = w_eui w"
    using rd64 [of xs "w_eui w"] by (simp add: store_wire_def)
  moreover have "rdU64LE (xs @ store_wire w @ ys) (length xs + 8) = w_timestamp w"
    using rd64 [of "xs @ le64 (w_eui w)" "w_timestamp w"] by (simp add: store_wire_def)
  moreover have "rdU16LE (xs @ store_wire w @ ys) (length xs + 16) = w_water_level_mm w"
    using rd16 [of "xs @ le64 (w_eui w) @ le64 (w_timestamp w)" "w_water_level_mm w"] by (simp add: store_wire_def add.assoc)
  moreover have "rdU32LE (xs @ store_wire w @ ys) (length xs + 20) = w_seq w"
    using rd32 [of "xs @ le64 (w_eui w) @ le64 (w_timestamp w) @ le16 (w_water_level_mm w) @ [w_validity w] @ [w_detail w]" "w_seq w"]
    by (simp add: store_wire_def add.assoc)
  moreover have "(xs @ store_wire w @ ys) ! (length xs + 18) = w_validity w" "(xs @ store_wire w @ ys) ! (length xs + 19) = w_detail w"
    by (simp_all add: store_wire_def nth_append)
  ultimately show ?thesis
    by (simp add: load_wire_def)
qed

lemma load_store_batch:
  assumes "storable_batch pad b"
  shows "load_batch (store_batch pad b @ rest) = b"
proof -
  obtain w0 w1 w2 where es: "sb_entries b = [w0, w1, w2]"
    using assms by (auto simp: storable_batch_def MAX_SENSORS_def length_Suc_conv numeral_eq_Suc)
  let ?b = "store_batch pad b @ rest"
  have "load_wire ?b 0 = w0"
    using load_store_wire [of "[]" w0] by (simp add: store_batch_def es)
  moreover have "load_wire ?b 24 = w1"
    using load_store_wire [of "store_wire w0" w1] by (simp add: store_batch_def es)
  moreover have "load_wire ?b 48 = w2"
    using load_store_wire [of "store_wire w0 @ store_wire w1" w2] by (simp add: store_batch_def es)
  moreover have "?b ! 72 = sb_count b" "?b ! 73 = (if sb_alert_active b then 1 else 0)"
    by (simp_all add: store_batch_def es nth_append)
  moreover have "[0..<MAX_SENSORS] = [0, 1, 2]"
    by (simp add: MAX_SENSORS_def upt_rec)
  ultimately show ?thesis
    by (simp add: load_batch_def es SIZEOF_WIRE_def MAX_SENSORS_def)
qed

interpretation batch: entry_image store_batch load_batch storable_batch SIZEOF_BATCH
proof unfold_locales
  fix pad :: "u8 list" and b :: SensorBatch and rest :: "u8 list"
  assume b: "storable_batch pad b"
  then show "load_batch (store_batch pad b @ rest) = b"
    by (rule load_store_batch)
  have "length (concat (map store_wire ws)) = 24 * length ws" for ws
    by (induction ws) simp_all
  with b show "length (store_batch pad b) = SIZEOF_BATCH"
    by (simp add: store_batch_def storable_batch_def MAX_SENSORS_def SIZEOF_BATCH_def)
qed (simp add: config_defs)

text \<open>A signed reading: the reading and 64 bytes of signature, without padding.\<close>

definition SIZEOF_SIGNED :: nat where [config_defs]: "SIZEOF_SIGNED = 88"

definition store_signed :: "u8 list \<Rightarrow> SensorReadingSigned \<Rightarrow> u8 list" where
  "store_signed pad m = store_wire (sg_reading m) @ sg_signature m"

definition load_signed :: "u8 list \<Rightarrow> SensorReadingSigned" where
  "load_signed b = \<lparr>sg_reading = load_wire b 0, sg_signature = take 64 (drop SIZEOF_WIRE b)\<rparr>"

interpretation signed: memory_image store_signed load_signed "\<lambda>_ m. length (sg_signature m) = 64" SIZEOF_SIGNED
proof unfold_locales
  fix pad rest :: "u8 list" and m :: SensorReadingSigned
  assume "length (sg_signature m) = 64"
  then show "length (store_signed pad m) = SIZEOF_SIGNED" "load_signed (store_signed pad m @ rest) = m"
    using load_store_wire [of "[]" "sg_reading m"] by (simp_all add: store_signed_def load_signed_def SIZEOF_SIGNED_def SIZEOF_WIRE_def)
qed

section \<open>The RPC structures\<close>

definition bool_byte :: "bool \<Rightarrow> u8" where
  "bool_byte x = (if x then 1 else 0)"

lemma bool_byte [simp]: "bool_byte x = 0 \<longleftrightarrow> \<not> x"
  by (simp add: bool_byte_def)

definition store_request_vote :: "u8 list \<Rightarrow> RequestVote \<Rightarrow> u8 list" where
  "store_request_vote pad r = le64 (rv_term r) @ le64 (rv_candidate_id r) @ le64 (rv_last_log_index r) @
     le64 (rv_last_log_term r) @ [bool_byte (rv_pre_vote r)] @ pad"

definition load_request_vote :: "u8 list \<Rightarrow> RequestVote" where
  "load_request_vote b = \<lparr>rv_term = rdU64LE b 0, rv_candidate_id = rdU64LE b 8, rv_last_log_index = rdU64LE b 16,
     rv_last_log_term = rdU64LE b 24, rv_pre_vote = (b ! 32 \<noteq> 0)\<rparr>"

definition store_vote_resp :: "u8 list \<Rightarrow> RequestVoteResp \<Rightarrow> u8 list" where
  "store_vote_resp pad r = le64 (rvr_term r) @ [bool_byte (rvr_vote_granted r)] @ [bool_byte (rvr_pre_vote r)] @ pad"

definition load_vote_resp :: "u8 list \<Rightarrow> RequestVoteResp" where
  "load_vote_resp b = \<lparr>rvr_term = rdU64LE b 0, rvr_vote_granted = (b ! 8 \<noteq> 0), rvr_pre_vote = (b ! 9 \<noteq> 0)\<rparr>"

definition store_append_resp :: "u8 list \<Rightarrow> AppendEntriesResp \<Rightarrow> u8 list" where
  "store_append_resp pad r = le64 (aer_term r) @ [bool_byte (aer_success r)] @ pad @ le64 (aer_conflict_index r) @
     le64 (aer_conflict_term r) @ le64 (aer_last_log_index r)"

definition load_append_resp :: "u8 list \<Rightarrow> AppendEntriesResp" where
  "load_append_resp b = \<lparr>aer_term = rdU64LE b 0, aer_success = (b ! 8 \<noteq> 0), aer_conflict_index = rdU64LE b 16,
     aer_conflict_term = rdU64LE b 24, aer_last_log_index = rdU64LE b 32\<rparr>"

definition store_snapshot :: "u8 list \<Rightarrow> InstallSnapshot \<Rightarrow> u8 list" where
  "store_snapshot pad r = le64 (is_term r) @ le64 (is_leader_id r) @ le64 (is_last_included_index r) @
     le64 (is_last_included_term r) @ le32 (is_offset r) @ le32 (is_total_len r) @ le16 (is_data_len r) @
     [bool_byte (is_done r)] @ is_data r @ pad"

definition load_snapshot :: "u8 list \<Rightarrow> InstallSnapshot" where
  "load_snapshot b = \<lparr>is_term = rdU64LE b 0, is_leader_id = rdU64LE b 8, is_last_included_index = rdU64LE b 16,
     is_last_included_term = rdU64LE b 24, is_offset = rdU32LE b 32, is_total_len = rdU32LE b 36,
     is_data_len = rdU16LE b 40, is_done = (b ! 42 \<noteq> 0), is_data = take SNAPSHOT_CHUNK (drop 43 b)\<rparr>"

definition store_snapshot_resp :: "u8 list \<Rightarrow> InstallSnapshotResp \<Rightarrow> u8 list" where
  "store_snapshot_resp pad r = le64 (isr_term r) @ le64 (isr_last_included_index r)"

definition load_snapshot_resp :: "u8 list \<Rightarrow> InstallSnapshotResp" where
  "load_snapshot_resp b = \<lparr>isr_term = rdU64LE b 0, isr_last_included_index = rdU64LE b 8\<rparr>"

interpretation request_vote: memory_image store_request_vote load_request_vote "\<lambda>pad _. length pad = 7" 40
  by unfold_locales (simp_all add: store_request_vote_def load_request_vote_def rd_numeral)

interpretation vote_resp: memory_image store_vote_resp load_vote_resp "\<lambda>pad _. length pad = 6" 16
  by unfold_locales (simp_all add: store_vote_resp_def load_vote_resp_def rd_numeral)

interpretation append_resp: memory_image store_append_resp load_append_resp "\<lambda>pad _. length pad = 7" 40
  by unfold_locales (simp_all add: store_append_resp_def load_append_resp_def rd_numeral)

interpretation install_snapshot: memory_image store_snapshot load_snapshot
    "\<lambda>pad r. length pad = 5 \<and> length (is_data r) = SNAPSHOT_CHUNK" 304
  by unfold_locales (simp_all add: store_snapshot_def load_snapshot_def rd_numeral SNAPSHOT_CHUNK_def)

interpretation snapshot_resp: memory_image store_snapshot_resp load_snapshot_resp "\<lambda>_ _. True" 16
  by unfold_locales (simp_all add: store_snapshot_resp_def load_snapshot_resp_def rd_numeral)

section \<open>Log entries and AppendEntries\<close>

text \<open>
  An entry has a padding byte before its length and four at its end, the message six before its
  array of \<^verbatim>\<open>MAX_APPEND_ENTRIES\<close> entries.
\<close>

definition SIZEOF_ENTRY :: nat where [config_defs]: "SIZEOF_ENTRY = 120"
definition SIZEOF_APPEND :: nat where [config_defs]: "SIZEOF_APPEND = 1008"

fun type_byte :: "EntryType \<Rightarrow> u8" where
  "type_byte NOOP = 0"
| "type_byte SENSOR_DATA = 1"
| "type_byte EGRESS_MSG = 2"
| "type_byte (UNNAMED b) = b"

definition byte_type :: "u8 \<Rightarrow> EntryType" where
  "byte_type b = (if b = 0 then NOOP else if b = 1 then SENSOR_DATA else if b = 2 then EGRESS_MSG else UNNAMED b)"

fun valid_type :: "EntryType \<Rightarrow> bool" where
  "valid_type (UNNAMED b) \<longleftrightarrow> 2 < b"
| "valid_type _ \<longleftrightarrow> True"

lemma byte_type_type_byte [simp]: "valid_type t \<Longrightarrow> byte_type (type_byte t) = t"
  by (cases t) (auto simp: byte_type_def)

definition store_entry :: "u8 list \<Rightarrow> Entry \<Rightarrow> u8 list" where
  "store_entry pad e = le64 (e_term e) @ le64 (e_index e) @ [type_byte (e_type e)] @ take 1 pad @ le16 (e_data_len e) @ e_data e @ drop 1 pad"

definition load_entry :: "u8 list \<Rightarrow> Entry" where
  "load_entry b = \<lparr>e_term = rdU64LE b 0, e_index = rdU64LE b 8, e_type = byte_type (b ! 16), e_data_len = rdU16LE b 18,
     e_data = take MAX_ENTRY_DATA (drop 20 b)\<rparr>"

definition storable_entry :: "Entry \<Rightarrow> bool" where
  "storable_entry e \<longleftrightarrow> length (e_data e) = MAX_ENTRY_DATA \<and> valid_type (e_type e)"

fun store_entries :: "u8 list \<Rightarrow> Entry list \<Rightarrow> u8 list" where
  "store_entries pad [] = []"
| "store_entries pad (e # es) = store_entry (take 5 pad) e @ store_entries (drop 5 pad) es"

primrec load_entries :: "nat \<Rightarrow> u8 list \<Rightarrow> Entry list" where
  "load_entries 0 b = []"
| "load_entries (Suc n) b = load_entry b # load_entries n (drop SIZEOF_ENTRY b)"

definition store_append :: "u8 list \<Rightarrow> AppendEntries \<Rightarrow> u8 list" where
  "store_append pad r = le64 (ae_term r) @ le64 (ae_leader_id r) @ le64 (ae_prev_log_index r) @ le64 (ae_prev_log_term r) @
     le64 (ae_leader_commit r) @ le16 (ae_n_entries r) @ take 6 pad @ store_entries (drop 6 pad) (ae_entries r)"

definition load_append :: "u8 list \<Rightarrow> AppendEntries" where
  "load_append b = \<lparr>ae_term = rdU64LE b 0, ae_leader_id = rdU64LE b 8, ae_prev_log_index = rdU64LE b 16,
     ae_prev_log_term = rdU64LE b 24, ae_leader_commit = rdU64LE b 32, ae_n_entries = rdU16LE b 40,
     ae_entries = load_entries MAX_APPEND_ENTRIES (drop 48 b)\<rparr>"

definition storable_append :: "AppendEntries \<Rightarrow> bool" where
  "storable_append r \<longleftrightarrow> length (ae_entries r) = MAX_APPEND_ENTRIES \<and> list_all storable_entry (ae_entries r)"

interpretation log_entry: memory_image store_entry load_entry "\<lambda>pad e. length pad = 5 \<and> storable_entry e" SIZEOF_ENTRY
  by unfold_locales (simp_all add: store_entry_def load_entry_def storable_entry_def rd_numeral SIZEOF_ENTRY_def MAX_ENTRY_DATA_def)

lemma length_store_entries:
  "length pad = 5 * length es \<Longrightarrow> list_all storable_entry es \<Longrightarrow> length (store_entries pad es) = SIZEOF_ENTRY * length es"
  by (induction pad es rule: store_entries.induct) (simp_all add: log_entry.length_store)

lemma load_store_entries:
  "length pad = 5 * length es \<Longrightarrow> list_all storable_entry es \<Longrightarrow> load_entries (length es) (store_entries pad es @ rest) = es"
  by (induction pad es rule: store_entries.induct) (simp_all add: log_entry.length_store log_entry.load_store)

interpretation append_entries: memory_image store_append load_append "\<lambda>pad r. length pad = 46 \<and> storable_append r" SIZEOF_APPEND
proof unfold_locales
  fix pad rest :: "u8 list" and r
  assume a: "length pad = 46 \<and> storable_append r"
  then have l: "length (drop 6 pad) = 5 * length (ae_entries r)" "list_all storable_entry (ae_entries r)" "length (ae_entries r) = 8"
    by (simp_all add: storable_append_def MAX_APPEND_ENTRIES_def)
  from a length_store_entries [OF l(1,2)] l(3) show "length (store_append pad r) = SIZEOF_APPEND"
    by (simp add: store_append_def SIZEOF_APPEND_def SIZEOF_ENTRY_def)
  from a load_store_entries [OF l(1,2), of rest] l(3) show "load_append (store_append pad r @ rest) = r"
    by (simp add: store_append_def load_append_def rd_numeral MAX_APPEND_ENTRIES_def)
qed

end
