(* ===== verification/Raft_Coap.thy ===== *)
theory Raft_Coap
  imports Trusted_Devices Network_Service Memory_Image
begin

text \<open>
  The transport of the consensus messages, \<^verbatim>\<open>fog/src/raft/coap/coap.hpp\<close> and
  \<^verbatim>\<open>coap.cpp\<close>: a message is copied into an envelope with the sender's identifier
  and a signature, sent to the resource of its kind at the address the directory gives, and
  checked and unpacked there. The bytes of the structures are those of \<open>Memory_Image\<close>, with
  arbitrary padding \<open>pad\<close>.
\<close>

section \<open>Resources\<close>

definition RAFT_REQUEST_VOTE_URI :: string where "RAFT_REQUEST_VOTE_URI = ''raft/v''"
definition RAFT_VOTE_REPLY_URI :: string where "RAFT_VOTE_REPLY_URI = ''raft/vr''"
definition RAFT_APPEND_URI :: string where "RAFT_APPEND_URI = ''raft/a''"
definition RAFT_APPEND_RESPONSE_URI :: string where "RAFT_APPEND_RESPONSE_URI = ''raft/ar''"
definition RAFT_SNAP_URI :: string where "RAFT_SNAP_URI = ''raft/s''"
definition RAFT_SNAP_RESP_URI :: string where "RAFT_SNAP_RESP_URI = ''raft/sr''"

lemmas uri_defs = RAFT_REQUEST_VOTE_URI_def RAFT_VOTE_REPLY_URI_def RAFT_APPEND_URI_def RAFT_APPEND_RESPONSE_URI_def
  RAFT_SNAP_URI_def RAFT_SNAP_RESP_URI_def

definition SIG_LEN :: nat where [config_defs]: "SIG_LEN = 64"

definition ENVELOPE_LEN :: "nat \<Rightarrow> nat" where
  "ENVELOPE_LEN sizeof = 8 + 4 + sizeof + SIG_LEN"

section \<open>Sending\<close>

text \<open>The buffer starts as zeros; the length reserves four bytes that nothing is copied to.\<close>

definition envelope :: "u64 \<Rightarrow> bytes \<Rightarrow> bytes \<Rightarrow> bytes" where
  "envelope own_eui body sig = le64 own_eui @ body @ sig @ replicate (ENVELOPE_LEN (length body) - (8 + length body + length sig)) 0"

definition coap_put :: "'k Psa \<Rightarrow> u64 \<Rightarrow> bytes \<Rightarrow> 'k \<Rightarrow> TrustedDeviceStore \<Rightarrow> bytes option" where
  "coap_put psa own_eui body ks tds =
     (case sign psa ks tds body of
        Inl _ \<Rightarrow> None
      | Inr sig \<Rightarrow> Some (envelope own_eui body sig))"

fun rpc_image :: "(nat \<Rightarrow> bytes) \<Rightarrow> Payload \<Rightarrow> string \<times> bytes" where
  "rpc_image pad (PRequestVote r) = (RAFT_REQUEST_VOTE_URI, store_request_vote (pad 7) r)"
| "rpc_image pad (PRequestVoteResp r) = (RAFT_VOTE_REPLY_URI, store_vote_resp (pad 6) r)"
| "rpc_image pad (PAppendEntries r) = (RAFT_APPEND_URI, store_append (pad 46) r)"
| "rpc_image pad (PAppendEntriesResp r) = (RAFT_APPEND_RESPONSE_URI, store_append_resp (pad 7) r)"
| "rpc_image pad (PInstallSnapshot r) = (RAFT_SNAP_URI, store_snapshot (pad 5) r)"
| "rpc_image pad (PInstallSnapshotResp r) = (RAFT_SNAP_RESP_URI, store_snapshot_resp [] r)"

text \<open>The request put on the network: address, resource and buffer.\<close>

definition send_msg ::
    "'k Psa \<Rightarrow> (nat \<Rightarrow> bytes) \<Rightarrow> u64 \<Rightarrow> Message \<Rightarrow> NetworkService \<Rightarrow> 'k \<Rightarrow> TrustedDeviceStore \<Rightarrow> (ip6 \<times> string \<times> bytes) option" where
  "send_msg psa pad own_eui msg ns ks tds =
     (case get_addr_from_eui (msg_to msg) ns of
        None \<Rightarrow> None
      | Some addr \<Rightarrow>
          let (uri, body) = rpc_image pad (msg_payload msg)
          in map_option (\<lambda>buf. (addr, uri, buf)) (coap_put psa own_eui body ks tds))"

section \<open>Receiving\<close>

text \<open>The message handed to the engine, or \<open>None\<close> when it is dropped.\<close>

definition decode_response ::
    "'k Psa \<Rightarrow> nat \<Rightarrow> (bytes \<Rightarrow> Payload) \<Rightarrow> bool \<Rightarrow> bytes \<Rightarrow> 'k \<Rightarrow> TrustedDeviceStore \<Rightarrow> Message option" where
  "decode_response psa sizeof load_rpc resolve_peer buf ks tds =
     (if length buf \<noteq> ENVELOPE_LEN sizeof then None
      else let sender_eui = rdU64LE buf 0;
               payload_bytes = take sizeof (drop 8 buf);
               sig = take SIG_LEN (drop (8 + sizeof) buf)
           in if verify psa ks tds sender_eui payload_bytes sig \<noteq> PSA_SUCCESS then None
              else Some \<lparr>msg_from = (if resolve_peer then sender_eui else 0), msg_to = 0, msg_payload = load_rpc payload_bytes\<rparr>)"

text \<open>The handler of each resource, as \<open>init\<close> registers them.\<close>

definition on_request :: "'k Psa \<Rightarrow> string \<Rightarrow> bytes \<Rightarrow> 'k \<Rightarrow> TrustedDeviceStore \<Rightarrow> Message option" where
  "on_request psa uri =
     (if uri = RAFT_REQUEST_VOTE_URI then decode_response psa 40 (PRequestVote \<circ> load_request_vote) False
      else if uri = RAFT_VOTE_REPLY_URI then decode_response psa 16 (PRequestVoteResp \<circ> load_vote_resp) True
      else if uri = RAFT_APPEND_URI then decode_response psa SIZEOF_APPEND (PAppendEntries \<circ> load_append) False
      else if uri = RAFT_APPEND_RESPONSE_URI then decode_response psa 40 (PAppendEntriesResp \<circ> load_append_resp) True
      else if uri = RAFT_SNAP_URI then decode_response psa 304 (PInstallSnapshot \<circ> load_snapshot) False
      else if uri = RAFT_SNAP_RESP_URI then decode_response psa 16 (PInstallSnapshotResp \<circ> load_snapshot_resp) True
      else (\<lambda>_ _ _. None))"

section \<open>Envelopes\<close>

lemma length_envelope: "length sig = SIG_LEN \<Longrightarrow> length (envelope own p sig) = ENVELOPE_LEN (length p)"
  by (simp add: envelope_def ENVELOPE_LEN_def)

lemma decode_envelope:
  assumes "length sig = SIG_LEN" and "verify psa ks tds own p sig = PSA_SUCCESS" and "length p = n"
  shows "decode_response psa n load_rpc resolve (envelope own p sig) ks tds =
    Some \<lparr>msg_from = (if resolve then own else 0), msg_to = 0, msg_payload = load_rpc p\<rparr>"
proof -
  have "rdU64LE (envelope own p sig) 0 = own" "take n (drop 8 (envelope own p sig)) = p"
    "take SIG_LEN (drop (8 + n) (envelope own p sig)) = sig"
    using assms(1,3) by (simp_all add: envelope_def)
  then show ?thesis
    using assms(2,3) length_envelope [OF assms(1), of own p] by (simp add: decode_response_def)
qed

text \<open>The payloads that have an image: the arrays of the structure are filled.\<close>

fun sendable :: "Payload \<Rightarrow> bool" where
  "sendable (PAppendEntries r) \<longleftrightarrow> storable_append r"
| "sendable (PInstallSnapshot r) \<longleftrightarrow> length (is_data r) = SNAPSHOT_CHUNK"
| "sendable _ \<longleftrightarrow> True"

fun is_response :: "Payload \<Rightarrow> bool" where
  "is_response (PRequestVoteResp _) \<longleftrightarrow> True"
| "is_response (PAppendEntriesResp _) \<longleftrightarrow> True"
| "is_response (PInstallSnapshotResp _) \<longleftrightarrow> True"
| "is_response _ \<longleftrightarrow> False"

lemma request_of_image:
  assumes "sendable p" and "\<forall>n. length (pad n) = n" and "rpc_image pad p = (uri, b)"
    and "length sig = SIG_LEN" and "verify psa ks tds own b sig = PSA_SUCCESS"
  shows "on_request psa uri (envelope own b sig) ks tds =
    Some \<lparr>msg_from = (if is_response p then own else 0), msg_to = 0, msg_payload = p\<rparr>"
proof (cases p)
  case (PRequestVote r)
  then show ?thesis
    using assms decode_envelope [OF assms(4,5), of 40] request_vote.length_store [of "pad 7" r] request_vote.load_store [of "pad 7" r "[]"]
    by (auto simp: on_request_def uri_defs)
next
  case (PRequestVoteResp r)
  then show ?thesis
    using assms decode_envelope [OF assms(4,5), of 16] vote_resp.length_store [of "pad 6" r] vote_resp.load_store [of "pad 6" r "[]"]
    by (auto simp: on_request_def uri_defs)
next
  case (PAppendEntries r)
  then show ?thesis
    using assms decode_envelope [OF assms(4,5), of SIZEOF_APPEND] append_entries.length_store [of "pad 46" r] append_entries.load_store [of "pad 46" r "[]"]
    by (auto simp: on_request_def uri_defs)
next
  case (PAppendEntriesResp r)
  then show ?thesis
    using assms decode_envelope [OF assms(4,5), of 40] append_resp.length_store [of "pad 7" r] append_resp.load_store [of "pad 7" r "[]"]
    by (auto simp: on_request_def uri_defs)
next
  case (PInstallSnapshot r)
  then show ?thesis
    using assms decode_envelope [OF assms(4,5), of 304] install_snapshot.length_store [of "pad 5" r] install_snapshot.load_store [of "pad 5" r "[]"]
    by (auto simp: on_request_def uri_defs)
next
  case (PInstallSnapshotResp r)
  then show ?thesis
    using assms decode_envelope [OF assms(4,5), of 16] snapshot_resp.length_store [of "[]" r] snapshot_resp.load_store [of "[]" r "[]"]
    by (auto simp: on_request_def uri_defs)
qed

section \<open>What a server sends can be sent\<close>

text \<open>
  Every way into the log keeps its entries storable: an entry made from submitted data or at the start of
  a term, and an entry that arrived in a message of the right length, whatever its bytes. An AppendEntries
  that a server builds from such a log has an image.
\<close>

lemma submit_entry_storable: "valid_type type \<Longrightarrow> length data \<le> MAX_ENTRY_DATA \<Longrightarrow> storable_entry (submit_entry type data s)"
  by (simp add: storable_entry_def submit_entry_def)

lemma default_entry_storable: "storable_entry default_entry" "storable_entry e \<Longrightarrow> storable_entry (e\<lparr>e_index := i\<rparr>)"
  "storable_entry (default_entry\<lparr>e_term := t, e_index := i, e_type := NOOP, e_data_len := 0\<rparr>)"
  by (simp_all add: storable_entry_def default_entry_def)

lemma valid_byte_type: "valid_type (byte_type b)"
proof -
  have "2 < b" if "b \<noteq> 0" "b \<noteq> 1" "b \<noteq> 2"
    using that by (simp add: word_less_nat_alt word_unat_eq_iff)
  then show ?thesis
    by (simp add: byte_type_def)
qed

lemma load_entries_storable: "SIZEOF_ENTRY * n \<le> length b \<Longrightarrow> list_all storable_entry (load_entries n b) \<and> length (load_entries n b) = n"
  by (induction n arbitrary: b)
    (auto simp: load_entry_def storable_entry_def valid_byte_type SIZEOF_ENTRY_def MAX_ENTRY_DATA_def)

lemma received_append_storable: "length b = SIZEOF_APPEND \<Longrightarrow> storable_append (load_append b)"
  using load_entries_storable [of MAX_APPEND_ENTRIES "drop 48 b"]
  by (simp add: storable_append_def load_append_def SIZEOF_APPEND_def SIZEOF_ENTRY_def MAX_APPEND_ENTRIES_def)

lemma collect_entries_storable:
  "\<forall>e \<in> ran (at r). storable_entry e \<Longrightarrow> list_all storable_entry (collect_entries n r i) \<and> length (collect_entries n r i) \<le> n"
  by (induction n r i rule: collect_entries.induct) (auto simp: ran_def split: option.splits)

lemma sent_append_sendable:
  assumes "\<forall>e \<in> ran (at (m_log s)). storable_entry e" and "term_at (m_log s) prev \<noteq> None"
    and "prev = p_next_index peer - 1" and "\<not> p_is_self peer" and "\<not> prev < lr_base (m_log s)"
  shows "\<exists>msg. send_append_entries peer s = emit msg s \<and> msg_to msg = p_id peer \<and> sendable (msg_payload msg)"
proof -
  obtain prev_term where t: "term_at (m_log s) (p_next_index peer - 1) = Some prev_term"
    using assms(2,3) by auto
  show ?thesis
    using assms collect_entries_storable [OF assms(1), of MAX_APPEND_ENTRIES "p_next_index peer"] default_entry_storable(1)
    by (simp add: send_append_entries_def t Let_def) (rule exI, rule conjI, rule refl, auto simp: storable_append_def list_all_iff)
qed

section \<open>Properties\<close>

text \<open>
  C15. A consensus message of any of the six kinds, sent by a node with an initialised key store to
  a peer in its directory, is put to the peer's advertised address and handed to the engine of a
  peer that trusts the sender exactly as it was; a response carries the sender's authenticated
  identifier, a request none. PSA signs as documented, with signatures of 64 bytes.
\<close>

theorem raft_messages_round_trip:
  assumes "psa_keeps_keys psa key_of" and "psa_signs psa key_of pub"
    and "\<forall>ks k d sig. psa_sign_hash psa ks k d = (PSA_SUCCESS, sig) \<longrightarrow> length sig = SIG_LEN"
    and "store_init psa eui ks0 new_store = (PSA_SUCCESS, ksA, sA)" and "export_pubkey psa ksA sA = Inr pk"
    and "distinct (map dev_eui devs)" and "\<lparr>dev_eui = eui, dev_pub_key = pk\<rparr> \<in> set devs"
    and "trust_peers psa devs ks1 new_store = (PSA_SUCCESS, ksB, sB)"
    and "sendable (msg_payload msg)" and "\<forall>n. length (pad n) = n"
    and "send_msg psa pad eui msg ns ksA sA = Some (addr, uri, buf)"
  shows "get_addr_from_eui (msg_to msg) ns = Some addr \<and>
    on_request psa uri buf ksB sB =
      Some \<lparr>msg_from = (if is_response (msg_payload msg) then eui else 0), msg_to = 0, msg_payload = msg_payload msg\<rparr>"
proof -
  obtain b sig where a: "get_addr_from_eui (msg_to msg) ns = Some addr" and img: "rpc_image pad (msg_payload msg) = (uri, b)"
    and sig: "sign psa ksA sA b = Inr sig" and buf: "buf = envelope eui b sig"
    using assms(11) by (auto simp: send_msg_def coap_put_def split: option.splits prod.splits sum.splits)
  have "length sig = SIG_LEN"
    using sig assms(3) by (auto simp: sign_def split: prod.splits if_splits)
  moreover have "verify psa ksB sB eui b sig = PSA_SUCCESS"
    using signed_message_accepted [OF assms(1,2,4,5) sig assms(6-8)] .
  ultimately show ?thesis
    using request_of_image [OF assms(9,10) img, of sig psa ksB sB eui] a buf by simp
qed

text \<open>A crypto service whose signatures have 64 bytes: the key and the digest, cut or filled up.\<close>

definition demo_signature :: "bytes \<Rightarrow> bytes \<Rightarrow> bytes" where
  "demo_signature key d = take 64 (key @ d @ replicate 64 0)"

lemma length_demo_signature: "length (demo_signature key d) = SIG_LEN"
  by (simp add: demo_signature_def SIG_LEN_def)

definition demo_psa64 :: "(key_type \<times> bytes) list Psa" where
  "demo_psa64 = demo_psa\<lparr>
     psa_sign_hash := (\<lambda>ks k d. if unat k < length ks then (0, demo_signature (snd (ks ! unat k)) d) else (- 136, [])),
     psa_verify_hash := (\<lambda>ks k d sig. if unat k < length ks \<and> sig = demo_signature (snd (ks ! unat k)) d then 0 else - 149)\<rparr>"

lemma demo_psa64_laws:
  "psa_keeps_keys demo_psa64 demo_key_of" "psa_signs demo_psa64 demo_key_of id"
  "\<forall>ks k d sig. psa_sign_hash demo_psa64 ks k d = (PSA_SUCCESS, sig) \<longrightarrow> length sig = SIG_LEN"
proof -
  show "psa_keeps_keys demo_psa64 demo_key_of"
    using demo_psa_laws(1) by (simp add: psa_keeps_keys_def demo_psa64_def)
  show "psa_signs demo_psa64 demo_key_of id"
    by (auto simp: psa_signs_def demo_psa64_def demo_psa_def demo_key_of_def PSA_SUCCESS_def split: if_splits)
  show "\<forall>ks k d sig. psa_sign_hash demo_psa64 ks k d = (PSA_SUCCESS, sig) \<longrightarrow> length sig = SIG_LEN"
    by (auto simp: demo_psa64_def length_demo_signature PSA_SUCCESS_def split: if_splits)
qed

lemma demo64_stores_run:
  "store_init demo_psa64 7 [] new_store = (PSA_SUCCESS, [(Key_Pair, eui_bytes 7)], demo_signer)"
  "export_pubkey demo_psa64 [(Key_Pair, eui_bytes 7)] demo_signer = Inr (eui_bytes 7)"
  "sign demo_psa64 [(Key_Pair, eui_bytes 7)] demo_signer b = Inr (demo_signature (eui_bytes 7) b)"
  "trust_peers demo_psa64 [\<lparr>dev_eui = 7, dev_pub_key = eui_bytes 7\<rparr>] [] new_store =
     (PSA_SUCCESS, [(Public_Key, eui_bytes 7)], demo_receiver)"
proof -
  have slots: "replicate 8 x = [x, x, x, x, x, x, x, x]" for x :: TrustedPeer
    by (simp add: numeral_eq_Suc)
  show "store_init demo_psa64 7 [] new_store = (PSA_SUCCESS, [(Key_Pair, eui_bytes 7)], demo_signer)"
      "export_pubkey demo_psa64 [(Key_Pair, eui_bytes 7)] demo_signer = Inr (eui_bytes 7)"
      "trust_peers demo_psa64 [\<lparr>dev_eui = 7, dev_pub_key = eui_bytes 7\<rparr>] [] new_store =
         (PSA_SUCCESS, [(Public_Key, eui_bytes 7)], demo_receiver)"
    by (simp_all add: demo_signer_def demo_receiver_def demo_psa64_def demo_psa_def store_init_def derive_identity_seed_def
        export_pubkey_def trust_peer_def PSA_SUCCESS_def new_store_def no_peer_def MAX_PEERS_def slots Let_def)
  have "td_my_key_id demo_signer = 0"
    by (simp add: demo_signer_def demo_psa_def store_init_def derive_identity_seed_def PSA_SUCCESS_def new_store_def)
  then show "sign demo_psa64 [(Key_Pair, eui_bytes 7)] demo_signer b = Inr (demo_signature (eui_bytes 7) b)"
    by (simp add: demo_psa64_def demo_psa_def sign_def compute_digest_def PSA_SUCCESS_def)
qed

definition demo_directory_state :: NetworkService where
  "demo_directory_state = discover_peers demo_services 1002 (new_network_service 7)"

definition demo_append :: Message where
  "demo_append = \<lparr>msg_from = 7, msg_to = 9, msg_payload = PAppendEntries
     \<lparr>ae_term = 3, ae_leader_id = 7, ae_prev_log_index = 5, ae_prev_log_term = 2, ae_leader_commit = 5, ae_n_entries = 1,
      ae_entries = default_entry\<lparr>e_term := 3, e_index := 6, e_type := SENSOR_DATA\<rparr> # replicate 7 default_entry\<rparr>\<rparr>"

lemma demo_append_sendable: "sendable (msg_payload demo_append)"
  by (simp add: demo_append_def storable_append_def storable_entry_def default_entry_def list_all_iff config_defs)

lemma demo_send:
  "send_msg demo_psa64 (\<lambda>n. replicate n 0) 7 demo_append demo_directory_state [(Key_Pair, eui_bytes 7)] demo_signer =
   Some (replicate 16 2, RAFT_APPEND_URI,
     let b = snd (rpc_image (\<lambda>n. replicate n 0) (msg_payload demo_append)) in envelope 7 b (demo_signature (eui_bytes 7) b))"
  using demo_directory
  by (simp add: send_msg_def demo_directory_state_def demo_append_def coap_put_def demo64_stores_run(3) Let_def)

theorem raft_messages_round_trip_witness:
  "\<exists>addr uri buf. send_msg demo_psa64 (\<lambda>n. replicate n 0) 7 demo_append demo_directory_state
      [(Key_Pair, eui_bytes 7)] demo_signer = Some (addr, uri, buf) \<and>
    on_request demo_psa64 uri buf [(Public_Key, eui_bytes 7)] demo_receiver =
      Some \<lparr>msg_from = 0, msg_to = 0, msg_payload = msg_payload demo_append\<rparr>"
  using raft_messages_round_trip [OF demo_psa64_laws demo64_stores_run(1,2) _ _ demo64_stores_run(4) demo_append_sendable _ demo_send] demo_send
  by (simp add: demo_append_def Let_def)



end
