(* ===== verification/Kernel_Objects.thy ===== *)
theory Kernel_Objects
  imports Flood_Prelude
begin

text \<open>
  The wrappers around Zephyr's kernel objects: \<^verbatim>\<open>MessageQueue\<close> of
  \<^verbatim>\<open>common/message_queue.hpp\<close>, \<^verbatim>\<open>PeriodicTask\<close> of
  \<^verbatim>\<open>common/periodic_task.hpp\<close> and \<^verbatim>\<open>WorkTask\<close> of
  \<^verbatim>\<open>common/work_task.hpp\<close>. The kernel's own functions are arguments, records of
  operations; the locales \<open>zephyr_msgq\<close> and \<open>zephyr_kernel\<close> state what Zephyr documents of them, and
  the concrete kernels at the end, on which the rest of the model runs, satisfy both.
\<close>

section \<open>Timeouts\<close>

datatype k_timeout = K_NO_WAIT | K_MSEC u32 | K_USEC u32 | K_FOREVER

definition ms_to_k_timeout :: "u32 \<Rightarrow> k_timeout" where
  "ms_to_k_timeout val = K_MSEC val"

definition us_to_k_timeout :: "u32 \<Rightarrow> k_timeout" where
  "us_to_k_timeout val = K_USEC val"

section \<open>Message queues\<close>

text \<open>A put returns the kernel's error number, 0 for success; a get the error number or the message copied out; both the queue.\<close>

record ('q, 'a) k_msgq =
  k_msgq_put :: "'a \<Rightarrow> k_timeout \<Rightarrow> 'q \<Rightarrow> int \<times> 'q"
  k_msgq_get :: "k_timeout \<Rightarrow> 'q \<Rightarrow> (int + 'a) \<times> 'q"
  k_msgq_num_used_get :: "'q \<Rightarrow> nat"
  k_msgq_purge :: "'q \<Rightarrow> 'q"

definition mq_try_put :: "('q, 'a) k_msgq \<Rightarrow> 'a \<Rightarrow> 'q \<Rightarrow> bool \<times> 'q" where
  "mq_try_put k item q = (let (rc, q) = k_msgq_put k item K_NO_WAIT q in (rc = 0, q))"

definition mq_put :: "('q, 'a) k_msgq \<Rightarrow> 'a \<Rightarrow> k_timeout \<Rightarrow> 'q \<Rightarrow> bool \<times> 'q" where
  "mq_put k item timeout q = (let (rc, q) = k_msgq_put k item timeout q in (rc = 0, q))"

definition mq_try_get :: "('q, 'a) k_msgq \<Rightarrow> 'q \<Rightarrow> 'a option \<times> 'q" where
  "mq_try_get k q = (let (r, q) = k_msgq_get k K_NO_WAIT q in (case r of Inl _ \<Rightarrow> None | Inr item \<Rightarrow> Some item, q))"

definition mq_get :: "('q, 'a) k_msgq \<Rightarrow> k_timeout \<Rightarrow> 'q \<Rightarrow> 'a option \<times> 'q" where
  "mq_get k timeout q = (let (r, q) = k_msgq_get k timeout q in (case r of Inl _ \<Rightarrow> None | Inr item \<Rightarrow> Some item, q))"

text \<open>The loop of \<open>drain\<close> ends when the kernel reports an empty queue; \<open>None\<close> if it never does.\<close>

partial_function (option) mq_drain :: "('q, 'a) k_msgq \<Rightarrow> ('a \<Rightarrow> 's \<Rightarrow> 's) \<Rightarrow> 's \<Rightarrow> 'q \<Rightarrow> ('s \<times> 'q) option" where
  "mq_drain k fn s q =
     (let (r, q) = k_msgq_get k K_NO_WAIT q in case r of Inr item \<Rightarrow> mq_drain k fn (fn item s) q | Inl _ \<Rightarrow> Some (s, q))"

definition mq_count :: "('q, 'a) k_msgq \<Rightarrow> 'q \<Rightarrow> nat" where
  "mq_count k q = k_msgq_num_used_get k q"

definition mq_purge :: "('q, 'a) k_msgq \<Rightarrow> 'q \<Rightarrow> 'q" where
  "mq_purge k q = k_msgq_purge k q"

text \<open>The operations of a queue in the order its threads perform them, with the items they took out and the items accepted.\<close>

datatype 'a queue_op = Put 'a k_timeout | Get k_timeout

fun mq_run :: "('q, 'a) k_msgq \<Rightarrow> 'a queue_op list \<Rightarrow> 'q \<Rightarrow> 'a list \<times> 'a list \<times> 'q" where
  "mq_run k [] q = ([], [], q)"
| "mq_run k (Put x t # ops) q =
     (let (ok, q) = mq_put k x t q; (acc, out, q) = mq_run k ops q in ((if ok then x # acc else acc), out, q))"
| "mq_run k (Get t # ops) q =
     (let (item, q) = mq_get k t q; (acc, out, q) = mq_run k ops q in (acc, (case item of None \<Rightarrow> out | Some x \<Rightarrow> x # out), q))"

text \<open>
  What Zephyr documents: messages leave in the order they were put; a put that succeeds found room and a
  get that succeeds found a message, an error leaves the queue as it was, and a call that does not wait
  succeeds whenever it can. A call that waits is seen at the moment it returns.
\<close>

locale zephyr_msgq =
  fixes k :: "('q, 'a) k_msgq" and contents :: "'q \<Rightarrow> 'a list" and depth :: nat
  assumes put_done: "k_msgq_put k x t q = (0, q') \<Longrightarrow> length (contents q) < depth \<and> contents q' = contents q @ [x]"
    and put_error: "k_msgq_put k x t q = (rc, q') \<Longrightarrow> rc \<noteq> 0 \<Longrightarrow> contents q' = contents q"
    and put_now: "length (contents q) < depth \<Longrightarrow> fst (k_msgq_put k x K_NO_WAIT q) = 0"
    and get_done: "k_msgq_get k t q = (Inr x, q') \<Longrightarrow> contents q = x # contents q'"
    and get_error: "k_msgq_get k t q = (Inl rc, q') \<Longrightarrow> contents q' = contents q"
    and get_now: "contents q \<noteq> [] \<Longrightarrow> \<exists>x. fst (k_msgq_get k K_NO_WAIT q) = Inr x"
    and num_used: "k_msgq_num_used_get k q = length (contents q)"
    and purge: "contents (k_msgq_purge k q) = []"
begin

lemma put_cases:
  obtains (accepted) q' where "mq_put k x t q = (True, q')" and "contents q' = contents q @ [x]" and "length (contents q) < depth"
  | (refused) q' where "mq_put k x t q = (False, q')" and "contents q' = contents q"
proof -
  obtain rc q' where put: "k_msgq_put k x t q = (rc, q')"
    by (rule prod.exhaust)
  show thesis
    using put accepted [of q'] refused [of q'] put_done [of x t q q'] put_error [of x t q rc q'] by (cases "rc = 0") (simp_all add: mq_put_def)
qed

lemma get_cases:
  obtains (item) x q' where "mq_get k t q = (Some x, q')" and "contents q = x # contents q'"
  | (nothing) q' where "mq_get k t q = (None, q')" and "contents q' = contents q"
proof -
  obtain r s where get: "k_msgq_get k t q = (r, s)"
    by (rule prod.exhaust)
  show thesis
  proof (cases r)
    case (Inl rc)
    then have "mq_get k t q = (None, s)" "contents s = contents q"
      using get get_error [of t q rc s] by (simp_all add: mq_get_def)
    then show thesis
      by (rule nothing)
  next
    case (Inr x)
    then have "mq_get k t q = (Some x, s)" "contents q = x # contents s"
      using get get_done [of t q x s] by (simp_all add: mq_get_def)
    then show thesis
      by (rule item)
  qed
qed

text \<open>Without waiting, a put succeeds exactly on a queue with room and a get exactly on one with a message.\<close>

lemma try_put_iff: "fst (mq_try_put k x q) \<longleftrightarrow> length (contents q) < depth"
proof -
  obtain rc q' where "k_msgq_put k x K_NO_WAIT q = (rc, q')"
    by (rule prod.exhaust)
  then show ?thesis
    using put_done [of x K_NO_WAIT q q'] put_now [of q x] by (auto simp: mq_try_put_def)
qed

lemma try_get_iff: "fst (mq_try_get k q) = None \<longleftrightarrow> contents q = []"
proof -
  obtain r q' where "k_msgq_get k K_NO_WAIT q = (r, q')"
    by (rule prod.exhaust)
  then show ?thesis
    using get_done [of K_NO_WAIT q _ q'] get_now [of q] by (cases r) (auto simp: mq_try_get_def)
qed

text \<open>Nothing accepted is lost, repeated or reordered, and the queue never outgrows its depth.\<close>

lemma run_step:
  assumes "mq_run k (op # ops) q = (acc, out, q'')"
  obtains acc0 out0 acc1 out1 q' where "mq_run k ops q' = (acc1, out1, q'')" and "acc = acc0 @ acc1" and "out = out0 @ out1"
    and "contents q @ acc0 = out0 @ contents q'" and "length (contents q) \<le> depth \<Longrightarrow> length (contents q') \<le> depth"
proof (cases op)
  case (Put x t)
  show thesis
    by (cases rule: put_cases [of x t q]) (use assms Put that [of _ _ _ "[x]" "[]"] that [of _ _ _ "[]" "[]"] in \<open>force split: prod.splits\<close>)+
next
  case (Get t)
  show thesis
    by (cases rule: get_cases [of t q]) (use assms Get that [of _ _ _ "[]"] in \<open>force split: prod.splits\<close>)+
qed

lemma fifo: "mq_run k ops q = (acc, out, q') \<Longrightarrow> contents q @ acc = out @ contents q'"
proof (induction ops arbitrary: q acc out)
  case (Cons op ops)
  from Cons.prems obtain acc0 out0 acc1 out1 q1 where run: "mq_run k ops q1 = (acc1, out1, q')" and *: "acc = acc0 @ acc1" "out = out0 @ out1"
    "contents q @ acc0 = out0 @ contents q1"
    by (rule run_step)
  have "contents q @ acc = out0 @ contents q1 @ acc1"
    using *(1) *(3) by (metis append_assoc)
  with Cons.IH [OF run] *(2) show ?case
    by simp
qed simp

lemma bounded: "mq_run k ops q = (acc, out, q') \<Longrightarrow> length (contents q) \<le> depth \<Longrightarrow> length (contents q') \<le> depth"
proof (induction ops arbitrary: q acc out)
  case (Cons op ops)
  from Cons.prems(1) obtain acc1 out1 q1 where "mq_run k ops q1 = (acc1, out1, q')" "length (contents q) \<le> depth \<Longrightarrow> length (contents q1) \<le> depth"
    by (rule run_step) blast
  with Cons.IH Cons.prems(2) show ?case
    by blast
qed simp

text \<open>Draining hands every item to the function, first in first out, and returns.\<close>

lemma drain_returns: "\<exists>q'. mq_drain k fn s q = Some (fold fn (contents q) s, q') \<and> contents q' = []"
proof (induction "contents q" arbitrary: q s)
  case Nil
  obtain r q' where get: "k_msgq_get k K_NO_WAIT q = (r, q')"
    by (rule prod.exhaust)
  show ?case
    using get get_done [of K_NO_WAIT q _ q'] get_error [of K_NO_WAIT q _ q'] Nil by (subst mq_drain.simps) (cases r; simp)
next
  case (Cons x xs)
  obtain q' where get: "k_msgq_get k K_NO_WAIT q = (Inr x, q')" and xs: "xs = contents q'"
    using get_now [of q] get_done [of K_NO_WAIT q] Cons.hyps(2) by (metis list.distinct(1) list.inject prod.collapse)
  show ?case
    using Cons.hyps(1) [OF xs, of "fn x s"] get Cons.hyps(2) xs by (subst mq_drain.simps) (simp add: Cons.hyps(2) [symmetric])
qed

lemma count_purged: "mq_count k (mq_purge k q) = 0"
  by (simp add: mq_count_def mq_purge_def num_used purge)

end

text \<open>
  The queue the rest of the model runs on: the messages in order. A wait that fails has found
  the queue in the same state when it gives up.
\<close>

definition ENOMSG :: int where "ENOMSG = 35"

definition list_queue :: "nat \<Rightarrow> ('a list, 'a) k_msgq" where
  "list_queue depth = \<lparr>
     k_msgq_put = (\<lambda>x t q. if length q < depth then (0, q @ [x]) else (- ENOMSG, q)),
     k_msgq_get = (\<lambda>t q. case q of [] \<Rightarrow> (Inl (- ENOMSG), []) | x # xs \<Rightarrow> (Inr x, xs)),
     k_msgq_num_used_get = length,
     k_msgq_purge = (\<lambda>q. [])\<rparr>"

interpretation lq: zephyr_msgq "list_queue depth" "\<lambda>q. q" depth for depth
  by unfold_locales (auto simp: list_queue_def ENOMSG_def split: if_splits list.splits)

lemma list_queue_put: "mq_try_put (list_queue depth) x q = (if length q < depth then (True, q @ [x]) else (False, q))"
  by (simp add: mq_try_put_def list_queue_def ENOMSG_def)

lemma list_queue_get: "mq_get (list_queue depth) t q = (case q of [] \<Rightarrow> (None, []) | x # xs \<Rightarrow> (Some x, xs))"
  by (simp add: mq_get_def list_queue_def ENOMSG_def split: list.splits)

lemma list_queue_drain: "mq_drain (list_queue depth) fn s q = Some (fold fn q s, [])"
  using lq.drain_returns [of depth fn s q] by simp

section \<open>Timers and work items\<close>

text \<open>
  A task object holds its timer, its work item and its function; \<open>'i\<close> identifies the object, so that
  the casts of the trampolines are the identity.
\<close>

record ('i, 'k) KernelApi =
  k_timer_start :: "'i \<Rightarrow> k_timeout \<Rightarrow> k_timeout \<Rightarrow> 'k \<Rightarrow> 'k"
  k_timer_stop :: "'i \<Rightarrow> 'k \<Rightarrow> 'k"
  k_work_submit :: "'i \<Rightarrow> 'k \<Rightarrow> 'k"

definition task_start :: "('i, 'k) KernelApi \<Rightarrow> 'i \<Rightarrow> k_timeout \<Rightarrow> 'k \<Rightarrow> 'k" where
  "task_start api i period = k_timer_start api i period period"

definition task_one_shot :: "('i, 'k) KernelApi \<Rightarrow> 'i \<Rightarrow> k_timeout \<Rightarrow> 'k \<Rightarrow> 'k" where
  "task_one_shot api i period = k_timer_start api i period K_NO_WAIT"

definition task_stop :: "('i, 'k) KernelApi \<Rightarrow> 'i \<Rightarrow> 'k \<Rightarrow> 'k" where
  "task_stop api i = k_timer_stop api i"

definition timer_trampoline :: "('i, 'k) KernelApi \<Rightarrow> 'i \<Rightarrow> 'k \<Rightarrow> 'k" where
  "timer_trampoline api i = k_work_submit api i"

definition work_trampoline :: "('i \<Rightarrow> 's \<Rightarrow> 's) \<Rightarrow> 'i \<Rightarrow> 's \<Rightarrow> 's" where
  "work_trampoline m_fn w = m_fn w"

definition work_task_submit :: "('i, 'k) KernelApi \<Rightarrow> 'i \<Rightarrow> 'k \<Rightarrow> 'k" where
  "work_task_submit api i = k_work_submit api i"

definition work_task_submit_to :: "('q \<Rightarrow> 'i \<Rightarrow> 'k \<Rightarrow> 'k) \<Rightarrow> 'q \<Rightarrow> 'i \<Rightarrow> 'k \<Rightarrow> 'k" where
  "work_task_submit_to k_work_submit_to_queue q i = k_work_submit_to_queue q i"

definition work_task_trampoline :: "('i \<Rightarrow> 's \<Rightarrow> 's) \<Rightarrow> 'i \<Rightarrow> 's \<Rightarrow> 's" where
  "work_task_trampoline m_fn w = m_fn w"

text \<open>What Zephyr documents: a start sets both delays of the timer, an item already queued is not queued again.\<close>

locale zephyr_kernel =
  fixes api :: "('i, 'k) KernelApi" and armed :: "'k \<Rightarrow> 'i \<Rightarrow> (k_timeout \<times> k_timeout) option" and queued :: "'k \<Rightarrow> 'i list"
  assumes timer_start: "armed (k_timer_start api i d p k) = (armed k)(i \<mapsto> (d, p))" "queued (k_timer_start api i d p k) = queued k"
    and timer_stop: "armed (k_timer_stop api i k) = (armed k)(i := None)" "queued (k_timer_stop api i k) = queued k"
    and work_submit: "armed (k_work_submit api i k) = armed k"
      "queued (k_work_submit api i k) = (if i \<in> set (queued k) then queued k else queued k @ [i])"
begin

lemma one_shot_replaces: "armed (task_one_shot api i d (task_start api i p k)) i = Some (d, K_NO_WAIT)"
  by (simp add: task_one_shot_def task_start_def timer_start)

lemma stop_keeps_queued_work: "queued (task_stop api i k) = queued k"
  by (simp add: task_stop_def timer_stop)

lemma submissions_coalesce: "queued (work_task_submit api i (work_task_submit api i k)) = queued (work_task_submit api i k)"
  by (simp add: work_task_submit_def work_submit)

lemma submit_distinct: "distinct (queued k) \<Longrightarrow> distinct (queued (timer_trampoline api i k))"
  by (simp add: timer_trampoline_def work_submit)

end

record 'i SimKernel =
  sk_armed :: "'i \<Rightarrow> (k_timeout \<times> k_timeout) option"
  sk_queue :: "'i list"

definition sim_kernel :: "('i, 'i SimKernel) KernelApi" where
  "sim_kernel = \<lparr>
     k_timer_start = (\<lambda>i d p k. k\<lparr>sk_armed := (sk_armed k)(i \<mapsto> (d, p))\<rparr>),
     k_timer_stop = (\<lambda>i k. k\<lparr>sk_armed := (sk_armed k)(i := None)\<rparr>),
     k_work_submit = (\<lambda>i k. if i \<in> set (sk_queue k) then k else k\<lparr>sk_queue := sk_queue k @ [i]\<rparr>)\<rparr>"

interpretation sim: zephyr_kernel sim_kernel sk_armed sk_queue
  by unfold_locales (auto simp: sim_kernel_def)

end
