(* ===== verification/Lora_Service.thy ===== *)
theory Lora_Service
  imports Lora_Protocol Kernel_Objects "HOL-Library.Monad_Syntax"
begin

text \<open>
  The LoRaWAN sender of a fog node: the command exchange with the E5 module of
  \<^verbatim>\<open>fog/src/lorawan/modem.hpp\<close>, the join sequence of
  \<^verbatim>\<open>fog/src/lorawan/join.hpp\<close> and the service thread of
  \<^verbatim>\<open>fog/src/lorawan/service.hpp\<close>. Zephyr's chat engine, which sends a request and
  matches the module's answers, is an argument with a state of its own.
\<close>

section \<open>The modem\<close>

datatype CmdResult = MATCHED | CMD_TIMEOUT | AT_ERROR | NOT_JOINED

definition SHORT_MS :: u32 where [config_defs]: "SHORT_MS = 2000"
definition DEFAULT_MS :: u32 where [config_defs]: "DEFAULT_MS = 10000"
definition LONG_MS :: u32 where [config_defs]: "LONG_MS = 30000"
definition REQUEST_BUF_SIZE :: nat where [config_defs]: "REQUEST_BUF_SIZE = 300"
definition MATCH_BUF_SIZE :: nat where [config_defs]: "MATCH_BUF_SIZE = 64"

text \<open>
  A run of the chat script: its return code, the abort match that ended it, if any, and the
  arguments of the downlink lines seen. The request, the expected answer and the timeouts (of the
  step in milliseconds and of the script in seconds) are given to it.
\<close>

record chat_result =
  cr_ret :: int
  cr_abort :: "CmdResult option"
  cr_downlinks :: "string list list"

type_synonym 'm chat = "string \<Rightarrow> string \<Rightarrow> u16 \<Rightarrow> u16 \<Rightarrow> 'm \<Rightarrow> chat_result \<times> 'm"

definition hex_digit :: "char \<Rightarrow> u8 option" where
  "hex_digit c =
     (let v = (of_char c :: u8) in
      if 48 \<le> v \<and> v \<le> 57 then Some (v - 48)
      else if 65 \<le> v \<and> v \<le> 70 then Some (v - 55)
      else if 97 \<le> v \<and> v \<le> 102 then Some (v - 87)
      else None)"

fun decode_pairs :: "string \<Rightarrow> nat \<Rightarrow> u8 list option" where
  "decode_pairs (a # b # cs) (Suc n) =
     do { x \<leftarrow> hex_digit a; y \<leftarrow> hex_digit b; ds \<leftarrow> decode_pairs cs n; Some ((push_bit 4 x OR y) # ds) }"
| "decode_pairs cs n = Some []"

fun handle_downlink :: "string list \<Rightarrow> nat \<Rightarrow> u8 list option" where
  "handle_downlink [] cap = None"
| "handle_downlink (token # tokens) cap =
     (if cap = 0 then None
      else if token = [] \<or> length token mod 2 \<noteq> 0 then handle_downlink tokens cap
      else if \<not> list_all (\<lambda>c. hex_digit c \<noteq> None) token then handle_downlink tokens cap
      else case decode_pairs token cap of
             Some decoded \<Rightarrow> if decoded \<noteq> [] then Some decoded else handle_downlink tokens cap
           | None \<Rightarrow> handle_downlink tokens cap)"

definition copy_terminated :: "string \<Rightarrow> nat \<Rightarrow> bool" where
  "copy_terminated src dst_size \<longleftrightarrow> \<not> dst_size < length src + 1"

definition cmd :: "'m chat \<Rightarrow> string \<Rightarrow> string \<Rightarrow> u32 \<Rightarrow> nat \<Rightarrow> 'm \<Rightarrow> (CmdResult \<times> u8 list) \<times> 'm" where
  "cmd chat command expected timeout_ms cap m =
     (if \<not> copy_terminated command REQUEST_BUF_SIZE \<or> \<not> copy_terminated expected MATCH_BUF_SIZE
      then ((AT_ERROR, []), m)
      else let (r, m) = chat command expected (ucast timeout_ms) (ucast (timeout_ms div 1000 + 2)) m;
               downlink = foldl (\<lambda>dl argv. case handle_downlink argv cap of None \<Rightarrow> dl | Some b \<Rightarrow> b) [] (cr_downlinks r);
               abort_kind = (case cr_abort r of None \<Rightarrow> CMD_TIMEOUT | Some kind \<Rightarrow> kind)
           in ((if cr_ret r = 0 then MATCHED else abort_kind, downlink), m))"

definition modem_ok :: "'m chat \<Rightarrow> string \<Rightarrow> string \<Rightarrow> u32 \<Rightarrow> 'm \<Rightarrow> bool \<times> 'm" where
  "modem_ok chat command expected timeout_ms m =
     (let ((res, _), m) = cmd chat command expected timeout_ms 0 m in (res = MATCHED, m))"

section \<open>Joining\<close>

text \<open>
  \<open>snprintf\<close> with one \<open>%s\<close>. The returned view has the full length of the text, so for a text that did
  not fit the buffer it reaches past its end: \<open>None\<close>.
\<close>

fun format_s :: "string \<Rightarrow> string \<Rightarrow> string" where
  "format_s (CHR ''%'' # CHR ''s'' # cs) arg = arg @ cs"
| "format_s (c # cs) arg = c # format_s cs arg"
| "format_s [] arg = []"

definition fmt_cmd :: "nat \<Rightarrow> string \<Rightarrow> string \<Rightarrow> string option" where
  "fmt_cmd scratch_size template arg =
     (let text = format_s template arg in if length text < scratch_size then Some text else None)"

record E5Cmd =
  e5_cmd :: string
  e5_arg :: string
  e5_rsp :: string
  e5_timeout :: u32

definition setup_commands :: "string \<Rightarrow> string \<Rightarrow> E5Cmd list" where
  "setup_commands eui app_key =
     [\<lparr>e5_cmd = ''AT'', e5_arg = [], e5_rsp = ''+AT: OK'', e5_timeout = SHORT_MS\<rparr>,
      \<lparr>e5_cmd = ''AT+MODE=LWOTAA'', e5_arg = [], e5_rsp = ''+MODE: LWOTAA'', e5_timeout = SHORT_MS\<rparr>,
      \<lparr>e5_cmd = ''AT+ID=AppEui,\"%s\"'', e5_arg = eui, e5_rsp = ''+ID: AppEui'', e5_timeout = SHORT_MS\<rparr>,
      \<lparr>e5_cmd = ''AT+ID=DevEui,\"%s\"'', e5_arg = eui, e5_rsp = ''+ID: DevEui'', e5_timeout = SHORT_MS\<rparr>,
      \<lparr>e5_cmd = ''AT+KEY=APPKEY,\"%s\"'', e5_arg = app_key, e5_rsp = ''+KEY: APPKEY'', e5_timeout = SHORT_MS\<rparr>,
      \<lparr>e5_cmd = ''AT+DR=EU868'', e5_arg = [], e5_rsp = ''+DR: EU868'', e5_timeout = SHORT_MS\<rparr>,
      \<lparr>e5_cmd = ''AT+ADR=OFF'', e5_arg = [], e5_rsp = ''+ADR: OFF'', e5_timeout = SHORT_MS\<rparr>,
      \<lparr>e5_cmd = ''AT+DR=DR5'', e5_arg = [], e5_rsp = ''+DR: DR5'', e5_timeout = SHORT_MS\<rparr>]"

text \<open>\<open>all_of\<close> stops at the first command that fails.\<close>

fun run_setup :: "'m chat \<Rightarrow> nat \<Rightarrow> E5Cmd list \<Rightarrow> 'm \<Rightarrow> (bool \<times> 'm) option" where
  "run_setup chat scratch_size [] m = Some (True, m)"
| "run_setup chat scratch_size (c # cs) m =
     do {
       command \<leftarrow> if e5_arg c = [] then Some (e5_cmd c) else fmt_cmd scratch_size (e5_cmd c) (e5_arg c);
       let (ok, m) = modem_ok chat command (e5_rsp c) (e5_timeout c) m;
       if ok then run_setup chat scratch_size cs m else Some (False, m)
     }"

definition eui_hex :: "u8 list \<Rightarrow> string" where
  "eui_hex eui = concat (map hex_byte eui)"

definition run_join :: "'m chat \<Rightarrow> u8 list \<Rightarrow> string \<Rightarrow> nat \<Rightarrow> 'm \<Rightarrow> (bool \<times> 'm) option" where
  "run_join chat eui app_key scratch_size m =
     do {
       (setup, m) \<leftarrow> run_setup chat scratch_size (setup_commands (eui_hex eui) app_key) m;
       if \<not> setup then Some (False, m)
       else let (joined, m) = modem_ok chat ''AT+JOIN'' ''+JOIN: Network joined'' LONG_MS m in
            if joined then Some (True, m)
            else Some (modem_ok chat ''AT+JOIN=FORCE'' ''+JOIN: Network joined'' LONG_MS m)
     }"

section \<open>The service\<close>

definition TX_QUEUE_DEPTH :: nat where [config_defs]: "TX_QUEUE_DEPTH = 8"
definition BUFFER_SIZE :: nat where [config_defs]: "BUFFER_SIZE = 256"
definition SCRATCH_BUFFER_SIZE :: nat where [config_defs]: "SCRATCH_BUFFER_SIZE = 64"

record LoraWanService =
  ls_eui :: "u8 list"
  ls_app_key :: string
  ls_join_attempt :: u32
  ls_joined :: bool
  ls_tx_q :: "LoraPayload list"
  ls_running :: bool
  ls_completed :: "(u32 \<times> u64) list"

definition new_lora_service :: "u8 list \<Rightarrow> string \<Rightarrow> LoraWanService" where
  "new_lora_service eui app_key =
     \<lparr>ls_eui = eui, ls_app_key = app_key, ls_join_attempt = 0, ls_joined = False, ls_tx_q = [], ls_running = False, ls_completed = []\<rparr>"

text \<open>\<open>MessageQueue::try_put\<close> on the queue of the service.\<close>

definition try_put :: "LoraPayload \<Rightarrow> LoraWanService \<Rightarrow> bool \<times> LoraWanService" where
  "try_put p s = (let (ok, q) = mq_try_put (list_queue TX_QUEUE_DEPTH) p (ls_tx_q s) in (ok, s\<lparr>ls_tx_q := q\<rparr>))"

lemma try_put_eq:
  "try_put p s = (if length (ls_tx_q s) < TX_QUEUE_DEPTH then (True, s\<lparr>ls_tx_q := ls_tx_q s @ [p]\<rparr>) else (False, s))"
  by (simp add: try_put_def list_queue_put)

definition lora_entry :: "SensorReadingWire \<Rightarrow> LoraEntry" where
  "lora_entry w = \<lparr>le_device_rloc = w_eui w, le_water_level_mm = w_water_level_mm w, le_validity = w_validity w,
     le_detail = w_detail w, le_timestamp = ucast (w_timestamp w)\<rparr>"

definition make_payload :: "u64 \<Rightarrow> SensorBatch \<Rightarrow> u64 \<Rightarrow> u64 \<Rightarrow> u32 \<Rightarrow> LoraPayload" where
  "make_payload node_id batch term index seq =
     (let p = zero_payload\<lparr>lp_node_id := node_id, lp_raft_term := ucast term, lp_raft_log_index := ucast index,
                lp_sequence := seq, lp_alert := (if sb_alert_active batch then 1 else 0),
                lp_count := of_nat (min MAX_ENTRIES (unat (sb_count batch)))\<rparr>
      in p\<lparr>lp_entries := foldl (\<lambda>es i. es[i := lora_entry (sb_entries batch ! i)]) (lp_entries p) [0..<unat (lp_count p)]\<rparr>)"

definition send_batch :: "u64 \<Rightarrow> SensorBatch \<Rightarrow> u64 \<Rightarrow> u64 \<Rightarrow> u32 \<Rightarrow> LoraWanService \<Rightarrow> bool \<times> LoraWanService" where
  "send_batch node_id batch term index seq s = try_put (make_payload node_id batch term index seq) s"

definition ship_payload :: "'m chat \<Rightarrow> LoraPayload \<Rightarrow> LoraWanService \<Rightarrow> 'm \<Rightarrow> bool \<times> LoraWanService \<times> 'm" where
  "ship_payload chat payload s m =
     (case build_uplink payload BUFFER_SIZE of
        None \<Rightarrow> (False, s, m)
      | Some command \<Rightarrow>
          let ((res, downlink), m) = cmd chat command ''+MSGHEX: Done'' DEFAULT_MS BUFFER_SIZE m in
          if res = MATCHED
          then (True, s\<lparr>ls_completed := ls_completed s @ [(lp_sequence payload, ucast (lp_raft_log_index payload))]\<rparr>, m)
          else let s = (if res = NOT_JOINED then s\<lparr>ls_joined := False\<rparr> else s);
                   (_, s) = try_put payload s
               in (False, s, m))"

text \<open>
  One round of the service thread, which repeats it while the service runs: in the first phase the
  back-off delay it sleeps, if joining failed; in the second it waits for the queue, which is no step
  while the queue is empty.
\<close>

definition thread_step :: "'m chat \<Rightarrow> LoraWanService \<Rightarrow> 'm \<Rightarrow> (u32 option \<times> LoraWanService \<times> 'm) option" where
  "thread_step chat s m =
     (if \<not> ls_joined s
      then do {
        (join_ok, m) \<leftarrow> run_join chat (ls_eui s) (ls_app_key s) SCRATCH_BUFFER_SIZE m;
        if join_ok then Some (None, s\<lparr>ls_joined := True, ls_join_attempt := 0\<rparr>, m)
        else Some (Some (delay_for (ls_join_attempt s)), s\<lparr>ls_join_attempt := ls_join_attempt s + 1\<rparr>, m)
      }
      else let (item, q) = mq_get (list_queue TX_QUEUE_DEPTH) K_FOREVER (ls_tx_q s)
           in case item of
                None \<Rightarrow> None
              | Some payload \<Rightarrow> let (_, s, m) = ship_payload chat payload (s\<lparr>ls_tx_q := q\<rparr>) m in Some (None, s, m))"

lemma thread_step_eq:
  "thread_step chat s m =
     (if \<not> ls_joined s
      then do {
        (join_ok, m) \<leftarrow> run_join chat (ls_eui s) (ls_app_key s) SCRATCH_BUFFER_SIZE m;
        if join_ok then Some (None, s\<lparr>ls_joined := True, ls_join_attempt := 0\<rparr>, m)
        else Some (Some (delay_for (ls_join_attempt s)), s\<lparr>ls_join_attempt := ls_join_attempt s + 1\<rparr>, m)
      }
      else case ls_tx_q s of
             [] \<Rightarrow> None
           | payload # q \<Rightarrow> let (_, s, m) = ship_payload chat payload (s\<lparr>ls_tx_q := q\<rparr>) m in Some (None, s, m))"
  by (simp add: thread_step_def list_queue_get split: list.splits)

section \<open>Hex text decodes\<close>

lemma hex_digit_HEX:
  assumes "k < 16"
  shows "hex_digit (HEX ! k) = Some (of_nat k)"
proof -
  have "list_all (\<lambda>k. hex_digit (HEX ! k) = Some (of_nat k)) [0..<16]"
    by code_simp
  then show ?thesis
    using assms by (simp add: list_all_iff)
qed

lemma nibbles:
  fixes v :: u8
  shows "unat (drop_bit 4 v) < 16" and "unat (v AND 15) < 16" and "push_bit 4 (drop_bit 4 v) OR (v AND 15) = v"
proof -
  show "unat (drop_bit 4 v) < 16"
    using unat_lt_8 [of v] by (simp only: unat_drop_bit_eq) (simp add: drop_bit_eq_div div_less_iff_less_mult)
  have "v AND 15 = take_bit 4 v"
    by (simp add: take_bit_eq_mask mask_eq_exp_minus_1)
  then show "unat (v AND 15) < 16" and "push_bit 4 (drop_bit 4 v) OR (v AND 15) = v"
    by (simp add: unsigned_take_bit_eq take_bit_nat_less_exp [of 4, simplified])
      (rule bit_word_eqI, auto simp: \<open>v AND 15 = take_bit 4 v\<close> bit_simps)
qed

lemma decode_hex_bytes: "decode_pairs (concat (map hex_byte bs)) n = Some (take n bs)"
proof (induction bs arbitrary: n)
  case (Cons v bs)
  then show ?case
    using nibbles [of v] by (cases n) (simp_all add: hex_byte_def hex_digit_HEX)
qed simp

lemma hex_bytes_digits: "list_all (\<lambda>c. hex_digit c \<noteq> None) (concat (map hex_byte bs))"
  by (induction bs) (simp_all add: hex_byte_def hex_digit_HEX nibbles)

lemma handle_downlink_hex:
  "bs \<noteq> [] \<Longrightarrow> 0 < cap \<Longrightarrow> handle_downlink (concat (map hex_byte bs) # tokens) cap = Some (take cap bs)"
proof -
  assume "bs \<noteq> []" "0 < cap"
  moreover from \<open>bs \<noteq> []\<close> have "concat (map hex_byte bs) \<noteq> []"
    by (cases bs) (simp_all add: hex_byte_def)
  ultimately show ?thesis
    using hex_bytes_digits [of bs] decode_hex_bytes [of bs cap] by (simp del: concat_eq_Nil_conv)
qed

section \<open>Payloads and the queue\<close>

lemma fold_entries:
  assumes "n \<le> length es"
  shows "foldl (\<lambda>es i. es[i := f i]) es [0..<n] = map f [0..<n] @ drop n es"
  using assms
proof (induction n)
  case (Suc n)
  then have "foldl (\<lambda>es i. es[i := f i]) es [0..<n] = map f [0..<n] @ drop n es"
    by simp
  then show ?case
    using Suc.prems by (simp add: list_update_append Cons_nth_drop_Suc [symmetric, of n es])
qed simp

lemma make_payload_entries:
  assumes "length (sb_entries b) = MAX_SENSORS"
  shows "unat (lp_count (make_payload node b term index seq)) = min MAX_ENTRIES (unat (sb_count b))"
    and "take (unat (lp_count (make_payload node b term index seq))) (lp_entries (make_payload node b term index seq)) =
      map lora_entry (batch_entries b)"
    and "length (lp_entries (make_payload node b term index seq)) = MAX_ENTRIES"
proof -
  let ?n = "min MAX_ENTRIES (unat (sb_count b))"
  have n: "unat (of_nat ?n :: u8) = ?n"
    by (rule unat_of_nat_small) (simp add: MAX_ENTRIES_def)
  then show "unat (lp_count (make_payload node b term index seq)) = ?n"
    by (simp add: make_payload_def Let_def)
  have es: "lp_entries (make_payload node b term index seq) =
      map (\<lambda>i. lora_entry (sb_entries b ! i)) [0..<?n] @ drop ?n (replicate MAX_ENTRIES zero_lora_entry)"
    using n fold_entries [of ?n "replicate MAX_ENTRIES zero_lora_entry" "\<lambda>i. lora_entry (sb_entries b ! i)"]
    by (simp add: make_payload_def zero_payload_def Let_def)
  then show "length (lp_entries (make_payload node b term index seq)) = MAX_ENTRIES"
    by simp
  have same: "map (\<lambda>i. lora_entry (sb_entries b ! i)) [0..<?n] = map lora_entry (batch_entries b)"
    using assms by (intro nth_equalityI) (auto simp: batch_entries_def MAX_ENTRIES_def MAX_SENSORS_def)
  then show "take (unat (lp_count (make_payload node b term index seq))) (lp_entries (make_payload node b term index seq)) =
      map lora_entry (batch_entries b)"
    unfolding \<open>unat (lp_count (make_payload node b term index seq)) = ?n\<close> es same [symmetric] by simp
qed

lemma wire_bytes_bound: "length es \<le> 3 \<Longrightarrow> length (header_bytes p @ concat (map entry_bytes es)) \<le> 70"
  by (simp add: length_entries_bytes)

text \<open>The join sequence stays inside its scratch buffer for every key of the LoRaWAN length.\<close>

lemma run_setup_total:
  assumes "\<forall>c \<in> set cs. e5_arg c = [] \<or> length (format_s (e5_cmd c) (e5_arg c)) < n"
  shows "\<exists>r. run_setup chat n cs m = Some r"
  using assms by (induction cs arbitrary: m) (auto simp: fmt_cmd_def Let_def split: prod.splits)

lemma run_join_total:
  assumes "length eui = 8" and "length app_key \<le> 32"
  shows "\<exists>r. run_join chat eui app_key SCRATCH_BUFFER_SIZE m = Some r"
proof -
  have "\<exists>r. run_setup chat SCRATCH_BUFFER_SIZE (setup_commands (eui_hex eui) app_key) m = Some r"
    by (rule run_setup_total) (use assms in \<open>simp add: setup_commands_def eui_hex_def SCRATCH_BUFFER_SIZE_def\<close>)
  then show ?thesis
    by (auto simp: run_join_def Let_def split: prod.splits)
qed

definition payload_fits :: "LoraPayload \<Rightarrow> bool" where
  "payload_fits p \<longleftrightarrow> length (lp_entries p) = MAX_ENTRIES \<and> unat (lp_count p) \<le> MAX_ENTRIES"

lemma ship_payload_cases:
  assumes "payload_fits p" and "length (ls_tx_q s) < TX_QUEUE_DEPTH" and "ship_payload chat p s m = (ok, s', m')"
  shows "ls_tx_q s' = (if ok then ls_tx_q s else ls_tx_q s @ [p]) \<and>
    ls_completed s' = (if ok then ls_completed s @ [(lp_sequence p, ucast (lp_raft_log_index p))] else ls_completed s)"
  using assms build_uplink_fits [of p]
  by (auto simp: ship_payload_def payload_fits_def BUFFER_SIZE_def try_put_eq Let_def split: prod.splits if_splits)

text \<open>
  What a fog node queues for a batch is what the gateway reads: the uplink command fits the
  command buffer, its text decodes to the wire bytes, and the gateway's decoder finds, without
  error, the node, the term and index reduced to 32 bits, the sequence number, the alert flag and
  every entry of the batch.
\<close>

definition uplink_of :: "u64 \<Rightarrow> SensorBatch \<Rightarrow> u64 \<Rightarrow> u64 \<Rightarrow> u32 \<Rightarrow> Uplink" where
  "uplink_of node b term index seq = \<lparr>up_node_id = node, up_raft_term = ucast term, up_raft_log_index = ucast index, up_seq = seq,
     up_alert = sb_alert_active b, up_count = unat (sb_count b), up_entries = map lora_entry (batch_entries b)\<rparr>"

lemma payload_decodes:
  assumes "length (sb_entries b) = MAX_SENSORS" and "unat (sb_count b) \<le> MAX_SENSORS"
  shows "\<exists>hex bytes. build_uplink (make_payload node b term index seq) BUFFER_SIZE = Some (MSG_START_CMD @ hex @ MSG_END_CMD) \<and>
    length hex \<le> 140 \<and> handle_downlink [hex] BUFFER_SIZE = Some bytes \<and> decodeUplink bytes = (Some (uplink_of node b term index seq), [])"
proof -
  define p where "p = make_payload node b term index seq"
  note mp = make_payload_entries [OF assms(1), of node "term" index seq, folded p_def]
  have fits: "unat (lp_count p) \<le> length (lp_entries p)" "unat (lp_count p) \<le> MAX_ENTRIES"
    using mp by simp_all
  define bytes where "bytes = header_bytes p @ concat (map entry_bytes (take (unat (lp_count p)) (lp_entries p)))"
  have wire: "wire_bytes p = Some bytes"
    using wire_bytes_eq [OF fits(1)] by (simp add: bytes_def)
  have len: "length bytes \<le> 70" "bytes \<noteq> []"
    using wire_bytes_bound [of "take (unat (lp_count p)) (lp_entries p)" p] mp(3)
    by (auto simp: bytes_def MAX_ENTRIES_def header_bytes_def)
  then have hex: "handle_downlink [concat (map hex_byte bytes)] BUFFER_SIZE = Some bytes"
    using handle_downlink_hex [of bytes BUFFER_SIZE "[]"] by (simp add: BUFFER_SIZE_def)
  have up: "build_uplink p BUFFER_SIZE = Some (MSG_START_CMD @ concat (map hex_byte bytes) @ MSG_END_CMD)"
    using build_uplink_fits [OF fits] by (simp add: bytes_def BUFFER_SIZE_def)
  have dec: "decodeUplink bytes = (Some (uplink_of node b term index seq), [])"
    using decode_wire_bytes [OF fits(1)] wire mp(1,2) assms(2)
    by (simp add: p_def make_payload_def Let_def MAX_ENTRIES_def MAX_SENSORS_def uplink_of_def)
  have "length (concat (map hex_byte bytes)) \<le> 140"
    using len(1) by simp
  with up hex dec show ?thesis
    unfolding p_def by blast
qed

text \<open>A queued payload that fits goes to the module as its command, and a match completes it.\<close>

lemma thread_step_sends:
  assumes "ls_joined s" and "ls_tx_q s = p # q" and "build_uplink p BUFFER_SIZE = Some command"
    and "length command < REQUEST_BUF_SIZE"
    and "chat command ''+MSGHEX: Done'' 10000 12 m = (r, m')" and "cr_ret r = 0"
  shows "thread_step chat s m =
    Some (None, s\<lparr>ls_tx_q := q, ls_completed := ls_completed s @ [(lp_sequence p, ucast (lp_raft_log_index p))]\<rparr>, m')"
proof -
  have "copy_terminated command REQUEST_BUF_SIZE" "copy_terminated ''+MSGHEX: Done'' MATCH_BUF_SIZE"
    using assms(4) by (simp_all add: copy_terminated_def MATCH_BUF_SIZE_def)
  moreover have "chat command ''+MSGHEX: Done'' (ucast DEFAULT_MS) (ucast (DEFAULT_MS div 1000 + 2)) m = (r, m')"
    using assms(5) by (simp add: DEFAULT_MS_def)
  ultimately show ?thesis
    using assms(1-3,6) by (simp add: thread_step_eq ship_payload_def cmd_def Let_def)
qed

section \<open>Properties\<close>



text \<open>
  The payload of a failed transmission goes back only if the queue has a free place: when the
  application has filled the one it left, the payload is lost.
\<close>

lemma requeue_into_full_queue_loses:
  assumes "payload_fits p" and "length (ls_tx_q s) = TX_QUEUE_DEPTH" and "ship_payload chat p s m = (False, s', m')"
  shows "ls_tx_q s' = ls_tx_q s \<and> ls_completed s' = ls_completed s"
  using assms build_uplink_fits [of p]
  by (auto simp: ship_payload_def payload_fits_def BUFFER_SIZE_def try_put_eq Let_def split: prod.splits if_splits)

text \<open>
  The delay before the next join attempt is half a second doubled with every attempt, and
  never more than thirty seconds, for all 32-bit attempt counts.
\<close>

theorem backoff_doubles_up_to_the_cap: "unat (delay_for attempt) = min (500 * 2 ^ unat attempt) 30000"
proof -
  have "min (unat (delay_loop (unat attempt) 500)) 30000 = min (500 * 2 ^ unat attempt) 30000"
    using delay_loop_spec [of 500 "unat attempt"] by simp
  moreover have "unat (min a b) = min (unat a) (unat b)" for a b :: u64
    by (simp add: min_def word_le_nat_alt)
  moreover have "unat (ucast w :: u32) = unat w" if "unat w \<le> 30000" for w :: u64
    using that by (simp add: unsigned_ucast_eq take_bit_nat_eq_self)
  ultimately show ?thesis
    by (simp add: delay_for_def BACKOFF_MIN_MS_def BACKOFF_MAX_MS_def)
qed

end
