(* ===== verification/Egress_Tracker.thy ===== *)
theory Egress_Tracker
  imports Lora_Protocol Slot_Table
begin

text \<open>
  What every fog node remembers of the uplinks in flight,
  \<^verbatim>\<open>firmware/fog/src/egress/egress_tracker.hpp\<close>: a ring of the last records the cluster
  has committed and the next sequence number. The ring is shown to implement a bounded list of
  records.
\<close>

section \<open>The tracker\<close>

text \<open>The enumeration has an eight-bit underlying type, and a record read from a log entry may hold any byte.\<close>

type_synonym Phase = u8

definition STARTED :: Phase where "STARTED = 0"
definition SENT :: Phase where "SENT = 1"

record EgressRecord =
  er_batch_log_index :: u64
  er_seq :: u32
  er_phase :: Phase

definition default_record :: EgressRecord where
  "default_record = \<lparr>er_batch_log_index = 0, er_seq = 0, er_phase = STARTED\<rparr>"

definition TX_EGRESS_QUEUE_SIZE :: nat where [config_defs]: "TX_EGRESS_QUEUE_SIZE = 4"

record EgressTracker =
  et_ring :: "EgressRecord list"
  et_valid :: "bool list"
  et_head :: nat
  et_next_seq :: u32

definition new_tracker :: EgressTracker where
  "new_tracker = \<lparr>et_ring = replicate TX_EGRESS_QUEUE_SIZE default_record,
     et_valid = replicate TX_EGRESS_QUEUE_SIZE False, et_head = 0, et_next_seq = 0\<rparr>"

definition on_apply :: "EgressRecord \<Rightarrow> EgressTracker \<Rightarrow> EgressTracker" where
  "on_apply rec t =
     (let t = (if et_next_seq t \<le> er_seq rec then t\<lparr>et_next_seq := er_seq rec + 1\<rparr> else t)
      in case find_index (\<lambda>i. et_valid t ! i \<and> er_seq (et_ring t ! i) = er_seq rec) [0..<TX_EGRESS_QUEUE_SIZE] of
           Some i \<Rightarrow> t\<lparr>et_ring := (et_ring t)[i := (et_ring t ! i)\<lparr>er_phase := er_phase rec\<rparr>]\<rparr>
         | None \<Rightarrow> t\<lparr>et_ring := (et_ring t)[et_head t := rec], et_valid := (et_valid t)[et_head t := True],
                     et_head := (et_head t + 1) mod TX_EGRESS_QUEUE_SIZE\<rparr>)"

record Outstanding =
  os_log_index :: u64
  os_sequence :: u32

text \<open>One pass of the loop: the best sequence number so far and its log index.\<close>

definition better :: "EgressTracker \<Rightarrow> u32 option \<times> u64 \<Rightarrow> nat \<Rightarrow> u32 option \<times> u64" where
  "better t best i =
     (if et_valid t ! i \<and> er_phase (et_ring t ! i) = STARTED then
        if fst best = None \<or> er_seq (et_ring t ! i) > the (fst best)
        then (Some (er_seq (et_ring t ! i)), er_batch_log_index (et_ring t ! i))
        else best
      else best)"

definition outstanding :: "EgressTracker \<Rightarrow> Outstanding option \<times> EgressTracker" where
  "outstanding t =
     (let (best_sequence, best_index) = foldl (better t) (None, 0) [0..<TX_EGRESS_QUEUE_SIZE]
      in case best_sequence of
           None \<Rightarrow> (None, t)
         | Some seq \<Rightarrow> (Some \<lparr>os_log_index = best_index, os_sequence = seq\<rparr>, t\<lparr>et_next_seq := seq + 1\<rparr>))"

definition next_seq :: "EgressTracker \<Rightarrow> u32" where
  "next_seq t = et_next_seq t"

section \<open>What the ring stands for\<close>

text \<open>
  The records in the order their sequence numbers were first seen. A record with a known number
  changes its phase; a new one enters at the end, and the oldest leaves when there are more than
  the ring can hold.
\<close>

definition remember :: "EgressRecord \<Rightarrow> EgressRecord list \<Rightarrow> EgressRecord list" where
  "remember rec rs =
     (if er_seq rec \<in> er_seq ` set rs
      then map (\<lambda>r. if er_seq r = er_seq rec then r\<lparr>er_phase := er_phase rec\<rparr> else r) rs
      else drop (length rs + 1 - TX_EGRESS_QUEUE_SIZE) (rs @ [rec]))"

definition cells :: "EgressTracker \<Rightarrow> (bool \<times> EgressRecord) list" where
  "cells t = rotate (et_head t) (zip (et_valid t) (et_ring t))"

definition records :: "EgressTracker \<Rightarrow> EgressRecord list" where
  "records t = map snd (filter fst (cells t))"

definition tracker_ok :: "EgressTracker \<Rightarrow> bool" where
  "tracker_ok t \<longleftrightarrow> length (et_ring t) = TX_EGRESS_QUEUE_SIZE \<and> length (et_valid t) = TX_EGRESS_QUEUE_SIZE \<and>
     et_head t < TX_EGRESS_QUEUE_SIZE \<and> sorted (map fst (cells t)) \<and> distinct (map er_seq (records t))"

lemma rotate_update_head:
  assumes "h < length xs"
  shows "rotate (Suc h) (xs[h := x]) = tl (rotate h xs) @ [x]"
proof -
  have "rotate h (xs[h := x]) = x # tl (rotate h xs)"
    using assms by (simp add: rotate_drop_take drop_update_swap Cons_nth_drop_Suc [symmetric])
  then show ?thesis
    by simp
qed

lemma sorted_flags:
  assumes "sorted (map fst (c # cs))"
  shows "fst c \<Longrightarrow> filter fst (c # cs) = c # cs"
  using assms by (auto simp: filter_id_conv)

lemma records_claim:
  fixes t :: EgressTracker and rec :: EgressRecord
  assumes "tracker_ok t" and "er_seq rec \<notin> er_seq ` set (records t)"
  defines "u \<equiv> t\<lparr>et_ring := (et_ring t)[et_head t := rec], et_valid := (et_valid t)[et_head t := True],
                  et_head := (et_head t + 1) mod TX_EGRESS_QUEUE_SIZE\<rparr>"
  shows "cells u = tl (cells t) @ [(True, rec)]" and "records u = remember rec (records t)" and "tracker_ok u"
proof -
  let ?z = "zip (et_valid t) (et_ring t)"
  have len: "length ?z = TX_EGRESS_QUEUE_SIZE" "et_head t < length ?z"
    using assms(1) by (simp_all add: tracker_ok_def)
  have "cells u = rotate (Suc (et_head t)) (?z[et_head t := (True, rec)])"
    by (subst rotate_conv_mod) (use len in \<open>simp add: cells_def u_def zip_update\<close>)
  then show cells: "cells u = tl (cells t) @ [(True, rec)]"
    unfolding rotate_update_head [OF len(2)] by (simp add: cells_def)
  obtain c cs where t: "cells t = c # cs" "length cs = 3"
  proof -
    have "length (cells t) = Suc 3"
      using len by (simp add: cells_def TX_EGRESS_QUEUE_SIZE_def)
    then show thesis
      using that by (cases "cells t") simp_all
  qed
  have sorted: "sorted (map fst (c # cs))" and dist: "distinct (map er_seq (map snd (filter fst (c # cs))))"
    using assms(1) t by (simp_all add: tracker_ok_def records_def)
  have new: "er_seq rec \<notin> er_seq ` set (map snd (filter fst (c # cs)))"
    using assms(2) t by (simp add: records_def)
  show rs: "records u = remember rec (records t)"
  proof (cases "fst c")
    case True
    then have "filter fst (c # cs) = c # cs"
      using sorted_flags [OF sorted] by simp
    then show ?thesis
      using cells new t True by (simp add: records_def remember_def TX_EGRESS_QUEUE_SIZE_def)
  next
    case False
    then have "length (filter fst cs) \<le> 3"
      using t(2) length_filter_le [of fst cs] by simp
    then show ?thesis
      using cells new t False by (simp add: records_def remember_def TX_EGRESS_QUEUE_SIZE_def)
  qed
  have "records u = map snd (filter fst cs) @ [rec]"
    using cells t by (simp add: records_def)
  then have "distinct (map er_seq (records u))"
    using dist new by (auto split: if_splits)
  moreover have "sorted (map fst (cells u))"
    using sorted cells t by (simp add: sorted_append)
  ultimately show "tracker_ok u"
    using len assms(1) by (simp add: tracker_ok_def u_def)
qed

text \<open>The update in place touches the one cell that holds the number.\<close>

definition set_phase :: "EgressRecord \<Rightarrow> EgressRecord \<Rightarrow> EgressRecord" where
  "set_phase rec r = (if er_seq r = er_seq rec then r\<lparr>er_phase := er_phase rec\<rparr> else r)"

lemma er_seq_set_phase [simp]: "er_seq (set_phase rec r) = er_seq r"
  by (simp add: set_phase_def)

lemma records_mem: "tracker_ok t \<Longrightarrow> set (records t) = {et_ring t ! i |i. i < TX_EGRESS_QUEUE_SIZE \<and> et_valid t ! i}"
  by (force simp: records_def cells_def tracker_ok_def set_zip)

lemma ring_inj:
  assumes "tracker_ok t" and "i < TX_EGRESS_QUEUE_SIZE" "j < TX_EGRESS_QUEUE_SIZE" and "et_valid t ! i" "et_valid t ! j"
    and "er_seq (et_ring t ! i) = er_seq (et_ring t ! j)"
  shows "i = j"
proof -
  let ?z = "zip (et_valid t) (et_ring t)"
  have len: "length ?z = TX_EGRESS_QUEUE_SIZE"
    using assms(1) by (simp add: tracker_ok_def)
  have "mset (rotate n xs) = mset xs" for n and xs :: "(bool \<times> EgressRecord) list"
    by (metis append_take_drop_id mset_append rotate_drop_take union_commute)
  then have "mset (filter fst ?z) = mset (filter fst (cells t))"
    by (simp add: cells_def)
  then have "mset (map (er_seq \<circ> snd) (filter fst ?z)) = mset (map er_seq (records t))"
    by (simp add: records_def)
  then have "distinct (map (er_seq \<circ> snd) (filter fst ?z))"
    using assms(1) by (metis mset_eq_imp_distinct_iff tracker_ok_def)
  then have "table_ok fst (er_seq \<circ> snd) TX_EGRESS_QUEUE_SIZE ?z"
    using len by (simp add: table_ok_def)
  from table_ok_inj [OF this assms(2,3)] show ?thesis
    using assms len by simp
qed

lemma records_update:
  fixes t :: EgressTracker and rec :: EgressRecord
  assumes ok: "tracker_ok t" and i: "i < TX_EGRESS_QUEUE_SIZE" "et_valid t ! i" "er_seq (et_ring t ! i) = er_seq rec"
  defines "u \<equiv> t\<lparr>et_ring := (et_ring t)[i := (et_ring t ! i)\<lparr>er_phase := er_phase rec\<rparr>]\<rparr>"
  shows "records u = remember rec (records t)" and "tracker_ok u"
proof -
  let ?upd = "\<lambda>(v, r). (v, if v then set_phase rec r else r)"
  have len: "length (et_ring t) = TX_EGRESS_QUEUE_SIZE" "length (et_valid t) = TX_EGRESS_QUEUE_SIZE"
    using ok by (simp_all add: tracker_ok_def)
  have "zip (et_valid u) (et_ring u) = map ?upd (zip (et_valid t) (et_ring t))"
  proof (intro nth_equalityI)
    fix j
    assume "j < length (zip (et_valid u) (et_ring u))"
    then have j: "j < TX_EGRESS_QUEUE_SIZE"
      using len by (simp add: u_def)
    then have "j = i" if "et_valid t ! j" "er_seq (et_ring t ! j) = er_seq rec"
      using that i ring_inj [OF ok j i(1)] by simp
    then show "zip (et_valid u) (et_ring u) ! j = map ?upd (zip (et_valid t) (et_ring t)) ! j"
      using len i j by (cases "j = i") (auto simp: u_def set_phase_def)
  qed (simp add: u_def)
  then have cells: "cells u = map ?upd (cells t)"
    by (simp add: cells_def u_def rotate_map)
  have "filter fst (map ?upd cs) = map ?upd (filter fst cs)" "map snd (map ?upd (filter fst cs)) = map (set_phase rec) (map snd (filter fst cs))" for cs
    by (induction cs) auto
  then have rs: "records u = map (set_phase rec) (records t)"
    by (simp add: records_def cells)
  have "et_ring t ! i \<in> set (records t)"
    using i by (auto simp: records_mem [OF ok])
  then have "er_seq rec \<in> er_seq ` set (records t)"
    using i(3) by (metis imageI)
  then show "records u = remember rec (records t)"
    using rs by (simp add: remember_def set_phase_def)
  have "map fst (cells u) = map fst (cells t)" "map er_seq (records u) = map er_seq (records t)"
    by (simp_all add: cells rs case_prod_unfold o_def)
  then show "tracker_ok u"
    using ok by (simp add: tracker_ok_def u_def)
qed

lemma tracker_ok_next_seq [simp]: "tracker_ok (t\<lparr>et_next_seq := n\<rparr>) = tracker_ok t" "records (t\<lparr>et_next_seq := n\<rparr>) = records t"
  by (simp_all add: tracker_ok_def records_def cells_def)

lemma on_apply_records:
  assumes "tracker_ok t"
  shows "tracker_ok (on_apply rec t) \<and> records (on_apply rec t) = remember rec (records t)"
proof -
  define u where "u = (if et_next_seq t \<le> er_seq rec then t\<lparr>et_next_seq := er_seq rec + 1\<rparr> else t)"
  have u: "tracker_ok u" "records u = records t"
    using assms by (simp_all add: u_def)
  show ?thesis
  proof (cases "find_index (\<lambda>i. et_valid u ! i \<and> er_seq (et_ring u ! i) = er_seq rec) [0..<TX_EGRESS_QUEUE_SIZE]")
    case None
    then have "er_seq rec \<notin> er_seq ` set (records u)"
      by (auto simp: find_index_None_iff records_mem [OF u(1)])
    from records_claim [OF u(1) this] show ?thesis
      using None u(2) by (simp add: on_apply_def u_def [symmetric] Let_def)
  next
    case (Some i)
    then have i: "i < TX_EGRESS_QUEUE_SIZE" "et_valid u ! i" "er_seq (et_ring u ! i) = er_seq rec"
      by (auto simp: find_index_Some_iff)
    from records_update [OF u(1) i] show ?thesis
      using Some u(2) by (simp add: on_apply_def u_def [symmetric] Let_def)
  qed
qed

lemma new_tracker_ok: "tracker_ok new_tracker" and new_tracker_records: "records new_tracker = []"
  by (simp_all add: tracker_ok_def new_tracker_def records_def cells_def TX_EGRESS_QUEUE_SIZE_def numeral_eq_Suc)

text \<open>Both laws for a sequence of records.\<close>

lemma fold_on_apply:
  "tracker_ok t \<Longrightarrow> tracker_ok (fold on_apply recs t) \<and> records (fold on_apply recs t) = fold remember recs (records t)"
  by (induction recs arbitrary: t) (simp_all add: on_apply_records)

section \<open>The record to resume\<close>

definition started :: "EgressRecord \<Rightarrow> bool" where
  "started r \<longleftrightarrow> er_phase r = STARTED"

text \<open>The started record with the highest sequence number.\<close>

definition highest :: "EgressRecord list \<Rightarrow> EgressRecord option" where
  "highest rs = (case sort_key er_seq rs of [] \<Rightarrow> None | s # ss \<Rightarrow> Some (last (s # ss)))"

lemma highest_None [simp]: "highest rs = None \<longleftrightarrow> rs = []"
  by (auto simp: highest_def split: list.splits dest: arg_cong [of _ _ set])

lemma highest_eqI:
  assumes "r \<in> set rs" and "\<And>r'. r' \<in> set rs \<Longrightarrow> er_seq r' \<le> er_seq r" and "distinct (map er_seq rs)"
  shows "highest rs = Some r"
proof -
  obtain s ss where ss: "sort_key er_seq rs = s # ss"
    using assms(1) by (metis empty_iff empty_set list.exhaust set_sort)
  then have mem: "last (s # ss) \<in> set rs"
    by (metis last_in_set list.distinct(1) set_sort)
  have "sorted (map er_seq (s # ss))"
    using sorted_sort_key [of er_seq rs] by (simp add: ss)
  moreover have "r \<in> set (s # ss)"
    using assms(1) ss by (metis set_sort)
  ultimately have "er_seq r \<le> er_seq (last (s # ss))"
    by (induction ss arbitrary: s) (auto split: if_splits)
  with assms(2) [OF mem] have "er_seq (last (s # ss)) = er_seq r"
    by (rule antisym)
  then have "last (s # ss) = r"
    using mem assms(1,3) by (metis distinct_map inj_onD)
  then show ?thesis
    by (simp add: highest_def ss)
qed

text \<open>What the loop has found after the first \<open>n\<close> cells.\<close>

definition best_of :: "EgressTracker \<Rightarrow> nat \<Rightarrow> u32 option \<times> u64 \<Rightarrow> bool" where
  "best_of t n best \<longleftrightarrow>
     (case fst best of
        None \<Rightarrow> \<forall>i < n. \<not> (et_valid t ! i \<and> started (et_ring t ! i))
      | Some seq \<Rightarrow> (\<exists>i < n. et_valid t ! i \<and> started (et_ring t ! i) \<and> er_seq (et_ring t ! i) = seq \<and>
                              er_batch_log_index (et_ring t ! i) = snd best) \<and>
                    (\<forall>i < n. et_valid t ! i \<and> started (et_ring t ! i) \<longrightarrow> er_seq (et_ring t ! i) \<le> seq))"

lemma better_best: "best_of t n best \<Longrightarrow> best_of t (Suc n) (better t best n)"
  by (cases "fst best") (auto simp: best_of_def better_def started_def less_Suc_eq not_less)

lemma fold_better: "best_of t n (foldl (better t) (None, 0) [0..<n])"
proof (induction n)
  case 0
  show ?case
    by (simp add: best_of_def)
next
  case (Suc n)
  then show ?case
    using better_best by simp
qed

lemma outstanding_spec:
  assumes "tracker_ok t"
  shows "fst (outstanding t) = map_option (\<lambda>r. \<lparr>os_log_index = er_batch_log_index r, os_sequence = er_seq r\<rparr>)
    (highest (filter started (records t)))"
proof -
  obtain best where best: "foldl (better t) (None, 0) [0..<TX_EGRESS_QUEUE_SIZE] = best"
    by simp
  have *: "best_of t TX_EGRESS_QUEUE_SIZE best"
    using fold_better [of t TX_EGRESS_QUEUE_SIZE] by (simp add: best)
  show ?thesis
  proof (cases "fst best")
    case None
    then have "filter started (records t) = []"
      using * by (auto simp: best_of_def filter_empty_conv records_mem [OF assms])
    with None best show ?thesis
      by (simp add: outstanding_def case_prod_unfold)
  next
    case (Some seq)
    then obtain i where i: "i < TX_EGRESS_QUEUE_SIZE" "et_valid t ! i" "started (et_ring t ! i)" "er_seq (et_ring t ! i) = seq"
      "er_batch_log_index (et_ring t ! i) = snd best" and
      top: "\<forall>i < TX_EGRESS_QUEUE_SIZE. et_valid t ! i \<and> started (et_ring t ! i) \<longrightarrow> er_seq (et_ring t ! i) \<le> seq"
      using * by (auto simp: best_of_def)
    have "highest (filter started (records t)) = Some (et_ring t ! i)"
    proof (rule highest_eqI)
      show "distinct (map er_seq (filter started (records t)))"
        using assms by (simp add: tracker_ok_def distinct_map_filter)
    qed (use i top in \<open>auto simp: records_mem [OF assms]\<close>)
    with Some best i show ?thesis
      by (simp add: outstanding_def case_prod_unfold)
  qed
qed

section \<open>Fresh sequence numbers\<close>

lemma on_apply_next_seq: "et_next_seq (on_apply rec t) = (if et_next_seq t \<le> er_seq rec then er_seq rec + 1 else et_next_seq t)"
  by (simp add: on_apply_def Let_def split: option.splits)

lemma next_seq_above:
  assumes "er_seq rec \<noteq> - 1"
  shows "er_seq rec < et_next_seq (on_apply rec t) \<and> et_next_seq t \<le> et_next_seq (on_apply rec t)"
proof -
  have "er_seq rec < - 1"
    using assms word_order.not_eq_extremum by blast
  then have "unat (er_seq rec + 1) = Suc (unat (er_seq rec))"
    by (rule unat_Suc_no_wrap)
  then show ?thesis
    by (auto simp: on_apply_next_seq word_cmp_unat)
qed

lemma fold_next_seq:
  assumes "- 1 \<notin> er_seq ` set recs"
  shows "et_next_seq t \<le> et_next_seq (fold on_apply recs t) \<and> (\<forall>r \<in> set recs. er_seq r < et_next_seq (fold on_apply recs t))"
  using assms
proof (induction recs arbitrary: t)
  case (Cons r recs)
  then have "er_seq r \<noteq> - 1" "- 1 \<notin> er_seq ` set recs"
    by auto
  then show ?case
    using next_seq_above [of r t] Cons.IH [of "on_apply r t"] by (auto intro: order_less_le_trans order_trans)
qed simp

section \<open>Properties\<close>

text \<open>
  C22. The ring of every node implements a list of the last four sequence numbers: after any
  records, in any order and with repetitions, it holds what the list holds, and the record it
  offers for a resend is the started one with the highest number, under the log index it was
  first committed with.
\<close>

theorem egress_ring_is_a_bounded_list:
  "records (fold on_apply recs new_tracker) = fold remember recs [] \<and>
   fst (outstanding (fold on_apply recs new_tracker)) =
     map_option (\<lambda>r. \<lparr>os_log_index = er_batch_log_index r, os_sequence = er_seq r\<rparr>) (highest (filter started (fold remember recs [])))"
  using fold_on_apply [OF new_tracker_ok, of recs] outstanding_spec [of "fold on_apply recs new_tracker"]
  by (simp add: new_tracker_records)



text \<open>
  Asking for the record to resume sets the counter back: after two uplinks of which only the first
  lacks its confirmation, a node that becomes leader hands out the number of the second again.
\<close>

lemma outstanding_reuses_a_number:
  "let r = (\<lambda>i n p. \<lparr>er_batch_log_index = i, er_seq = n, er_phase = p\<rparr>);
       t = fold on_apply [r 10 0 STARTED, r 11 1 STARTED, r 11 1 SENT] new_tracker
   in next_seq t = 2 \<and> next_seq (snd (outstanding t)) = 1"
  by code_simp

text \<open>
  The batch that reuses the number is then recorded under the log index of the other one, and that
  is the one a later leader would send.
\<close>

lemma reused_number_keeps_the_old_index:
  "let r = (\<lambda>i n p. \<lparr>er_batch_log_index = i, er_seq = n, er_phase = p\<rparr>);
       t = fold on_apply [r 10 0 STARTED, r 11 1 STARTED, r 11 1 SENT, r 10 0 SENT, r 15 1 STARTED] new_tracker
   in map_option os_log_index (fst (outstanding t)) = Some 11"
  by code_simp

end
