(* ===== verification/Egress_Coordinator.thy ===== *)
theory Egress_Coordinator
  imports Egress_Tracker Memory_Image
begin

text \<open>
  The coordinator of the uplinks, \<^verbatim>\<open>firmware/fog/src/egress/egress_coordinator.hpp\<close>, and
  the image of its records in the replicated log. The hooks of the coordinator are functions on a state of their own; they do not call the
  coordinator, whose mutex makes each of its operations one step.
\<close>

section \<open>Egress records in the log\<close>

definition SIZEOF_EGRESS :: nat where [config_defs]: "SIZEOF_EGRESS = 16"

definition store_egress :: "u8 list \<Rightarrow> EgressRecord \<Rightarrow> u8 list" where
  "store_egress pad r = le64 (er_batch_log_index r) @ le32 (er_seq r) @ [er_phase r] @ pad"

definition load_egress :: "u8 list \<Rightarrow> EgressRecord" where
  "load_egress b = \<lparr>er_batch_log_index = rdU64LE b 0, er_seq = rdU32LE b 8, er_phase = b ! 12\<rparr>"

definition storable_egress :: "u8 list \<Rightarrow> EgressRecord \<Rightarrow> bool" where
  "storable_egress pad r \<longleftrightarrow> length pad = 3"

interpretation egress: entry_image store_egress load_egress storable_egress SIZEOF_EGRESS
proof unfold_locales
  fix pad rest :: "u8 list" and r :: EgressRecord
  assume r: "storable_egress pad r"
  then show "length (store_egress pad r) = SIZEOF_EGRESS"
    by (simp add: store_egress_def storable_egress_def SIZEOF_EGRESS_def)
  show "load_egress (store_egress pad r @ rest) = r"
    using rd64 [of "[]" "er_batch_log_index r"] rd32 [of "le64 (er_batch_log_index r)" "er_seq r"]
    by (simp add: store_egress_def load_egress_def nth_append)
qed (simp add: config_defs)

section \<open>The coordinator\<close>

record 's Hooks =
  hk_is_leader :: "'s \<Rightarrow> bool"
  hk_submit_egress :: "EgressRecord \<Rightarrow> 's \<Rightarrow> bool \<times> 's"
  hk_read_entry :: "u64 \<Rightarrow> 's \<Rightarrow> Entry option"
  hk_lorawan_send :: "SensorBatch \<Rightarrow> u64 \<Rightarrow> u64 \<Rightarrow> u32 \<Rightarrow> 's \<Rightarrow> 's"

definition on_egress_applied :: "EgressRecord \<Rightarrow> EgressTracker \<Rightarrow> EgressTracker" where
  "on_egress_applied rec t = on_apply rec t"

definition on_lorawan_ok :: "'s Hooks \<Rightarrow> u32 \<Rightarrow> u64 \<Rightarrow> 's \<Rightarrow> 's" where
  "on_lorawan_ok hooks seq batch_index s =
     snd (hk_submit_egress hooks \<lparr>er_batch_log_index = batch_index, er_seq = seq, er_phase = SENT\<rparr> s)"

definition dispatch :: "'s Hooks \<Rightarrow> u32 \<Rightarrow> u64 \<Rightarrow> 's \<Rightarrow> 's" where
  "dispatch hooks seq batch_index s =
     (case hk_read_entry hooks batch_index s of
        None \<Rightarrow> on_lorawan_ok hooks seq batch_index s
      | Some entry \<Rightarrow>
          if unat (e_data_len entry) < SIZEOF_BATCH then s
          else hk_lorawan_send hooks (load_batch (e_data entry)) (e_term entry) (e_index entry) seq s)"

definition begin_egress :: "'s Hooks \<Rightarrow> u64 \<Rightarrow> EgressTracker \<Rightarrow> 's \<Rightarrow> 's" where
  "begin_egress hooks batch_index t s =
     (if \<not> hk_is_leader hooks s then s
      else let seq = next_seq t;
               (accepted, s1) = hk_submit_egress hooks \<lparr>er_batch_log_index = batch_index, er_seq = seq, er_phase = STARTED\<rparr> s
           in if \<not> accepted then s1 else dispatch hooks seq batch_index s1)"

definition on_became_leader :: "'s Hooks \<Rightarrow> EgressTracker \<Rightarrow> 's \<Rightarrow> EgressTracker \<times> 's" where
  "on_became_leader hooks t s =
     (case outstanding t of
        (None, t1) \<Rightarrow> (t1, s)
      | (Some match, t1) \<Rightarrow> (t1, dispatch hooks (os_sequence match) (os_log_index match) s))"

text \<open>What a dispatch of a batch that is still in the log does.\<close>

lemma dispatch_batch:
  assumes "hk_read_entry hooks i s = Some (submit_entry type (store_batch pad b) srv)" and "storable_batch pad b"
  shows "dispatch hooks seq i s =
    hk_lorawan_send hooks b (m_current_term srv) (last_index (m_log srv) + 1) seq s"
  using assms(1) batch.entry_image [OF assms(2), of type srv]
  by (simp add: dispatch_def) (simp add: submit_entry_def)

text \<open>A node that has just applied the start of the newest uplink resumes that one.\<close>

lemma resume_newest:
  assumes "tracker_ok t" and "\<forall>r \<in> set (records t). er_seq r \<noteq> seq" and "\<forall>r \<in> set (records t). started r \<longrightarrow> er_seq r < seq"
  shows "fst (outstanding (on_apply \<lparr>er_batch_log_index = i, er_seq = seq, er_phase = STARTED\<rparr> t)) =
    Some \<lparr>os_log_index = i, os_sequence = seq\<rparr>"
proof -
  let ?rec = "\<lparr>er_batch_log_index = i, er_seq = seq, er_phase = STARTED\<rparr>"
  have app: "tracker_ok (on_apply ?rec t)" "records (on_apply ?rec t) = drop (length (records t) + 1 - TX_EGRESS_QUEUE_SIZE) (records t @ [?rec])"
    using on_apply_records [OF assms(1)] assms(2) by (auto simp: remember_def)
  have "length (records t) \<le> TX_EGRESS_QUEUE_SIZE"
    using assms(1) length_filter_le [of fst "cells t"] by (simp add: records_def cells_def tracker_ok_def)
  then have mem: "?rec \<in> set (records (on_apply ?rec t))"
    by (simp add: app TX_EGRESS_QUEUE_SIZE_def)
  have sub: "set (records (on_apply ?rec t)) \<subseteq> insert ?rec (set (records t))"
    unfolding app using set_drop_subset by fastforce
  have top: "er_seq r \<le> seq" if "r \<in> set (filter started (records (on_apply ?rec t)))" for r
    using that sub assms(3) by (auto dest!: subsetD intro: less_imp_le)
  have "distinct (map er_seq (filter started (records (on_apply ?rec t))))"
    using app(1) by (simp add: tracker_ok_def distinct_map_filter)
  with mem have "highest (filter started (records (on_apply ?rec t))) = Some ?rec"
    using top by (intro highest_eqI) (simp_all add: started_def)
  then show ?thesis
    using outstanding_spec [OF app(1)] by simp
qed

end
