(* ===== verification/Vote_Engine.thy ===== *)
theory Vote_Engine
  imports Sensor_Reading Slot_Table
begin

text \<open>
  The voting engine, \<^verbatim>\<open>firmware/fog/src/outlier_vote/engine.hpp\<close>: it collects one
  reading per sensor and window, votes with the median, marks outliers, keeps a reputation per
  sensor and a flood alert with hysteresis. \<open>VoteEngine\<close> holds the class's fields; each member
  function is a definition of the same name.
\<close>

section \<open>Configuration and state\<close>

definition tolerance_mm :: u16 where [config_defs]: "tolerance_mm = 200"
definition alert_threshold_mm :: u16 where [config_defs]: "alert_threshold_mm = 1500"
definition alert_clear_windows :: u8 where [config_defs]: "alert_clear_windows = 3"
definition reputation_penalty :: int where [config_defs]: "reputation_penalty = 20"
definition reputation_recovery :: int where [config_defs]: "reputation_recovery = 5"
definition reputation_min :: u8 where [config_defs]: "reputation_min = 20"
definition reputation_readmit :: u8 where [config_defs]: "reputation_readmit = 40"
definition reputation_initial :: u8 where [config_defs]: "reputation_initial = 100"
definition MIN_REPORTERS :: nat where [config_defs]: "MIN_REPORTERS = 3"
definition MAX_REPUTATION :: int where [config_defs]: "MAX_REPUTATION = 100"
definition MIN_REPUTATION :: int where [config_defs]: "MIN_REPUTATION = 10"

record Reputation =
  rep_eui :: Eui
  rep_reputation :: u8
  rep_known :: bool
  rep_excluded :: bool

definition blank_reputation :: Reputation where
  "blank_reputation = \<lparr>rep_eui = 0, rep_reputation = 0, rep_known = False, rep_excluded = False\<rparr>"

record VoteEngine =
  ve_collection_window_ms :: u32
  ve_euis :: "Eui list"
  ve_readings :: "u16 list"
  ve_validity :: "Validity list"
  ve_detail :: "Detail list"
  ve_timestamps :: "u32 list"
  ve_reported :: u32
  ve_slot_count :: nat
  ve_reputation :: "Reputation list"
  ve_alert_active :: bool
  ve_clean_windows :: u8

definition new_engine :: VoteEngine where
  "new_engine =
    \<lparr>ve_collection_window_ms = ucast DEFAULT_TIMEOUT_MS, ve_euis = replicate MAX_SENSORS 0,
     ve_readings = replicate MAX_SENSORS 0, ve_validity = replicate MAX_SENSORS 0,
     ve_detail = replicate MAX_SENSORS 0, ve_timestamps = replicate MAX_SENSORS 0,
     ve_reported = 0, ve_slot_count = 0, ve_reputation = replicate MAX_SENSORS blank_reputation,
     ve_alert_active = False, ve_clean_windows = 0\<rparr>"

section \<open>Collecting readings\<close>

definition set_collection_window :: "u32 \<Rightarrow> VoteEngine \<Rightarrow> VoteEngine" where
  "set_collection_window w e = e\<lparr>ve_collection_window_ms := w\<rparr>"

text \<open>The result is the slot; \<^verbatim>\<open>-1\<close> is \<open>None\<close>.\<close>

definition slot_for :: "Eui \<Rightarrow> VoteEngine \<Rightarrow> (nat \<times> VoteEngine) option" where
  "slot_for eui e =
     (case find_index (\<lambda>x. x = eui) (take (ve_slot_count e) (ve_euis e)) of
        Some i \<Rightarrow> Some (i, e)
      | None \<Rightarrow>
          if MAX_SENSORS \<le> ve_slot_count e then None
          else let slot = ve_slot_count e
               in Some (slot, e\<lparr>ve_slot_count := Suc (ve_slot_count e), ve_euis := (ve_euis e)[slot := eui]\<rparr>))"

definition accumulate :: "SensorReadingWire \<Rightarrow> VoteEngine \<Rightarrow> bool \<times> VoteEngine" where
  "accumulate entry e =
     (case slot_for (w_eui entry) e of
        None \<Rightarrow> (False, e)
      | Some (slot, e1) \<Rightarrow>
          (True, e1\<lparr>ve_readings := (ve_readings e1)[slot := w_water_level_mm entry],
                    ve_validity := (ve_validity e1)[slot := w_validity entry],
                    ve_detail := (ve_detail e1)[slot := w_detail entry],
                    ve_timestamps := (ve_timestamps e1)[slot := ucast (w_timestamp entry)],
                    ve_reported := ve_reported e1 OR push_bit slot 1\<rparr>))"

definition open_window :: "VoteEngine \<Rightarrow> VoteEngine" where
  "open_window e = e\<lparr>ve_reported := 0\<rparr>"

section \<open>The vote\<close>

definition clamp_reputation :: "int \<Rightarrow> u8" where
  "clamp_reputation value = word_of_int (max MIN_REPUTATION (min value MAX_REPUTATION))"

text \<open>
  \<^verbatim>\<open>std::nth_element\<close> may leave any arrangement in which the element at the given
  position is the one a sort would put there and nothing before it is larger. A sorted list is one
  such arrangement; the result of \<open>median_n\<close> does not depend on which one is produced.
\<close>

definition nth_element :: "nat \<Rightarrow> u16 list \<Rightarrow> u16 list" where
  "nth_element mid xs = sort xs"

definition median_at :: "nat \<Rightarrow> u16 list \<Rightarrow> u16" where
  "median_at n buf =
     (let mid = n div 2
      in if n mod 2 = 0
         then ucast ((ucast (Max (set (take mid buf))) + ucast (buf ! mid) :: u32) div 2)
         else buf ! mid)"

definition median_n :: "u16 list \<Rightarrow> u16" where
  "median_n xs =
     (let n = min (length xs) MAX_SENSORS
      in if n = 0 then 0
         else median_at n (nth_element (n div 2) (take n xs)))"

definition fresh_reputation :: "Eui \<Rightarrow> Reputation" where
  "fresh_reputation eui = \<lparr>rep_eui = eui, rep_reputation = reputation_initial, rep_known = True, rep_excluded = False\<rparr>"

text \<open>The pointer to a table element is its index.\<close>

definition rep_for :: "Eui \<Rightarrow> Reputation list \<Rightarrow> (nat \<times> Reputation list) option" where
  "rep_for eui reps =
     (case find_index (\<lambda>r. rep_known r \<and> rep_eui r = eui) reps of
        Some i \<Rightarrow> Some (i, reps)
      | None \<Rightarrow>
          (case find_index (\<lambda>r. \<not> rep_known r) reps of
             Some i \<Rightarrow> Some (i, reps[i := fresh_reputation eui])
           | None \<Rightarrow> None))"

definition judge :: "bool \<Rightarrow> Reputation \<Rightarrow> Reputation" where
  "judge is_outlier rep =
     (if is_outlier
      then let rep1 = rep\<lparr>rep_reputation := clamp_reputation (uint (rep_reputation rep) - reputation_penalty)\<rparr>
           in if rep_reputation rep1 < reputation_min then rep1\<lparr>rep_excluded := True\<rparr> else rep1
      else let rep1 = rep\<lparr>rep_reputation := clamp_reputation (uint (rep_reputation rep) + reputation_recovery)\<rparr>
           in if rep_excluded rep1 \<and> reputation_readmit \<le> rep_reputation rep1
              then rep1\<lparr>rep_excluded := False\<rparr> else rep1)"

definition is_outlier :: "u16 \<Rightarrow> u16 \<Rightarrow> bool" where
  "is_outlier val med \<longleftrightarrow> tolerance_mm < max val med - min val med"

definition build_entry :: "SensorBatch \<Rightarrow> nat \<Rightarrow> u16 \<Rightarrow> VoteEngine \<Rightarrow> SensorBatch \<times> VoteEngine" where
  "build_entry out slot med e =
     (let eui = ve_euis e ! slot;
          val = ve_readings e ! slot;
          outlier = is_outlier val med;
          (excluded, e1) =
            (case rep_for eui (ve_reputation e) of
               None \<Rightarrow> (False, e)
             | Some (i, reps) \<Rightarrow>
                 let rep = judge outlier (reps ! i)
                 in (rep_excluded rep, e\<lparr>ve_reputation := reps[i := rep]\<rparr>));
          (validity, detail) =
            (if excluded then (VALIDITY_INVALID, ve_detail e1 ! slot OR DETAIL_OUTLIER)
             else if outlier then (VALIDITY_QUESTIONABLE, ve_detail e1 ! slot OR DETAIL_OUTLIER)
             else (ve_validity e1 ! slot, ve_detail e1 ! slot));
          entry = \<lparr>w_eui = eui, w_timestamp = ucast (ve_timestamps e1 ! slot), w_water_level_mm = val,
                   w_validity = validity, w_detail = detail, w_seq = 0\<rparr>
      in (out\<lparr>sb_entries := (sb_entries out)[unat (sb_count out) := entry], sb_count := sb_count out + 1\<rparr>, e1))"

text \<open>The slots that have reported, in slot order.\<close>

definition reporters :: "VoteEngine \<Rightarrow> nat list" where
  "reporters e = filter (\<lambda>slot. ve_reported e AND push_bit slot 1 \<noteq> 0) [0..<ve_slot_count e]"

fun build_all :: "SensorBatch \<Rightarrow> nat list \<Rightarrow> u16 \<Rightarrow> VoteEngine \<Rightarrow> SensorBatch \<times> VoteEngine" where
  "build_all out [] med e = (out, e)"
| "build_all out (slot # slots) med e =
     (if MAX_SENSORS \<le> unat (sb_count out) then (out, e)
      else let (out1, e1) = build_entry out slot med e in build_all out1 slots med e1)"

definition close_window :: "VoteEngine \<Rightarrow> SensorBatch option \<times> VoteEngine" where
  "close_window e =
     (let rs = reporters e;
          vals = map (\<lambda>slot. ve_readings e ! slot) rs;
          e1 = e\<lparr>ve_reported := 0\<rparr>
      in if length rs < MIN_REPORTERS then (None, e1)
         else let (out, e2) = build_all zero_batch rs (median_n vals) e1
              in if sb_count out = 0 then (None, e2) else (Some out, e2))"

section \<open>The alert\<close>

definition check_alert :: "SensorBatch \<Rightarrow> VoteEngine \<Rightarrow> bool \<times> VoteEngine" where
  "check_alert b e =
     (let trigger = list_ex (\<lambda>w. w_validity w = VALIDITY_GOOD \<and> alert_threshold_mm \<le> w_water_level_mm w)
                      (batch_entries b);
          e1 = (if trigger then e\<lparr>ve_clean_windows := 0, ve_alert_active := True\<rparr>
                else if ve_alert_active e
                     then let n = ve_clean_windows e + 1
                          in if alert_clear_windows \<le> n
                             then e\<lparr>ve_alert_active := False, ve_clean_windows := 0\<rparr>
                             else e\<lparr>ve_clean_windows := n\<rparr>
                     else e)
      in (ve_alert_active e1, e1))"

text \<open>The known reputations, as many as the caller's buffer holds.\<close>

definition reputation_snapshot :: "nat \<Rightarrow> VoteEngine \<Rightarrow> Reputation list" where
  "reputation_snapshot cap e = take cap (filter rep_known (ve_reputation e))"

end
