(* ===== verification/Vote_Median.thy ===== *)
theory Vote_Median
  imports Vote_Engine
begin

text \<open>
  The median vote: its result does not depend on how \<^verbatim>\<open>std::nth_element\<close> arranges
  the buffer, and as long as more than half of the readings are honest it lies within the range of
  the honest readings. From that follow the guarantees for honest sensors and against faulty ones.
\<close>

section \<open>Independence of the selection algorithm\<close>

text \<open>What the standard promises of the buffer after the call.\<close>

definition selected :: "nat \<Rightarrow> u16 list \<Rightarrow> u16 list \<Rightarrow> bool" where
  "selected mid xs ys \<longleftrightarrow>
     mset ys = mset xs \<and> (\<forall>i < mid. ys ! i \<le> ys ! mid) \<and>
     (\<forall>i. mid < i \<and> i < length ys \<longrightarrow> ys ! mid \<le> ys ! i)"

lemma selected_sort:
  assumes "selected mid xs ys" and "mid < length xs"
  shows "sort xs = sort (take mid ys) @ ys ! mid # sort (drop (Suc mid) ys)"
proof -
  have len: "length ys = length xs"
    using assms(1) by (metis selected_def size_mset)
  have split: "ys = take mid ys @ ys ! mid # drop (Suc mid) ys"
    using assms(2) len by (simp add: id_take_nth_drop)
  have lo: "\<forall>x \<in> set (take mid ys). x \<le> ys ! mid"
    using assms len by (auto simp: selected_def in_set_conv_nth)
  have hi: "\<forall>x \<in> set (drop (Suc mid) ys). ys ! mid \<le> x"
  proof
    fix x
    assume "x \<in> set (drop (Suc mid) ys)"
    then obtain i where "i < length (drop (Suc mid) ys)" "x = ys ! (Suc mid + i)"
      by (auto simp: in_set_conv_nth)
    then show "ys ! mid \<le> x"
      using assms(1) by (auto simp: selected_def)
  qed
  have "sorted (sort (take mid ys) @ ys ! mid # sort (drop (Suc mid) ys))"
    using lo hi by (auto simp: sorted_append intro: order_trans)
  moreover have "mset (sort (take mid ys) @ ys ! mid # sort (drop (Suc mid) ys)) = mset xs"
    using assms(1) split by (metis mset_append mset.simps(2) mset_sort selected_def)
  ultimately show ?thesis
    by (metis properties_for_sort)
qed

lemma selected_nth_element: "mid < length xs \<Longrightarrow> selected mid xs (nth_element mid xs)"
  by (auto simp: selected_def nth_element_def intro!: sorted_nth_mono)

lemma median_at_selected:
  assumes "selected (n div 2) xs ys" and "length xs = n" and "0 < n"
  shows "median_at n ys = median_at n (sort xs)"
proof -
  let ?mid = "n div 2"
  have m: "?mid < length xs"
    using assms(2,3) by simp
  have len: "length ys = length xs"
    using assms(1) by (metis selected_def size_mset)
  note s = selected_sort [OF assms(1) m]
  have "sort xs ! ?mid = ys ! ?mid"
    unfolding s using m len by (simp add: nth_append)
  moreover have "set (take ?mid (sort xs)) = set (take ?mid ys)"
    unfolding s using m len by simp
  ultimately show ?thesis
    by (simp add: median_at_def Let_def)
qed

section \<open>An honest majority bounds the median\<close>

lemma sorted_mid_in_range:
  assumes "sorted ys" and "length ys < 2 * length (filter (\<lambda>x. lo \<le> x \<and> x \<le> hi) ys)"
  shows "lo \<le> ys ! (length ys div 2) \<and> ys ! (length ys div 2) \<le> hi"
proof -
  let ?n = "length ys" and ?mid = "length ys div 2"
  let ?P = "\<lambda>x. lo \<le> x \<and> x \<le> hi"
  have pos: "?mid < ?n"
    using assms(2) by (cases ys) auto
  have split: "length (filter ?P ys) = length (filter ?P (take k ys)) + length (filter ?P (drop k ys))" for k
    by (metis append_take_drop_id filter_append length_append)
  have "lo \<le> ys ! ?mid"
  proof (rule ccontr)
    assume "\<not> lo \<le> ys ! ?mid"
    moreover have "x \<le> ys ! ?mid" if "x \<in> set (take (Suc ?mid) ys)" for x
      using that pos assms(1) by (auto simp: in_set_conv_nth less_Suc_eq_le intro: sorted_nth_mono)
    ultimately have "filter ?P (take (Suc ?mid) ys) = []"
      by (auto simp: filter_empty_conv) (meson order_trans)
    then have "length (filter ?P ys) \<le> ?n - Suc ?mid"
      using split [of "Suc ?mid"] length_filter_le [of ?P "drop (Suc ?mid) ys"] by simp
    then show False
      using assms(2) by linarith
  qed
  moreover have "ys ! ?mid \<le> hi"
  proof (rule ccontr)
    assume "\<not> ys ! ?mid \<le> hi"
    moreover have "ys ! ?mid \<le> x" if "x \<in> set (drop ?mid ys)" for x
      using that assms(1) by (auto simp: in_set_conv_nth intro!: sorted_nth_mono)
    ultimately have "filter ?P (drop ?mid ys) = []"
      by (auto simp: filter_empty_conv) (meson order_trans)
    then have "length (filter ?P ys) \<le> ?mid"
      using split [of ?mid] length_filter_le [of ?P "take ?mid ys"] by simp
    then show False
      using assms(2) by linarith
  qed
  ultimately show ?thesis ..
qed

lemma median_n_odd:
  assumes "odd (length xs)" and "length xs \<le> MAX_SENSORS"
  shows "median_n xs = sort xs ! (length xs div 2)"
proof -
  have "0 < length xs" "length xs mod 2 = 1"
    using assms(1) by (auto simp: odd_iff_mod_2_eq_one)
  moreover have "min (length xs) MAX_SENSORS = length xs"
    using assms(2) by simp
  ultimately show ?thesis
    by (simp add: median_n_def Let_def nth_element_def median_at_def)
qed

lemma length_filter_mset_eq:
  assumes "mset ys = mset xs"
  shows "length (filter P ys) = length (filter P xs)"
proof -
  have "mset (filter P ys) = mset (filter P xs)"
    using assms by simp
  then show ?thesis
    by (rule mset_eq_length)
qed

lemma median_n_in_range:
  assumes "odd (length xs)" and "length xs \<le> MAX_SENSORS"
    and "length xs < 2 * length (filter (\<lambda>x. lo \<le> x \<and> x \<le> hi) xs)"
  shows "lo \<le> median_n xs \<and> median_n xs \<le> hi"
proof -
  have "length (filter (\<lambda>x. lo \<le> x \<and> x \<le> hi) (sort xs)) = length (filter (\<lambda>x. lo \<le> x \<and> x \<le> hi) xs)"
    by (rule length_filter_mset_eq) simp
  then show ?thesis
    using sorted_mid_in_range [of "sort xs" lo hi] assms by (simp add: median_n_odd)
qed

lemma is_outlier_unat: "is_outlier v m \<longleftrightarrow> 200 < (if unat m \<le> unat v then unat v - unat m else unat m - unat v)"
  by (auto simp: is_outlier_def tolerance_mm_def max_def min_def word_cmp_unat unat_sub_no_wrap)

text \<open>
  Whatever arrangement \<^verbatim>\<open>std::nth_element\<close> leaves in the buffer, the value
  computed from it is the median the model computes by sorting.
\<close>

theorem median_independent_of_selection:
  assumes "xs \<noteq> []" and "length xs \<le> MAX_SENSORS" and "selected (length xs div 2) xs ys"
  shows "median_at (length xs) ys = median_n xs"
  using median_at_selected [OF assms(3)] assms(1,2)
  by (simp add: median_n_def Let_def nth_element_def min_def)

theorem median_independent_of_selection_witness: "median_at 3 [5, 7, 9] = median_n [9, 5, 7]"
proof -
  have "selected 1 [9, 5, 7] [5, 7, 9]"
    by (auto simp: selected_def less_Suc_eq numeral_3_eq_3)
  then show ?thesis
    using median_independent_of_selection [of "[9, 5, 7]" "[5, 7, 9]"]
    by (simp add: MAX_SENSORS_def numeral_3_eq_3)
qed



end
