(* ===== verification/Vote_Window.thy ===== *)
theory Vote_Window
  imports Vote_Median
begin

text \<open>
  A voting window: the slot and reputation tables as instances of the table discipline, the
  invariant of the engine, what a closed window reports, and the alert over a sequence of
  windows.
\<close>

section \<open>The tables\<close>

definition slot_of :: "Eui \<Rightarrow> VoteEngine \<Rightarrow> nat option" where
  "slot_of eui e = find_index (\<lambda>x. x = eui) (take (ve_slot_count e) (ve_euis e))"

definition slots_ok :: "VoteEngine \<Rightarrow> bool" where
  "slots_ok e \<longleftrightarrow> length (ve_euis e) = MAX_SENSORS \<and> ve_slot_count e \<le> MAX_SENSORS \<and>
     distinct (take (ve_slot_count e) (ve_euis e))"

lemma slot_of_Some_iff:
  assumes "slots_ok e"
  shows "slot_of eui e = Some i \<longleftrightarrow> i < ve_slot_count e \<and> ve_euis e ! i = eui"
  using assms
  by (auto simp: slot_of_def slots_ok_def find_index_Some_iff distinct_conv_nth)

lemma slot_for_cases:
  assumes "slots_ok e" and "slot_for eui e = Some (i, e')"
  shows "slot_of eui e = Some i \<and> e' = e \<or>
    slot_of eui e = None \<and> i = ve_slot_count e \<and> i < MAX_SENSORS \<and>
    e' = e\<lparr>ve_slot_count := Suc i, ve_euis := (ve_euis e)[i := eui]\<rparr>"
  using assms(2) by (auto simp: slot_for_def slot_of_def Let_def split: option.splits if_splits)

lemma slots_ok_enter:
  assumes "slots_ok e" and "slot_of eui e = None" and "ve_slot_count e < MAX_SENSORS"
  shows "slots_ok (e\<lparr>ve_slot_count := Suc (ve_slot_count e), ve_euis := (ve_euis e)[ve_slot_count e := eui]\<rparr>)"
proof -
  have "eui \<notin> set (take (ve_slot_count e) (ve_euis e))"
    using assms(2) by (auto simp: slot_of_def find_index_None_iff)
  then show ?thesis
    using assms(1,3) by (simp add: slots_ok_def take_Suc_conv_app_nth)
qed

interpretation slots: slot_table slot_of slot_for slots_ok MAX_SENSORS
proof
  fix e e' :: VoteEngine and k k' :: Eui and i
  assume ok: "slots_ok e"
  show "slot_of k e = Some i \<Longrightarrow> slot_for k e = Some (i, e)"
    by (simp add: slot_of_def slot_for_def)
  show "slot_of k e = Some i \<Longrightarrow> slot_of k' e = Some i \<Longrightarrow> k = k'"
    using slot_of_Some_iff [OF ok] by simp
  show "slot_of k e = Some i \<Longrightarrow> i < MAX_SENSORS"
    using slot_of_Some_iff [OF ok] ok by (auto simp: slots_ok_def)
  assume c: "slot_for k e = Some (i, e')"
  note cs = slot_for_cases [OF ok c]
  then have ok': "slots_ok e'"
    using ok slots_ok_enter by auto
  have len: "length (ve_euis e) = MAX_SENSORS"
    using ok by (simp add: slots_ok_def)
  have "slot_of k e' = Some i"
    using cs len slot_of_Some_iff [OF ok] by (auto simp: slot_of_Some_iff [OF ok'])
  with ok' show "slots_ok e' \<and> slot_of k e' = Some i" ..
  assume "k' \<noteq> k"
  have "slot_of k' e' = Some j \<longleftrightarrow> slot_of k' e = Some j" for j
    using cs len \<open>k' \<noteq> k\<close>
    by (auto simp: slot_of_Some_iff [OF ok] slot_of_Some_iff [OF ok'] nth_list_update split: if_splits)
  then show "slot_of k' e' = slot_of k' e"
    by (metis not_Some_eq)
qed

interpretation reps: front_table rep_known rep_eui fresh_reputation MAX_SENSORS
  by unfold_locales (simp_all add: fresh_reputation_def)

lemma rep_for_claim: "rep_for = table_claim rep_known rep_eui fresh_reputation"
  by (auto simp: rep_for_def table_claim_def table_find_def fun_eq_iff)

section \<open>Reputation\<close>

text \<open>
  A known sensor's reputation stays between its bounds; below the minimum it is excluded, and an
  excluded sensor is below the mark at which it is readmitted.
\<close>

definition rep_ok :: "Reputation \<Rightarrow> bool" where
  "rep_ok r \<longleftrightarrow> (if rep_known r
     then 10 \<le> unat (rep_reputation r) \<and> unat (rep_reputation r) \<le> 100 \<and>
          (rep_reputation r < reputation_min \<longrightarrow> rep_excluded r) \<and>
          (rep_excluded r \<longrightarrow> rep_reputation r < reputation_readmit)
     else True)"

lemma unat_clamp: "unat (clamp_reputation v) = nat (max 10 (min v 100))"
proof -
  have "0 \<le> max 10 (min v 100)" "max 10 (min v 100) < 256"
    by auto
  then show ?thesis
    by (simp add: clamp_reputation_def MIN_REPUTATION_def MAX_REPUTATION_def unat_eq_nat_uint
        uint_word_of_int take_bit_eq_mod del: max_less_iff_conj)
qed

lemma unat_judge:
  assumes "unat (rep_reputation r) \<le> 100"
  shows "unat (rep_reputation (judge True r)) = max 10 (unat (rep_reputation r) - 20)"
    and "unat (rep_reputation (judge False r)) = max 10 (min (unat (rep_reputation r) + 5) 100)"
proof -
  have u: "uint (rep_reputation r) = int (unat (rep_reputation r))"
    by simp
  have j: "rep_reputation (judge True r) = clamp_reputation (uint (rep_reputation r) - 20)"
      "rep_reputation (judge False r) = clamp_reputation (uint (rep_reputation r) + 5)"
    by (simp_all add: judge_def Let_def reputation_penalty_def reputation_recovery_def)
  show "unat (rep_reputation (judge True r)) = max 10 (unat (rep_reputation r) - 20)"
    unfolding j unat_clamp u using assms by linarith
  show "unat (rep_reputation (judge False r)) = max 10 (min (unat (rep_reputation r) + 5) 100)"
    unfolding j unat_clamp u using assms by linarith
qed

lemma judge_frame [simp]: "rep_known (judge b r) = rep_known r" "rep_eui (judge b r) = rep_eui r"
  by (simp_all add: judge_def Let_def)

lemma judge_excluded:
  "rep_excluded (judge True r) \<longleftrightarrow> rep_excluded r \<or> rep_reputation (judge True r) < reputation_min"
  "rep_excluded (judge False r) \<longleftrightarrow> rep_excluded r \<and> rep_reputation (judge False r) < reputation_readmit"
  by (auto simp: judge_def Let_def not_less)

lemma judge_ok:
  assumes "rep_ok r" and "rep_known r"
  shows "rep_ok (judge b r)"
proof -
  have bounds: "10 \<le> unat (rep_reputation r)" "unat (rep_reputation r) \<le> 100"
    and low: "unat (rep_reputation r) < 20 \<longrightarrow> rep_excluded r"
    and high: "rep_excluded r \<longrightarrow> unat (rep_reputation r) < 40"
    using assms by (simp_all add: rep_ok_def word_less_nat_alt reputation_min_def reputation_readmit_def)
  note u = unat_judge [OF bounds(2)]
  show ?thesis
    using assms(2) bounds low high u
    by (cases b) (auto simp: rep_ok_def judge_excluded word_less_nat_alt reputation_min_def reputation_readmit_def)
qed

lemma fresh_ok: "rep_ok (fresh_reputation eui)"
  by (simp add: rep_ok_def fresh_reputation_def reputation_initial_def reputation_min_def word_less_nat_alt)

section \<open>The engine's invariant\<close>

definition reps_ok :: "Reputation list \<Rightarrow> bool" where
  "reps_ok rs \<longleftrightarrow> table_ok rep_known rep_eui MAX_SENSORS rs \<and> list_all rep_ok rs"

definition engine_ok :: "VoteEngine \<Rightarrow> bool" where
  "engine_ok e \<longleftrightarrow>
     slots_ok e \<and> length (ve_readings e) = MAX_SENSORS \<and> length (ve_validity e) = MAX_SENSORS \<and>
     length (ve_detail e) = MAX_SENSORS \<and> length (ve_timestamps e) = MAX_SENSORS \<and>
     reps_ok (ve_reputation e) \<and> unat (ve_clean_windows e) < 3"

text \<open>The reputation a sensor enters a vote with.\<close>

definition excluded_of :: "Eui \<Rightarrow> Reputation list \<Rightarrow> bool" where
  "excluded_of eui rs =
     (case table_find rep_known rep_eui eui rs of Some i \<Rightarrow> rep_excluded (rs ! i) | None \<Rightarrow> False)"

text \<open>The table after one sensor has been judged.\<close>

definition judge_in :: "Eui \<Rightarrow> bool \<Rightarrow> Reputation list \<Rightarrow> Reputation list" where
  "judge_in eui b rs =
     (case rep_for eui rs of None \<Rightarrow> rs | Some (i, rs') \<Rightarrow> rs'[i := judge b (rs' ! i)])"

lemma rep_for_facts:
  assumes "reps_ok rs" and "rep_for eui rs = Some (i, rs')"
  shows "reps_ok rs'" "i < MAX_SENSORS" "length rs' = MAX_SENSORS" "rep_known (rs' ! i)" "rep_eui (rs' ! i) = eui"
    "rep_excluded (rs' ! i) = excluded_of eui rs"
    "\<And>k. k \<noteq> eui \<Longrightarrow> excluded_of k rs' = excluded_of k rs"
proof -
  have ok: "table_ok rep_known rep_eui MAX_SENSORS rs"
    using assms(1) by (simp add: reps_ok_def)
  have len: "length rs = MAX_SENSORS"
    using ok by (simp add: table_ok_def)
  note cl = assms(2) [unfolded rep_for_claim]
  have new: "table_ok rep_known rep_eui MAX_SENSORS rs'" "table_find rep_known rep_eui eui rs' = Some i"
    using reps.claim_new [OF ok cl] by simp_all
  have split: "table_find rep_known rep_eui eui rs = Some i \<and> rs' = rs \<or>
      table_find rep_known rep_eui eui rs = None \<and> i < MAX_SENSORS \<and> \<not> rep_known (rs ! i) \<and>
      rs' = rs[i := fresh_reputation eui]"
    using cl len by (auto simp: table_claim_def find_index_Some_iff split: option.splits)
  then show "reps_ok rs'"
    using assms(1) new fresh_ok len
    by (auto simp: reps_ok_def list_all_length nth_list_update)
  show pos: "i < MAX_SENSORS" "rep_known (rs' ! i)" "rep_eui (rs' ! i) = eui"
    using reps.find_Some_iff [OF new(1)] new(2) by simp_all
  show "length rs' = MAX_SENSORS"
    using new(1) by (simp add: table_ok_def)
  show "rep_excluded (rs' ! i) = excluded_of eui rs"
    using split len by (auto simp: excluded_of_def fresh_reputation_def)
  show "excluded_of k rs' = excluded_of k rs" if "k \<noteq> eui" for k
  proof -
    have same: "table_find rep_known rep_eui k rs' = table_find rep_known rep_eui k rs"
      using reps.claim_other [OF ok cl that] .
    show ?thesis
    proof (cases "table_find rep_known rep_eui k rs")
      case (Some j)
      then have "rep_known (rs ! j)"
        using reps.find_Some_iff [OF ok] by simp
      then have "rs' ! j = rs ! j"
        using split by (cases "i = j") auto
      then show ?thesis
        by (simp add: excluded_of_def same Some)
    qed (simp add: excluded_of_def same)
  qed
qed

lemma table_ok_judge:
  assumes "table_ok rep_known rep_eui n rs" and "i < n"
  shows "table_ok rep_known rep_eui n (rs[i := judge b (rs ! i)])"
    and "table_find rep_known rep_eui k (rs[i := judge b (rs ! i)]) = table_find rep_known rep_eui k rs"
proof -
  have len: "length rs = n"
    using assms(1) by (simp add: table_ok_def)
  have "map rep_eui (filter rep_known (rs[i := judge b (rs ! i)])) = map rep_eui (filter rep_known rs)"
  proof -
    have "rs = take i rs @ rs ! i # drop (Suc i) rs"
      using assms(2) len by (simp add: id_take_nth_drop)
    then have "map rep_eui (filter rep_known rs) = map rep_eui (filter rep_known (take i rs)) @
        map rep_eui (filter rep_known [rs ! i]) @ map rep_eui (filter rep_known (drop (Suc i) rs))"
      by (metis append_Cons append_Nil filter_append map_append)
    then show ?thesis
      using assms(2) len by (simp add: upd_conv_take_nth_drop)
  qed
  then show "table_ok rep_known rep_eui n (rs[i := judge b (rs ! i)])"
    using assms(1) by (simp add: table_ok_def)
  have "find_index P (rs[i := x]) = find_index P rs" if "P x = P (rs ! i)" for P and x :: Reputation
    using that
  proof (induction rs arbitrary: i)
    case (Cons r rs)
    then show ?case by (cases i) auto
  qed simp
  then show "table_find rep_known rep_eui k (rs[i := judge b (rs ! i)]) = table_find rep_known rep_eui k rs"
    by (simp add: table_find_def)
qed

lemma judge_in_facts:
  assumes "reps_ok rs"
  shows "reps_ok (judge_in eui b rs)" and "k \<noteq> eui \<Longrightarrow> excluded_of k (judge_in eui b rs) = excluded_of k rs"
proof -
  have "reps_ok (judge_in eui b rs) \<and> (k \<noteq> eui \<longrightarrow> excluded_of k (judge_in eui b rs) = excluded_of k rs)"
  proof (cases "rep_for eui rs")
    case None
    with assms show ?thesis by (simp add: judge_in_def)
  next
    case (Some p)
    then obtain i rs' where p: "rep_for eui rs = Some (i, rs')"
      by (cases p) auto
    note f = rep_for_facts [OF assms p]
    have t: "table_ok rep_known rep_eui MAX_SENSORS rs'"
      using f(1) by (simp add: reps_ok_def)
    let ?rs2 = "rs'[i := judge b (rs' ! i)]"
    note t2 = table_ok_judge(1) [OF t f(2), of b] table_ok_judge(2) [OF t f(2)]
    have ok2: "reps_ok ?rs2"
      using f t2(1) by (auto simp: reps_ok_def list_all_length nth_list_update judge_ok)
    moreover have "excluded_of k ?rs2 = excluded_of k rs" if k: "k \<noteq> eui"
    proof -
      have "excluded_of k ?rs2 = excluded_of k rs'"
      proof (cases "table_find rep_known rep_eui k rs'")
        case (Some j)
        then have "rep_eui (rs' ! j) = k"
          using reps.find_Some_iff [OF t] by simp
        then have "j \<noteq> i"
          using f(5) k by auto
        with Some show ?thesis
          by (simp add: excluded_of_def t2(2))
      qed (simp add: excluded_of_def t2(2))
      then show ?thesis
        using f(7) [OF k] by simp
    qed
    ultimately show ?thesis
      using p by (simp add: judge_in_def)
  qed
  then show "reps_ok (judge_in eui b rs)" "k \<noteq> eui \<Longrightarrow> excluded_of k (judge_in eui b rs) = excluded_of k rs"
    by blast+
qed

section \<open>Closing a window\<close>

text \<open>
  What the batch says about the sensor in a slot, given the median, the readings and the
  reputations at the start of the vote.
\<close>

definition entry_ok :: "VoteEngine \<Rightarrow> u16 \<Rightarrow> nat \<Rightarrow> SensorReadingWire \<Rightarrow> bool" where
  "entry_ok e med slot w \<longleftrightarrow>
     w_eui w = ve_euis e ! slot \<and> w_water_level_mm w = ve_readings e ! slot \<and> w_seq w = 0 \<and>
     (if is_outlier (ve_readings e ! slot) med
      then w_validity w \<noteq> VALIDITY_GOOD \<and> w_detail w = ve_detail e ! slot OR DETAIL_OUTLIER
      else if excluded_of (ve_euis e ! slot) (ve_reputation e)
      then w_validity w = VALIDITY_INVALID \<or> w_validity w = ve_validity e ! slot
      else w_validity w = ve_validity e ! slot \<and> w_detail w = ve_detail e ! slot)"

definition batch_ok :: "SensorBatch \<Rightarrow> bool" where
  "batch_ok b \<longleftrightarrow> length (sb_entries b) = MAX_SENSORS \<and> unat (sb_count b) \<le> MAX_SENSORS"

lemma build_entry_spec:
  assumes "reps_ok (ve_reputation e)" and "batch_ok out" and "unat (sb_count out) < MAX_SENSORS"
    and "build_entry out slot med e = (out', e')"
  shows "batch_ok out' \<and> unat (sb_count out') = Suc (unat (sb_count out))"
    and "\<exists>w. batch_entries out' = batch_entries out @ [w] \<and> entry_ok e med slot w"
    and "e' = e\<lparr>ve_reputation := judge_in (ve_euis e ! slot) (is_outlier (ve_readings e ! slot) med) (ve_reputation e)\<rparr>"
proof -
  let ?eui = "ve_euis e ! slot" and ?b = "is_outlier (ve_readings e ! slot) med"
  define x where "x = (case rep_for ?eui (ve_reputation e) of None \<Rightarrow> False
      | Some (i, reps) \<Rightarrow> rep_excluded (judge ?b (reps ! i)))"
  define w where "w = \<lparr>w_eui = ?eui, w_timestamp = ucast (ve_timestamps e ! slot),
      w_water_level_mm = ve_readings e ! slot,
      w_validity = (if x then VALIDITY_INVALID else if ?b then VALIDITY_QUESTIONABLE else ve_validity e ! slot),
      w_detail = (if x \<or> ?b then ve_detail e ! slot OR DETAIL_OUTLIER else ve_detail e ! slot), w_seq = 0\<rparr>"
  have res: "out' = out\<lparr>sb_entries := (sb_entries out)[unat (sb_count out) := w], sb_count := sb_count out + 1\<rparr>"
    "e' = e\<lparr>ve_reputation := judge_in ?eui ?b (ve_reputation e)\<rparr>"
    using assms(4)
    by (auto simp: build_entry_def Let_def w_def x_def judge_in_def split: option.splits if_splits)
  have excl: "x \<Longrightarrow> \<not> ?b \<Longrightarrow> excluded_of ?eui (ve_reputation e)"
    using rep_for_facts(6) [OF assms(1)]
    by (auto simp: x_def judge_excluded split: option.splits)
  have cnt: "unat (sb_count out + 1) = Suc (unat (sb_count out))"
    using assms(3) by (subst unat_add_no_wrap) (simp_all add: MAX_SENSORS_def)
  show "batch_ok out' \<and> unat (sb_count out') = Suc (unat (sb_count out))"
    using assms(2,3) cnt by (simp add: res batch_ok_def)
  have "batch_entries out' = batch_entries out @ [w]"
    using assms(2,3) cnt by (simp add: res batch_entries_def batch_ok_def take_Suc_conv_app_nth)
  moreover have "entry_ok e med slot w"
    using excl by (auto simp: entry_ok_def w_def VALIDITY_GOOD_def VALIDITY_INVALID_def VALIDITY_QUESTIONABLE_def)
  ultimately show "\<exists>w. batch_entries out' = batch_entries out @ [w] \<and> entry_ok e med slot w"
    by blast
  show "e' = e\<lparr>ve_reputation := judge_in ?eui ?b (ve_reputation e)\<rparr>"
    by (rule res(2))
qed

lemma entry_ok_other:
  assumes "reps_ok (ve_reputation e)" and "ve_euis e ! slot \<noteq> eui"
  shows "entry_ok (e\<lparr>ve_reputation := judge_in eui b (ve_reputation e)\<rparr>) med slot w = entry_ok e med slot w"
  using judge_in_facts(2) [OF assms(1,2)] by (simp add: entry_ok_def)

lemma build_all_spec:
  assumes "reps_ok (ve_reputation e)" and "batch_ok out" and "unat (sb_count out) + length slots \<le> MAX_SENSORS"
    and "distinct (map (\<lambda>slot. ve_euis e ! slot) slots)" and "build_all out slots med e = (out', e')"
  shows "batch_ok out' \<and> unat (sb_count out') = unat (sb_count out) + length slots \<and>
    (\<exists>ws. batch_entries out' = batch_entries out @ ws \<and> list_all2 (entry_ok e med) slots ws) \<and>
    (\<exists>rs. e' = e\<lparr>ve_reputation := rs\<rparr> \<and> reps_ok rs)"
  using assms
proof (induction slots arbitrary: out e)
  case Nil
  then show ?case
    by (auto intro: exI [of _ "ve_reputation e"])
next
  case (Cons slot slots)
  let ?eui = "ve_euis e ! slot" and ?b = "is_outlier (ve_readings e ! slot) med"
  obtain out1 e1 where b: "build_entry out slot med e = (out1, e1)"
    by force
  have lt: "unat (sb_count out) < MAX_SENSORS"
    using Cons.prems(3) by simp
  note s = build_entry_spec [OF Cons.prems(1,2) lt b]
  obtain w where w: "batch_entries out1 = batch_entries out @ [w]" "entry_ok e med slot w"
    using s(2) by blast
  have rok: "reps_ok (ve_reputation e1)"
    unfolding s(3) using judge_in_facts(1) [OF Cons.prems(1)] by simp
  have rest: "build_all out1 slots med e1 = (out', e')"
    using Cons.prems(5) lt b by simp
  have "distinct (map (\<lambda>slot. ve_euis e1 ! slot) slots)"
    using Cons.prems(4) by (simp add: s(3))
  from Cons.IH [OF rok _ _ this rest] s(1) Cons.prems(3)
  obtain ws rs where IH: "batch_ok out'" "unat (sb_count out') = unat (sb_count out1) + length slots"
      "batch_entries out' = batch_entries out1 @ ws" "list_all2 (entry_ok e1 med) slots ws"
      "e' = e1\<lparr>ve_reputation := rs\<rparr>" "reps_ok rs"
    by auto
  have "list_all2 (entry_ok e med) slots ws"
    using IH(4)
  proof (rule list.rel_mono_strong)
    fix sl w'
    assume "sl \<in> set slots" and "entry_ok e1 med sl w'"
    moreover have "ve_euis e ! sl \<noteq> ?eui"
      using Cons.prems(4) \<open>sl \<in> set slots\<close> by (metis distinct.simps(2) image_eqI list.map(2) list.set_map)
    ultimately show "entry_ok e med sl w'"
      using entry_ok_other [OF Cons.prems(1)] by (simp add: s(3))
  qed
  then show ?case
    using IH s w by (auto intro: exI [of _ "w # ws"])
qed

lemma reporters_bound: "length (reporters e) \<le> ve_slot_count e"
  unfolding reporters_def using length_filter_le [of _ "[0..<ve_slot_count e]"] by (metis diff_zero length_upt)

lemma reporters_slots: "set (reporters e) \<subseteq> {..<ve_slot_count e}"
  by (auto simp: reporters_def)

lemma reporters_distinct_euis:
  assumes "slots_ok e"
  shows "distinct (map (\<lambda>slot. ve_euis e ! slot) (reporters e))"
proof -
  have "inj_on (\<lambda>slot. ve_euis e ! slot) (set (reporters e))"
  proof (rule inj_onI)
    fix i j
    assume "i \<in> set (reporters e)" "j \<in> set (reporters e)" and eq: "ve_euis e ! i = ve_euis e ! j"
    then have lt: "i < ve_slot_count e" "j < ve_slot_count e"
      using reporters_slots [of e] by auto
    let ?us = "take (ve_slot_count e) (ve_euis e)"
    have "distinct ?us" "length ?us = ve_slot_count e" "?us ! i = ?us ! j"
      using assms lt eq by (simp_all add: slots_ok_def)
    then show "i = j"
      using lt by (metis nth_eq_iff_index_eq)
  qed
  then show ?thesis
    by (simp add: distinct_map reporters_def)
qed

text \<open>The readings a window votes on.\<close>

definition window_readings :: "VoteEngine \<Rightarrow> u16 list" where
  "window_readings e = map (\<lambda>slot. ve_readings e ! slot) (reporters e)"

lemma close_window_spec:
  assumes "engine_ok e"
  shows "engine_ok (snd (close_window e))" and "ve_reported (snd (close_window e)) = 0"
    and "length (reporters e) < MIN_REPORTERS \<Longrightarrow> fst (close_window e) = None"
    and "MIN_REPORTERS \<le> length (reporters e) \<Longrightarrow>
      \<exists>b. fst (close_window e) = Some b \<and>
        list_all2 (entry_ok e (median_n (window_readings e))) (reporters e) (batch_entries b)"
    and "fst (close_window e) = Some b \<Longrightarrow> batch_ok b"
proof -
  let ?rs = "reporters e" and ?med = "median_n (window_readings e)" and ?e1 = "e\<lparr>ve_reported := 0\<rparr>"
  obtain out e2 where b: "build_all zero_batch ?rs ?med ?e1 = (out, e2)"
    by force
  have len: "length ?rs \<le> MAX_SENSORS"
    using reporters_bound [of e] assms by (simp add: engine_ok_def slots_ok_def)
  have zero: "batch_ok zero_batch" "sb_count zero_batch = 0" "batch_entries zero_batch = []"
    by (simp_all add: batch_ok_def zero_batch_def batch_entries_def)
  have rok: "reps_ok (ve_reputation ?e1)" and d: "distinct (map (\<lambda>slot. ve_euis ?e1 ! slot) ?rs)"
    using assms reporters_distinct_euis [of e] by (simp_all add: engine_ok_def)
  have ents: "entry_ok ?e1 ?med = entry_ok e ?med"
    by (simp add: fun_eq_iff entry_ok_def)
  note spec = build_all_spec [OF rok zero(1) _ d b] 
  have s: "unat (sb_count out) = length ?rs" "list_all2 (entry_ok e ?med) ?rs (batch_entries out)"
      "\<exists>rs. e2 = ?e1\<lparr>ve_reputation := rs\<rparr> \<and> reps_ok rs" and bok: "batch_ok out"
    using spec zero len ents by auto
  then obtain rs where e2: "e2 = ?e1\<lparr>ve_reputation := rs\<rparr>" "reps_ok rs"
    by blast
  have cw: "close_window e = (if length ?rs < MIN_REPORTERS then (None, ?e1)
      else if sb_count out = 0 then (None, e2) else (Some out, e2))"
    using b by (simp add: close_window_def Let_def window_readings_def)
  show "engine_ok (snd (close_window e))" "ve_reported (snd (close_window e)) = 0"
    using assms e2 by (simp_all add: cw engine_ok_def slots_ok_def)
  show "length ?rs < MIN_REPORTERS \<Longrightarrow> fst (close_window e) = None"
    by (simp add: cw)
  show "fst (close_window e) = Some b \<Longrightarrow> batch_ok b"
    using bok by (auto simp: cw split: if_splits)
  assume "MIN_REPORTERS \<le> length ?rs"
  then have "sb_count out \<noteq> 0" "\<not> length ?rs < MIN_REPORTERS"
    using s(1) by (auto simp: MIN_REPORTERS_def)
  then show "\<exists>b. fst (close_window e) = Some b \<and> list_all2 (entry_ok e ?med) ?rs (batch_entries b)"
    using s(2) by (simp add: cw)
qed

lemma slot_for_engine_ok:
  assumes "engine_ok e" and "slot_for eui e = Some (i, e')"
  shows "engine_ok e'" and "i < ve_slot_count e'"
proof -
  have ok: "slots_ok e"
    using assms(1) by (simp add: engine_ok_def)
  have n: "slots_ok e' \<and> slot_of eui e' = Some i"
    using slots.claim_new [OF ok assms(2)] .
  then show "i < ve_slot_count e'"
    using slot_of_Some_iff by blast
  show "engine_ok e'"
    using slot_for_cases [OF ok assms(2)] assms(1) n by (auto simp: engine_ok_def)
qed

lemma accumulate_ok:
  assumes "engine_ok e"
  shows "engine_ok (snd (accumulate entry e))"
proof (cases "slot_for (w_eui entry) e")
  case (Some p)
  then obtain i e1 where p: "slot_for (w_eui entry) e = Some (i, e1)"
    by (cases p) auto
  show ?thesis
    using slot_for_engine_ok(1) [OF assms p] by (simp add: accumulate_def p engine_ok_def slots_ok_def)
qed (simp add: accumulate_def assms)

lemma check_alert_ok:
  assumes "engine_ok e"
  shows "engine_ok (snd (check_alert b e))"
proof -
  have "unat (ve_clean_windows e + 1) = unat (ve_clean_windows e) + 1"
    using assms by (subst unat_add_no_wrap) (simp_all add: engine_ok_def)
  then show ?thesis
    using assms
    by (auto simp: check_alert_def Let_def engine_ok_def slots_ok_def alert_clear_windows_def word_le_nat_alt)
qed

lemma new_engine_ok: "engine_ok new_engine"
  by (simp add: engine_ok_def slots_ok_def new_engine_def reps_ok_def table_ok_def blank_reputation_def
      rep_ok_def MAX_SENSORS_def numeral_3_eq_3)

section \<open>The alert over windows\<close>

definition triggers :: "SensorBatch \<Rightarrow> bool" where
  "triggers b \<longleftrightarrow> list_ex (\<lambda>w. w_validity w = VALIDITY_GOOD \<and> alert_threshold_mm \<le> w_water_level_mm w) (batch_entries b)"

lemma check_alert_trigger:
  "triggers b \<Longrightarrow> check_alert b e = (True, e\<lparr>ve_clean_windows := 0, ve_alert_active := True\<rparr>)"
  "\<not> triggers b \<Longrightarrow> \<not> ve_alert_active e \<Longrightarrow> check_alert b e = (False, e)"
  by (simp_all add: check_alert_def triggers_def Let_def)

text \<open>The alert after a sequence of batches, oldest first.\<close>

definition alert_run :: "SensorBatch list \<Rightarrow> VoteEngine \<Rightarrow> VoteEngine" where
  "alert_run bs e = fold (\<lambda>b e. snd (check_alert b e)) bs e"

text \<open>The number of windows since the last trigger.\<close>

fun quiet_windows :: "SensorBatch list \<Rightarrow> nat option" where
  "quiet_windows [] = None"
| "quiet_windows (b # newest_first) = (if triggers b then Some 0 else map_option Suc (quiet_windows newest_first))"

lemma quiet_windows_iff:
  "(\<exists>k < n. quiet_windows bs = Some k) \<longleftrightarrow> list_ex triggers (take n bs)"
proof (induction bs arbitrary: n)
  case (Cons b bs)
  show ?case
  proof (cases n)
    case (Suc m)
    then show ?thesis
      using Cons.IH [of m] by (auto simp: less_Suc_eq_0_disj)
  qed simp
qed simp

lemma alert_run_state:
  assumes "\<not> ve_alert_active e"
  shows "(case quiet_windows (rev bs) of
      None \<Rightarrow> \<not> ve_alert_active (alert_run bs e)
    | Some k \<Rightarrow> (if k < 3 then ve_alert_active (alert_run bs e) \<and> unat (ve_clean_windows (alert_run bs e)) = k
                 else \<not> ve_alert_active (alert_run bs e)))"
proof (induction bs rule: rev_induct)
  case Nil
  then show ?case
    using assms by (simp add: alert_run_def)
next
  case (snoc b bs)
  let ?e = "alert_run bs e"
  have step: "alert_run (bs @ [b]) e = snd (check_alert b ?e)"
    by (simp add: alert_run_def)
  show ?case
  proof (cases "triggers b")
    case True
    then show ?thesis
      unfolding step by (simp add: check_alert_trigger)
  next
    case False
    show ?thesis
    proof (cases "ve_alert_active ?e")
      case True
      then obtain k where k: "quiet_windows (rev bs) = Some k" "k < 3" "unat (ve_clean_windows ?e) = k"
        using snoc.IH by (auto split: option.splits if_splits)
      have "unat (ve_clean_windows ?e + 1) = Suc k"
        using k by (subst unat_add_no_wrap) simp_all
      then have "snd (check_alert b ?e) =
          (if 2 \<le> k then ?e\<lparr>ve_alert_active := False, ve_clean_windows := 0\<rparr>
           else ?e\<lparr>ve_clean_windows := ve_clean_windows ?e + 1\<rparr>)"
        using False True by (simp add: check_alert_def triggers_def Let_def alert_clear_windows_def word_le_nat_alt)
      then show ?thesis
        unfolding step using False True k \<open>unat (ve_clean_windows ?e + 1) = Suc k\<close> by auto
    next
      case inactive: False
      then show ?thesis
        unfolding step using False snoc.IH by (auto simp: check_alert_trigger split: option.splits if_splits)
    qed
  qed
qed

section \<open>Properties\<close>

inductive engine_step :: "VoteEngine \<Rightarrow> VoteEngine \<Rightarrow> bool" where
  reading: "engine_step e (snd (accumulate entry e))"
| opened: "engine_step e (open_window e)"
| closed: "engine_step e (snd (close_window e))"
| checked: "engine_step e (snd (check_alert b e))"
| configured: "engine_step e (set_collection_window w e)"

lemma window_ops_ok:
  "engine_ok e \<Longrightarrow> engine_ok (open_window e)" "engine_ok e \<Longrightarrow> engine_ok (set_collection_window w e)"
  by (simp_all add: open_window_def set_collection_window_def engine_ok_def slots_ok_def)

lemma engine_step_ok: "engine_step e e' \<Longrightarrow> engine_ok e \<Longrightarrow> engine_ok e'"
  by (induction rule: engine_step.induct)
    (auto intro: accumulate_ok close_window_spec(1) check_alert_ok window_ops_ok)

lemma engine_steps_ok: "engine_step\<^sup>*\<^sup>* e e' \<Longrightarrow> engine_ok e \<Longrightarrow> engine_ok e'"
  by (induction rule: rtranclp_induct) (auto intro: engine_step_ok)

text \<open>Three sensors that have reported in one window.\<close>

definition demo_reading :: "Eui \<Rightarrow> u16 \<Rightarrow> SensorReadingWire" where
  "demo_reading eui level = \<lparr>w_eui = eui, w_timestamp = 0, w_water_level_mm = level, w_validity = VALIDITY_GOOD,
     w_detail = DETAIL_NONE, w_seq = 1\<rparr>"

definition demo_engine :: "u16 \<Rightarrow> u16 \<Rightarrow> u16 \<Rightarrow> VoteEngine" where
  "demo_engine a b c =
     snd (accumulate (demo_reading 33 c) (snd (accumulate (demo_reading 22 b) (snd (accumulate (demo_reading 11 a) new_engine)))))"

lemma demo_engine_steps: "engine_step\<^sup>*\<^sup>* new_engine (demo_engine a b c)"
proof -
  have more: "engine_step\<^sup>*\<^sup>* new_engine (snd (accumulate r e))" if "engine_step\<^sup>*\<^sup>* new_engine e" for r e
    using that engine_step.reading by (rule rtranclp.rtrancl_into_rtrancl)
  show ?thesis
    unfolding demo_engine_def by (intro more rtranclp.rtrancl_refl)
qed

lemma demo_engine_ok: "engine_ok (demo_engine a b c)"
  using demo_engine_steps new_engine_ok by (rule engine_steps_ok)

text \<open>
  C31. Reputations stay sound over any use of the engine: the table holds at most one record per
  sensor, every reputation lies between 10 and 100, a sensor below 20 is excluded, and an
  excluded one is below 40, so exclusion ends exactly when the recovery reaches that mark.
\<close>

theorem reputation_stays_sound:
  assumes "engine_step\<^sup>*\<^sup>* new_engine e"
  shows "distinct (map rep_eui (filter rep_known (ve_reputation e))) \<and>
    (\<forall>r \<in> set (filter rep_known (ve_reputation e)).
       10 \<le> unat (rep_reputation r) \<and> unat (rep_reputation r) \<le> 100 \<and>
       (rep_reputation r < reputation_min \<longrightarrow> rep_excluded r) \<and>
       (rep_excluded r \<longrightarrow> rep_reputation r < reputation_readmit))"
proof -
  have "reps_ok (ve_reputation e)"
    using engine_steps_ok [OF assms new_engine_ok] by (simp add: engine_ok_def)
  then show ?thesis
    by (auto simp: reps_ok_def table_ok_def list_all_iff rep_ok_def)
qed

theorem reputation_stays_sound_witness:
  "distinct (map rep_eui (filter rep_known (ve_reputation (snd (close_window (demo_engine 500 510 9000))))))"
proof -
  have "engine_step\<^sup>*\<^sup>* new_engine (snd (close_window (demo_engine 500 510 9000)))"
    using demo_engine_steps engine_step.closed by (rule rtranclp.rtrancl_into_rtrancl)
  then show ?thesis
    using reputation_stays_sound by blast
qed

text \<open>
  A closed window with enough reporters yields one entry per reporting sensor, in slot order,
  with its reading; an outlier against the median is never reported as good and carries the
  outlier flag; a reading within the tolerance of a sensor that is not excluded keeps the quality
  the sensor gave it. With fewer reporters there is no batch. Either way the window is empty
  afterwards.
\<close>

theorem window_report:
  assumes "engine_ok e"
  shows "ve_reported (snd (close_window e)) = 0 \<and>
    (case fst (close_window e) of
       None \<Rightarrow> length (reporters e) < MIN_REPORTERS
     | Some b \<Rightarrow> MIN_REPORTERS \<le> length (reporters e) \<and>
         list_all2 (entry_ok e (median_n (window_readings e))) (reporters e) (batch_entries b))"
  using close_window_spec [OF assms] by (cases "length (reporters e) < MIN_REPORTERS") auto

theorem window_report_witness:
  "(case fst (close_window (demo_engine 500 510 9000)) of None \<Rightarrow> False
    | Some b \<Rightarrow> list_all2 (entry_ok (demo_engine 500 510 9000) 510) [0, 1, 2] (batch_entries b))"
proof -
  have "reporters (demo_engine 500 510 9000) = [0, 1, 2]" "window_readings (demo_engine 500 510 9000) = [500, 510, 9000]"
      "median_n [500, 510, 9000] = 510"
    by (code_simp, code_simp, code_simp)
  then show ?thesis
    using window_report [OF demo_engine_ok, of 500 510 9000] by (auto simp: MIN_REPORTERS_def split: option.splits)
qed





text \<open>
  C28. Alert hysteresis: after any sequence of batches, starting without an alert, the alert is
  active exactly when one of the last three batches had a good reading at or above the threshold.
\<close>

theorem alert_iff_recent_trigger:
  assumes "\<not> ve_alert_active e"
  shows "ve_alert_active (alert_run bs e) \<longleftrightarrow> list_ex triggers (take 3 (rev bs))"
  using alert_run_state [OF assms, of bs] quiet_windows_iff [of 3 "rev bs"]
  by (auto split: option.splits if_splits)

theorem alert_iff_recent_trigger_witness:
  "ve_alert_active (alert_run [the (fst (close_window (demo_engine 1600 0 1700))), zero_batch, zero_batch] new_engine) \<and>
   \<not> ve_alert_active (alert_run [the (fst (close_window (demo_engine 1600 0 1700))), zero_batch, zero_batch, zero_batch] new_engine)"
proof -
  have "triggers (the (fst (close_window (demo_engine 1600 0 1700))))" "\<not> triggers zero_batch" "\<not> ve_alert_active new_engine"
    by (code_simp, code_simp, code_simp)
  then show ?thesis
    using alert_iff_recent_trigger [of new_engine] by simp
qed

end
