(* ===== verification/Vote_Service.thy ===== *)
theory Vote_Service
  imports Vote_Window
begin

text \<open>
  The service around the voting engine, \<^verbatim>\<open>firmware/fog/src/outlier_vote/service.hpp\<close>:
  it re-arms a one-shot timer for the next period boundary of the synchronised clock and hands each
  batch, with the alert flag, to the submit hook. The timer and the hook are observed through
  \<open>vs_timers\<close> and \<open>vs_submitted\<close>; the value of the clock is an argument. The lock makes each
  operation one step.
\<close>

record VoteService =
  vs_engine :: VoteEngine
  vs_has_submit :: bool
  vs_armed :: bool
  vs_timers :: "u32 list"
  vs_submitted :: "SensorBatch list"

definition new_service :: "bool \<Rightarrow> VoteService" where
  "new_service has_submit =
    \<lparr>vs_engine = new_engine, vs_has_submit = has_submit, vs_armed = False, vs_timers = [], vs_submitted = []\<rparr>"

definition next_boundary_timeout :: "u32 \<Rightarrow> u64 option \<Rightarrow> u32" where
  "next_boundary_timeout period_ms now =
     (let period = (if period_ms = 0 then 1 else ucast period_ms :: u64)
      in case now of
           None \<Rightarrow> ucast period
         | Some t \<Rightarrow>
             let next_boundary = (t div period + 1) * period;
                 delay_ms = next_boundary - t
             in ucast delay_ms)"

definition one_shot :: "u32 \<Rightarrow> VoteService \<Rightarrow> VoteService" where
  "one_shot ms s = s\<lparr>vs_armed := True, vs_timers := vs_timers s @ [ms]\<rparr>"

definition vs_start :: "u64 option \<Rightarrow> VoteService \<Rightarrow> VoteService" where
  "vs_start now s = one_shot (next_boundary_timeout (ucast DEFAULT_TIMEOUT_MS) now) s"

definition vs_stop :: "VoteService \<Rightarrow> VoteService" where
  "vs_stop s = s\<lparr>vs_armed := False\<rparr>"

definition resync :: "u64 option \<Rightarrow> VoteService \<Rightarrow> VoteService" where
  "resync now s =
     one_shot (next_boundary_timeout (ve_collection_window_ms (vs_engine s)) now) (vs_stop s)"

definition window_start :: "u64 option \<Rightarrow> VoteService \<Rightarrow> VoteService" where
  "window_start now s =
     (let s1 = s\<lparr>vs_engine := open_window (vs_engine s)\<rparr>
      in one_shot (next_boundary_timeout (ve_collection_window_ms (vs_engine s1)) now) s1)"

definition vs_accumulate :: "SensorReadingWire \<Rightarrow> VoteService \<Rightarrow> VoteService" where
  "vs_accumulate entry s = s\<lparr>vs_engine := snd (accumulate entry (vs_engine s))\<rparr>"

definition is_alert_active :: "VoteService \<Rightarrow> bool" where
  "is_alert_active s = ve_alert_active (vs_engine s)"

definition vs_set_collection_window :: "u32 \<Rightarrow> VoteService \<Rightarrow> VoteService" where
  "vs_set_collection_window w s = s\<lparr>vs_engine := set_collection_window w (vs_engine s)\<rparr>"

definition on_window_close :: "u64 option \<Rightarrow> VoteService \<Rightarrow> VoteService" where
  "on_window_close now s =
     (let (batch, e1) = close_window (vs_engine s);
          s1 = s\<lparr>vs_engine := e1\<rparr>;
          next_ms = ve_collection_window_ms e1;
          s2 = (case batch of
                  Some b \<Rightarrow>
                    if vs_has_submit s1
                    then let (active, e2) = check_alert b (vs_engine s1)
                         in s1\<lparr>vs_engine := e2, vs_submitted := vs_submitted s1 @ [b\<lparr>sb_alert_active := active\<rparr>]\<rparr>
                    else s1
                | None \<Rightarrow> s1)
      in one_shot (next_boundary_timeout next_ms now) s2)"

section \<open>Window boundaries\<close>

lemma boundary_arith:
  fixes t p :: nat
  assumes "0 < p"
  shows "(t div p + 1) * p - t = p - t mod p" and "(t + (p - t mod p)) mod p = 0"
proof -
  have split: "t = t div p * p + t mod p"
    by simp
  have lt: "t mod p < p"
    using assms by simp
  have eq: "(t div p + 1) * p = t + (p - t mod p)"
  proof -
    have "(t div p + 1) * p = t div p * p + p"
      by simp
    then show ?thesis
      using split lt by linarith
  qed
  then show "(t div p + 1) * p - t = p - t mod p"
    by simp
  show "(t + (p - t mod p)) mod p = 0"
    using eq by (metis mod_mult_self2_is_0)
qed

lemma next_boundary_unat:
  assumes "period_ms \<noteq> 0" and "unat t + unat period_ms < 2 ^ 64"
  shows "unat (next_boundary_timeout period_ms (Some t)) = unat period_ms - unat t mod unat period_ms"
proof -
  let ?p = "ucast period_ms :: u64"
  have p: "unat ?p = unat period_ms" "0 < unat period_ms"
    using assms(1) by (simp_all add: unat_gt_0)
  note a = boundary_arith [OF p(2), of "unat t"]
  have q: "unat (t div ?p) = unat t div unat period_ms"
    by (simp add: unat_div p(1))
  have le: "(unat t div unat period_ms + 1) * unat period_ms \<le> unat t + unat period_ms"
    by (simp add: add.commute [of "unat t"]) 
  have q1: "unat (t div ?p + 1) = unat t div unat period_ms + 1"
  proof -
    have "unat t div unat period_ms + 1 < 2 ^ 64"
      using div_le_dividend [of "unat t" "unat period_ms"] assms(2) p(2) by linarith
    then show ?thesis
      using q by (subst unat_add_no_wrap) simp_all
  qed
  have nb: "unat ((t div ?p + 1) * ?p) = (unat t div unat period_ms + 1) * unat period_ms"
  proof -
    have "(unat t div unat period_ms + 1) * unat period_ms < 2 ^ 64"
      using le assms(2) by (rule le_less_trans)
    then show ?thesis
      using unat_mult_no_wrap [of "t div ?p + 1" ?p] unfolding q1 p(1) by simp
  qed
  have "unat t \<le> (unat t div unat period_ms + 1) * unat period_ms"
    using dividend_less_div_times [OF p(2), of "unat t"] by (simp add: add.commute)
  then have d: "unat ((t div ?p + 1) * ?p - t) = unat period_ms - unat t mod unat period_ms"
    using nb a(1) by (subst unat_sub_no_wrap) simp_all
  have "unat period_ms - unat t mod unat period_ms < 2 ^ 32"
    by (rule le_less_trans [OF diff_le_self]) simp
  then have "unat (ucast ((t div ?p + 1) * ?p - t) :: u32) = unat period_ms - unat t mod unat period_ms"
    using d by (simp add: unsigned_ucast_eq take_bit_nat_eq_self)
  then show ?thesis
    using assms(1) by (simp add: next_boundary_timeout_def Let_def)
qed

text \<open>
  The window timer is armed for the next period boundary: with a synchronised clock the delay
  is positive, at most one period, and ends on a multiple of the period, so all fog nodes close
  their windows together.
\<close>

theorem window_closes_on_boundary:
  assumes "period_ms \<noteq> 0" and "unat t + unat period_ms < 2 ^ 64"
  defines "d \<equiv> unat (next_boundary_timeout period_ms (Some t))"
  shows "0 < d \<and> d \<le> unat period_ms \<and> (unat t + d) mod unat period_ms = 0"
proof -
  have p: "0 < unat period_ms"
    using assms(1) by (simp add: unat_gt_0)
  then show ?thesis
    using next_boundary_unat [OF assms(1,2)] boundary_arith(2) [OF p, of "unat t"]
    by (simp add: d_def)
qed

theorem window_closes_on_boundary_witness:
  "unat (next_boundary_timeout 1000 (Some 12345)) \<le> 1000 \<and> (12345 + unat (next_boundary_timeout 1000 (Some 12345))) mod 1000 = 0"
  using window_closes_on_boundary [of 1000 12345] by simp

text \<open>
  Closing a window submits at most one batch, the one the vote produced with the alert flag of
  the engine after it, keeps the engine sound and always re-arms the timer for the next boundary.
\<close>

lemma window_close_submits:
  fixes now :: "u64 option"
  assumes "engine_ok (vs_engine s)" and "vs_has_submit s"
  defines "s' \<equiv> on_window_close now s"
  shows "engine_ok (vs_engine s') \<and> vs_armed s' \<and>
    last (vs_timers s') = next_boundary_timeout (ve_collection_window_ms (vs_engine s')) now \<and>
    (case fst (close_window (vs_engine s)) of
       None \<Rightarrow> vs_submitted s' = vs_submitted s
     | Some b \<Rightarrow> vs_submitted s' = vs_submitted s @ [b\<lparr>sb_alert_active := ve_alert_active (vs_engine s')\<rparr>])"
proof -
  obtain ob e1 where c: "close_window (vs_engine s) = (ob, e1)"
    by force
  have ok1: "engine_ok e1"
    using close_window_spec(1) [OF assms(1)] c by simp
  show ?thesis
  proof (cases ob)
    case None
    then show ?thesis
      using ok1 by (simp add: s'_def on_window_close_def c Let_def one_shot_def)
  next
    case (Some b)
    obtain a e2 where k: "check_alert b e1 = (a, e2)"
      by force
    have "engine_ok e2" "a = ve_alert_active e2" "ve_collection_window_ms e2 = ve_collection_window_ms e1"
      using check_alert_ok [OF ok1, of b] k by (auto simp: check_alert_def Let_def split: if_splits)
    then show ?thesis
      using Some k assms(2) by (simp add: s'_def on_window_close_def c Let_def one_shot_def)
  qed
qed

end
