(* ===== verification/Alert_Packets.thy ===== *)
theory Alert_Packets
  imports Trusted_Devices Sensor_Reading
begin

text \<open>
  The alert broadcast of \<^verbatim>\<open>common/alert.hpp\<close>, sent by fog nodes and received by every
  node. The byte layout of the structures (with the compiler's padding) is an argument, as is the
  CoAP stack.
\<close>

record AlertPacket =
  ap_alert_interval_ms :: u16
  ap_alert_active :: bool

record SignedAlertPacket =
  sa_eui :: u64
  sa_packet :: AlertPacket
  sa_signature :: bytes

record Alert =
  al_eui :: u64
  al_store :: TrustedDeviceStore

definition new_alert :: "u64 \<Rightarrow> Alert" where
  "new_alert eui = \<lparr>al_eui = eui, al_store = new_store\<rparr>"

definition alert_init :: "'k Psa \<Rightarrow> 'k \<Rightarrow> Alert \<Rightarrow> psa_status \<times> 'k \<times> Alert" where
  "alert_init psa ks a =
     (let (err, ks, store) = store_init psa (al_eui a) ks (al_store a) in (err, ks, a\<lparr>al_store := store\<rparr>))"

text \<open>The prefix-based multicast address of all sleepy nodes.\<close>

definition ssed_address :: "bytes \<Rightarrow> bytes" where
  "ssed_address ml_prefix =
     (let addr = replicate 16 (0 :: u8);
          addr = addr[0 := 0xff];
          addr = addr[1 := 0x33];
          addr = addr[2 := 0x00];
          addr = addr[3 := 0x40];
          addr = take 4 addr @ take 8 ml_prefix @ drop 12 addr
      in addr[15 := 0x01])"

text \<open>
  \<open>send_alert\<close>: the address and packet put on the network, or the error \<open>-1\<close>. The structure names
  the sender's own identifier, not the argument \<open>eui\<close>.
\<close>

definition send_alert ::
    "'k Psa \<Rightarrow> (AlertPacket \<Rightarrow> bytes) \<Rightarrow> bytes \<Rightarrow> u64 \<Rightarrow> AlertPacket \<Rightarrow> 'k \<Rightarrow> Alert \<Rightarrow> int + (bytes \<times> SignedAlertPacket)" where
  "send_alert psa layout ml_prefix eui packet ks a =
     (case sign psa ks (al_store a) (layout packet) of
        Inl _ \<Rightarrow> Inl (- 1)
      | Inr sig \<Rightarrow> Inr (ssed_address ml_prefix, \<lparr>sa_eui = al_eui a, sa_packet = packet, sa_signature = sig\<rparr>))"

text \<open>
  \<open>alert_handler\<close>: \<open>own\<close> says whether the sender's address is this node's, \<open>payload\<close> is what
  \<open>coap_get_data\<close> finds (\<open>None\<close>: longer than the buffer, or of another length). The result is the
  packet the callback gets.
\<close>

definition alert_handler ::
    "'k Psa \<Rightarrow> (AlertPacket \<Rightarrow> bytes) \<Rightarrow> bool \<Rightarrow> SignedAlertPacket option \<Rightarrow> 'k \<Rightarrow> Alert \<Rightarrow> AlertPacket option" where
  "alert_handler psa layout own payload ks a =
     (if own then None
      else case payload of
        None \<Rightarrow> None
      | Some alert \<Rightarrow>
          let sign_res = verify psa ks (al_store a) (sa_eui alert) (layout (sa_packet alert)) (sa_signature alert)
          in if sign_res \<noteq> PSA_SUCCESS then Some (sa_packet alert) else Some (sa_packet alert))"

lemma ssed_address_layout:
  "length ml_prefix = 8 \<Longrightarrow> ssed_address ml_prefix = [0xff, 0x33, 0, 0x40] @ ml_prefix @ [0, 0, 0, 1]"
  by (simp add: ssed_address_def Let_def numeral_eq_Suc list_update_append nth_append)

section \<open>Limits\<close>

text \<open>
  The receiver only logs a bad signature: every well-formed packet that is not this node's own
  reaches the application, signed or not. Its store never learns any peer either, so no
  signature at all verifies.
\<close>

theorem unsigned_alert_is_delivered:
  "alert_handler psa layout False (Some alert) ks a = Some (sa_packet alert)"
  by (simp add: alert_handler_def)

theorem alert_store_verifies_nothing:
  assumes "alert_init psa ks (new_alert eui) = (err, ks', a)"
  shows "verify psa ks'' (al_store a) sender b sig = PSA_ERROR_INVALID_HANDLE"
proof -
  have "trusted (al_store a) = {}"
    using assms new_store_ok(2)
    by (auto simp: alert_init_def store_init_def new_alert_def trusted_def split: prod.splits sum.splits)
  then have "find_peer sender (al_store a) = None"
    by (simp add: find_peer_None_iff)
  then show ?thesis
    by (simp add: verify_def)
qed

end
