(* ===== verification/Fog_Application.thy ===== *)
theory Fog_Application
  imports Raft_Contracts Raft_Coap Lora_Service Egress_Coordinator Vote_Service Alert_Packets
begin

text \<open>
  A fog node as a whole: the engine around the consensus server,
  \<^verbatim>\<open>fog/src/raft/engine.hpp\<close>, and the application of
  \<^verbatim>\<open>fog/src/application.hpp\<close> that ties the vote, the log, the uplinks and the alerts
  together. The values of the clocks and the padding bytes of the copied structures are
  arguments.
\<close>

section \<open>The engine\<close>

definition QUEUE_DEPTH :: nat where [config_defs]: "QUEUE_DEPTH = 8"

record Engine =
  en_server :: Server
  en_rx_queue :: "Message list"
  en_message_pending :: bool

definition make_cbs :: "(nat \<Rightarrow> Time) \<Rightarrow> (nat \<Rightarrow> u32) \<Rightarrow> Callbacks" where
  "make_cbs uptime rand =
     \<lparr>cb_send = True, cb_apply = True, cb_persist_state = True, cb_persist_log_append = False,
      cb_persist_log_truncate = False, cb_persist_log_compact = False,
      cb_snapshot_save = Some (\<lambda>_ buf. (0, buf)), cb_snapshot_load = False,
      cb_now = Some uptime, cb_rand = Some rand, cb_on_state_change = True\<rparr>"

definition new_raft_engine :: "NodeId \<Rightarrow> (nat \<Rightarrow> Time) \<Rightarrow> (nat \<Rightarrow> u32) \<Rightarrow> Engine" where
  "new_raft_engine self_id uptime rand =
     \<lparr>en_server = new_server self_id EXPECTED_EUIS (make_cbs uptime rand), en_rx_queue = [], en_message_pending = False\<rparr>"

text \<open>The work item that drains the queue is pending from its submission until it starts to run.\<close>

definition receive :: "Message \<Rightarrow> Engine \<Rightarrow> bool \<times> Engine" where
  "receive msg e =
     (let (ok, q) = mq_try_put (list_queue QUEUE_DEPTH) msg (en_rx_queue e);
          e = e\<lparr>en_rx_queue := q\<rparr>
      in if \<not> ok then (False, e) else (True, e\<lparr>en_message_pending := True\<rparr>))"

definition drain :: "Engine \<Rightarrow> Engine option" where
  "drain e =
     map_option (\<lambda>(srv, q). e\<lparr>en_server := srv, en_rx_queue := q, en_message_pending := False\<rparr>)
       (mq_drain (list_queue QUEUE_DEPTH) handle (en_server e) (en_rx_queue e))"

lemma receive_eq:
  "receive msg e = (if length (en_rx_queue e) < QUEUE_DEPTH
     then (True, e\<lparr>en_rx_queue := en_rx_queue e @ [msg], en_message_pending := True\<rparr>) else (False, e))"
  by (simp add: receive_def list_queue_put)

lemma drain_eq: "drain e = Some (e\<lparr>en_server := fold handle (en_rx_queue e) (en_server e), en_rx_queue := [], en_message_pending := False\<rparr>)"
  by (simp add: drain_def list_queue_drain)

text \<open>
  What happens to an engine: a message arrives from the network, the pending work item runs, or a
  timer or a submission changes the server.
\<close>

inductive engine_event :: "Engine \<Rightarrow> Engine \<Rightarrow> bool" where
  arrives: "receive msg e = (accepted, e') \<Longrightarrow> engine_event e e'"
| works: "en_message_pending e \<Longrightarrow> drain e = Some e' \<Longrightarrow> engine_event e e'"
| ticks: "engine_event e (e\<lparr>en_server := srv\<rparr>)"

text \<open>
  C16. No accepted message is left behind: through every arrival, every run of the work item and every
  other change of the server, the work item is pending whenever a message waits in the queue, and its
  run returns with every waiting message handled in the order of arrival.
\<close>

theorem waiting_message_has_work:
  assumes "engine_event\<^sup>*\<^sup>* (new_raft_engine self uptime rand) e" and "en_rx_queue e \<noteq> []"
  shows "en_message_pending e \<and> (\<exists>e'. engine_event e e' \<and> en_rx_queue e' = [] \<and>
    en_server e' = fold handle (en_rx_queue e) (en_server e))"
proof -
  have "en_rx_queue e \<noteq> [] \<longrightarrow> en_message_pending e"
    using assms(1)
  proof (induction rule: rtranclp_induct)
    case (step e e')
    from step.hyps(2) step.IH show ?case
      by cases (auto simp: receive_eq drain_eq split: if_splits)
  qed (simp add: new_raft_engine_def)
  then show ?thesis
    using assms(2) by (auto intro!: exI engine_event.works [OF _ drain_eq])
qed

theorem waiting_message_has_work_witness:
  "\<exists>e'. engine_event (snd (receive demo_append (new_raft_engine 1 (\<lambda>_. 0) (\<lambda>_. 0)))) e' \<and> en_rx_queue e' = [] \<and>
     en_server e' = handle demo_append (en_server (new_raft_engine 1 (\<lambda>_. 0) (\<lambda>_. 0)))"
proof -
  let ?e = "new_raft_engine 1 (\<lambda>_. 0) (\<lambda>_. 0)"
  have "engine_event ?e (snd (receive demo_append ?e))"
    by (rule engine_event.arrives [OF prod.collapse [symmetric]])
  moreover have "en_rx_queue (snd (receive demo_append ?e)) = [demo_append]" "en_server (snd (receive demo_append ?e)) = en_server ?e"
    by (simp_all add: receive_eq new_raft_engine_def QUEUE_DEPTH_def)
  ultimately show ?thesis
    using waiting_message_has_work [of 1 "\<lambda>_. 0" "\<lambda>_. 0" "snd (receive demo_append ?e)"] by (simp add: r_into_rtranclp)
qed

section \<open>The application\<close>

definition ALERT_INTERVAL_MS :: u16 where [config_defs]: "ALERT_INTERVAL_MS = ucast ALERT_TIMEOUT_MS"

record Application =
  app_eui :: u64
  app_engine :: Engine
  app_lora :: LoraWanService
  app_tracker :: EgressTracker
  app_vote :: VoteService
  app_alert_active :: bool
  app_alerts :: "AlertPacket list"

text \<open>The state the egress hooks work on: the server and the sender.\<close>

definition make_egress_hooks :: "u64 \<Rightarrow> u8 list \<Rightarrow> (Server \<times> LoraWanService) Hooks" where
  "make_egress_hooks node_id pad =
     \<lparr>hk_is_leader = (\<lambda>(srv, _). is_leader srv),
      hk_submit_egress = (\<lambda>rec (srv, lora). let (r, srv) = submit EGRESS_MSG (store_egress pad rec) srv
                                             in (case r of Inl _ \<Rightarrow> False | Inr _ \<Rightarrow> True, (srv, lora))),
      hk_read_entry = (\<lambda>index (srv, _). get_entry index srv),
      hk_lorawan_send = (\<lambda>batch trm index seq (srv, lora). (srv, snd (send_batch node_id batch trm index seq lora)))\<rparr>"

definition with_egress :: "(Server \<times> LoraWanService \<Rightarrow> Server \<times> LoraWanService) \<Rightarrow> Application \<Rightarrow> Application" where
  "with_egress f a =
     (let (srv, lora) = f (en_server (app_engine a), app_lora a)
      in a\<lparr>app_engine := (app_engine a)\<lparr>en_server := srv\<rparr>, app_lora := lora\<rparr>)"

definition app_clock :: "u64 option \<Rightarrow> u32 \<Rightarrow> u64 option" where
  "app_clock time_us uptime_seconds =
     (case time_us of Some t \<Rightarrow> Some (t div 1000) | None \<Rightarrow> Some (ucast (uptime_seconds * 1000)))"

definition set_window :: "u32 \<Rightarrow> u64 option \<Rightarrow> Application \<Rightarrow> Application" where
  "set_window ms now a = a\<lparr>app_vote := resync now (vs_set_collection_window ms (app_vote a))\<rparr>"

definition app_check_alert :: "u64 option \<Rightarrow> Entry \<Rightarrow> Application \<Rightarrow> Application" where
  "app_check_alert now entry a =
     (let batch = load_batch (e_data entry) in
      if sb_alert_active batch = app_alert_active a then a
      else let a = a\<lparr>app_alert_active := sb_alert_active batch\<rparr> in
        if app_alert_active a
        then set_window (ucast ALERT_INTERVAL_MS) now
               (a\<lparr>app_alerts := app_alerts a @ [\<lparr>ap_alert_interval_ms = ALERT_INTERVAL_MS, ap_alert_active = True\<rparr>]\<rparr>)
        else set_window (ucast DEFAULT_TIMEOUT_MS) now
               (a\<lparr>app_alerts := app_alerts a @ [\<lparr>ap_alert_interval_ms = 0, ap_alert_active = False\<rparr>]\<rparr>))"

definition app_on_apply :: "u8 list \<Rightarrow> u64 option \<Rightarrow> Entry \<Rightarrow> Application \<Rightarrow> Application" where
  "app_on_apply pad now entry a =
     (case e_type entry of
        EGRESS_MSG \<Rightarrow>
          if unat (e_data_len entry) = SIZEOF_EGRESS
          then a\<lparr>app_tracker := on_egress_applied (load_egress (e_data entry)) (app_tracker a)\<rparr>
          else a
      | SENSOR_DATA \<Rightarrow>
          let a = app_check_alert now entry a
          in with_egress (begin_egress (make_egress_hooks (app_eui a) pad) (e_index entry) (app_tracker a)) a
      | _ \<Rightarrow> a)"

definition app_on_state_change :: "u8 list \<Rightarrow> State \<Rightarrow> State \<Rightarrow> Application \<Rightarrow> Application" where
  "app_on_state_change pad old_state new_state a =
     (if new_state = LEADER
      then let (t, srv, lora) = on_became_leader (make_egress_hooks (app_eui a) pad) (app_tracker a) (en_server (app_engine a), app_lora a)
           in a\<lparr>app_tracker := t, app_engine := (app_engine a)\<lparr>en_server := srv\<rparr>, app_lora := lora\<rparr>
      else a)"

definition app_on_complete :: "u8 list \<Rightarrow> u32 \<Rightarrow> u64 \<Rightarrow> Application \<Rightarrow> Application" where
  "app_on_complete pad seq batch_index a =
     with_egress (on_lorawan_ok (make_egress_hooks (app_eui a) pad) seq batch_index) a"

definition app_submit_batch :: "u8 list \<Rightarrow> SensorBatch \<Rightarrow> Application \<Rightarrow> Application" where
  "app_submit_batch pad batch a =
     with_egress (\<lambda>(srv, lora). (snd (submit SENSOR_DATA (store_batch pad batch) srv), lora)) a"

text \<open>The end of a window: the vote service hands the batch it closes with to the log.\<close>

definition app_on_window_close :: "u8 list \<Rightarrow> u64 option \<Rightarrow> Application \<Rightarrow> Application" where
  "app_on_window_close pad now a =
     (let vote = on_window_close now (app_vote a);
          batches = drop (length (vs_submitted (app_vote a))) (vs_submitted vote)
      in fold (app_submit_batch pad) batches (a\<lparr>app_vote := vote\<rparr>))"

definition app_on_reading :: "SensorReadingWire \<Rightarrow> Application \<Rightarrow> Application" where
  "app_on_reading reading a = a\<lparr>app_vote := vs_accumulate reading (app_vote a)\<rparr>"

definition app_on_alert :: "u64 option \<Rightarrow> AlertPacket \<Rightarrow> Application \<Rightarrow> Application" where
  "app_on_alert now alert a =
     (if is_leader (en_server (app_engine a)) then a
      else if ap_alert_active alert then set_window (ucast (ap_alert_interval_ms alert)) now a
      else set_window (ucast DEFAULT_TIMEOUT_MS) now a)"

section \<open>Snapshots of a deployed node\<close>

text \<open>
  The hook that saves the state writes nothing. The server takes a snapshot of length zero for one
  that was never taken, so a follower that has fallen behind the compacted log is never sent one.
\<close>

lemma deployed_node_sends_no_snapshot:
  assumes "m_cbs s = make_cbs uptime rand" and "m_snap_len s = 0"
  shows "m_snap_len (snd (begin_snapshot s)) = 0" and "send_install_snapshot peer s = s"
  using assms
  by (simp_all add: begin_snapshot_def make_cbs_def Let_def call_if_def record_event_def send_install_snapshot_def split: option.splits)

section \<open>Alerts\<close>

definition entry_flag :: "Entry \<Rightarrow> bool" where
  "entry_flag entry = sb_alert_active (load_batch (e_data entry))"

lemma app_check_alert_simps:
  "app_alert_active (app_check_alert now entry a) = entry_flag entry"
  "app_alerts (app_check_alert now entry a) = app_alerts a @
     (if entry_flag entry = app_alert_active a then []
      else [\<lparr>ap_alert_interval_ms = (if entry_flag entry then ALERT_INTERVAL_MS else 0), ap_alert_active = entry_flag entry\<rparr>])"
  "app_engine (app_check_alert now entry a) = app_engine a" "app_lora (app_check_alert now entry a) = app_lora a"
  "app_tracker (app_check_alert now entry a) = app_tracker a" "app_eui (app_check_alert now entry a) = app_eui a"
  by (auto simp: app_check_alert_def Let_def set_window_def entry_flag_def)

section \<open>What an applied batch does\<close>

lemma begin_egress_leader:
  fixes srv :: Server and lora :: LoraWanService and e :: Entry and t :: EgressTracker
  assumes "is_leader srv" and "wf_ring (m_log srv)" and "headroom srv" and "m_n_nodes srv \<noteq> 1"
    and "length pad = 3" and "m_running srv" and "m_state srv = LEADER" and "\<not> full (m_log srv)"
    and "get_entry i srv = Some e" and "i \<noteq> last_index (m_log srv) + 1"
    and "SIZEOF_BATCH \<le> unat (e_data_len e)"
  defines "rec \<equiv> \<lparr>er_batch_log_index = i, er_seq = next_seq t, er_phase = STARTED\<rparr>"
  shows "begin_egress (make_egress_hooks node pad) i t (srv, lora) =
    (snd (submit EGRESS_MSG (store_egress pad rec) srv), snd (send_batch node (load_batch (e_data e)) (e_term e) (e_index e) (next_seq t) lora))"
    and "get_entry (last_index (m_log srv) + 1) (snd (submit EGRESS_MSG (store_egress pad rec) srv)) =
      Some (submit_entry EGRESS_MSG (store_egress pad rec) srv)"
    and "get_entry i (snd (submit EGRESS_MSG (store_egress pad rec) srv)) = Some e"
proof -
  have len: "length (store_egress pad rec) = SIZEOF_EGRESS"
    using assms(5) by (intro egress.length_store) (simp add: storable_egress_def)
  have acc: "fst (submit EGRESS_MSG (store_egress pad rec) srv) = Inr (last_index (m_log srv) + 1)"
    using assms(6-8) len by (simp add: submit_def Let_def push_def ok_def submit_entry_def MAX_ENTRY_DATA_def SIZEOF_EGRESS_def)
  note get = submit_get_entry [OF assms(2,3,4) acc]
  show "get_entry (last_index (m_log srv) + 1) (snd (submit EGRESS_MSG (store_egress pad rec) srv)) =
      Some (submit_entry EGRESS_MSG (store_egress pad rec) srv)"
    by (rule get(1))
  show old: "get_entry i (snd (submit EGRESS_MSG (store_egress pad rec) srv)) = Some e"
    using get(2) [OF assms(10)] assms(9) by simp
  show "begin_egress (make_egress_hooks node pad) i t (srv, lora) =
    (snd (submit EGRESS_MSG (store_egress pad rec) srv), snd (send_batch node (load_batch (e_data e)) (e_term e) (e_index e) (next_seq t) lora))"
  proof -
    obtain r srv' where sub: "submit EGRESS_MSG (store_egress pad rec) srv = (r, srv')"
      by (cases "submit EGRESS_MSG (store_egress pad rec) srv")
    with acc old have "r = Inr (last_index (m_log srv) + 1)" "get_entry i srv' = Some e"
      by simp_all
    then show ?thesis
      using sub assms(1,11) by (simp add: begin_egress_def make_egress_hooks_def dispatch_def flip: rec_def)
  qed
qed

text \<open>A leader that can append one more entry.\<close>

definition can_append :: "Server \<Rightarrow> bool" where
  "can_append srv \<longleftrightarrow> is_leader srv \<and> m_running srv \<and> m_state srv = LEADER \<and> m_n_nodes srv \<noteq> 1 \<and> wf_ring (m_log srv) \<and>
     headroom srv \<and> \<not> full (m_log srv)"

text \<open>A log entry that carries a batch.\<close>

definition carries :: "Entry \<Rightarrow> SensorBatch \<Rightarrow> bool" where
  "carries e b \<longleftrightarrow> e_type e = SENSOR_DATA \<and> SIZEOF_BATCH \<le> unat (e_data_len e) \<and>
     (\<exists>pad rest. storable_batch pad b \<and> e_data e = store_batch pad b @ rest)"

lemma carries_load: "carries e b \<Longrightarrow> load_batch (e_data e) = b \<and> entry_flag e = sb_alert_active b"
  using load_store_batch by (auto simp: carries_def entry_flag_def)

lemma submitted_carries:
  assumes "storable_batch pad b"
  shows "carries (submit_entry SENSOR_DATA (store_batch pad b) s) b"
  using batch.entry_image(2) [OF assms, of SENSOR_DATA s] assms by (auto simp: carries_def submit_entry_def)

lemma with_egress_frame [simp]:
  "app_alerts (with_egress f a) = app_alerts a" "app_alert_active (with_egress f a) = app_alert_active a"
  "app_tracker (with_egress f a) = app_tracker a" "app_vote (with_egress f a) = app_vote a"
  by (simp_all add: with_egress_def split: prod.split)

lemma app_on_apply_alerts:
  "app_alert_active (app_on_apply pad now e a) = (if e_type e = SENSOR_DATA then entry_flag e else app_alert_active a)"
  "app_alerts (app_on_apply pad now e a) = (if e_type e = SENSOR_DATA then app_alerts (app_check_alert now e a) else app_alerts a)"
  by (cases "e_type e"; simp add: app_on_apply_def app_check_alert_simps Let_def)+

text \<open>
  When the leader applies a batch, the start of its uplink is appended to the log with the next
  sequence number, the batch is queued for the gateway under that number, its term and its log
  index, and the alert state becomes that of the batch.
\<close>

lemma apply_batch:
  fixes now :: "u64 option"
  assumes "can_append (en_server (app_engine a))" and "length pad = 3" and "carries e b"
    and "get_entry (e_index e) (en_server (app_engine a)) = Some e"
    and "e_index e \<noteq> last_index (m_log (en_server (app_engine a))) + 1" and "length (ls_tx_q (app_lora a)) < TX_QUEUE_DEPTH"
  defines "a' \<equiv> app_on_apply pad now e a"
  shows "ls_tx_q (app_lora a') = ls_tx_q (app_lora a) @ [make_payload (app_eui a) b (e_term e) (e_index e) (next_seq (app_tracker a))] \<and>
    (\<exists>st. get_entry (last_index (m_log (en_server (app_engine a))) + 1) (en_server (app_engine a')) = Some st \<and> e_type st = EGRESS_MSG \<and>
      load_egress (e_data st) = \<lparr>er_batch_log_index = e_index e, er_seq = next_seq (app_tracker a), er_phase = STARTED\<rparr>) \<and>
    app_alert_active a' = sb_alert_active b"
proof -
  let ?srv = "en_server (app_engine a)"
  let ?rec = "\<lparr>er_batch_log_index = e_index e, er_seq = next_seq (app_tracker a), er_phase = STARTED\<rparr>"
  have ready: "is_leader ?srv" "wf_ring (m_log ?srv)" "headroom ?srv" "m_n_nodes ?srv \<noteq> 1" "m_running ?srv" "m_state ?srv = LEADER"
    "\<not> full (m_log ?srv)"
    using assms(1) by (simp_all add: can_append_def)
  have e: "e_type e = SENSOR_DATA" "SIZEOF_BATCH \<le> unat (e_data_len e)" "load_batch (e_data e) = b" "entry_flag e = sb_alert_active b"
    using assms(3) carries_load by (auto simp: carries_def)
  note beg = begin_egress_leader [OF ready(1-4) assms(2) ready(5-7) assms(4,5) e(2), where t = "app_tracker a"]
  have srv: "en_server (app_engine a') = snd (submit EGRESS_MSG (store_egress pad ?rec) ?srv)"
    and lora: "app_lora a' = snd (send_batch (app_eui a) b (e_term e) (e_index e) (next_seq (app_tracker a)) (app_lora a))"
    using beg(1) [where node = "app_eui a" and lora = "app_lora a"] e
    by (simp_all add: a'_def app_on_apply_def Let_def with_egress_def app_check_alert_simps)
  have "ls_tx_q (app_lora a') = ls_tx_q (app_lora a) @ [make_payload (app_eui a) b (e_term e) (e_index e) (next_seq (app_tracker a))]"
    using assms(6) by (simp add: lora send_batch_def try_put_eq)
  moreover have "load_egress (e_data (submit_entry EGRESS_MSG (store_egress pad ?rec) ?srv)) = ?rec"
    using assms(2) by (intro egress.entry_image(1)) (simp add: storable_egress_def)
  moreover have "app_alert_active a' = sb_alert_active b"
    using e by (simp add: a'_def app_on_apply_alerts)
  ultimately show ?thesis
    using beg(2) srv by (auto simp: submit_entry_def)
qed

lemma apply_batch_frame:
  fixes now :: "u64 option"
  assumes "can_append (en_server (app_engine a))" and "length pad = 3" and "carries e b"
    and "get_entry (e_index e) (en_server (app_engine a)) = Some e"
    and "e_index e \<noteq> last_index (m_log (en_server (app_engine a))) + 1"
  shows "ls_joined (app_lora (app_on_apply pad now e a)) = ls_joined (app_lora a)"
    and "ls_completed (app_lora (app_on_apply pad now e a)) = ls_completed (app_lora a)"
    and "app_tracker (app_on_apply pad now e a) = app_tracker a"
  using assms begin_egress_leader(1) [of "en_server (app_engine a)" pad "e_index e" e "app_eui a" "app_tracker a" "app_lora a"]
  by (simp_all add: carries_def can_append_def app_on_apply_def Let_def with_egress_def app_check_alert_simps send_batch_def try_put_eq)

definition demo_batch_entry :: Entry where
  "demo_batch_entry = submit_entry SENSOR_DATA (store_batch (replicate 6 0) zero_batch) (demo_voter\<lparr>m_state := LEADER\<rparr>)"

definition demo_leader :: Server where
  "demo_leader = demo_voter\<lparr>m_state := LEADER, m_current_leader := 2, m_log := snd (push demo_batch_entry new_ring)\<rparr>"

definition demo_node :: Application where
  "demo_node = \<lparr>app_eui = 2, app_engine = \<lparr>en_server = demo_leader, en_rx_queue = [], en_message_pending = False\<rparr>, app_lora = new_lora_service [] [],
     app_tracker = new_tracker, app_vote = new_service True, app_alert_active = False, app_alerts = []\<rparr>"

lemma demo_node_ready:
  "can_append (en_server (app_engine demo_node))" "carries demo_batch_entry zero_batch" "e_index demo_batch_entry = 1"
  "get_entry 1 (en_server (app_engine demo_node)) = Some demo_batch_entry" "last_index (m_log (en_server (app_engine demo_node))) = 1"
  "ls_tx_q (app_lora demo_node) = []" "app_eui demo_node = 2" "next_seq (app_tracker demo_node) = 0"
proof -
  have ring: "last_index new_ring = 0" "\<not> full new_ring" "last_index (snd (push demo_batch_entry new_ring)) = 1"
    "\<not> full (snd (push demo_batch_entry new_ring))" "lr_base new_ring = 0" "lr_count new_ring = 0"
    by code_simp+
  have voter: "m_self_id demo_voter = 2"
    by code_simp
  show idx: "e_index demo_batch_entry = 1"
    using ring demo_voter_log by (simp add: demo_batch_entry_def submit_entry_def)
  show "carries demo_batch_entry zero_batch"
    unfolding demo_batch_entry_def by (rule submitted_carries) (simp add: storable_batch_def zero_batch_def)
  have "wf_ring new_ring"
    by (rule wf_new_ring)
  then show "get_entry 1 (en_server (app_engine demo_node)) = Some demo_batch_entry"
    using at_push [of new_ring demo_batch_entry] ring by (simp add: demo_node_def demo_leader_def get_entry_def)
  show "can_append (en_server (app_engine demo_node))"
    using push_ok [of new_ring demo_batch_entry] ring \<open>wf_ring new_ring\<close> demo_voter_log voter
    by (simp add: can_append_def demo_node_def demo_leader_def is_leader_def headroom_def)
qed (simp_all add: demo_node_def demo_leader_def new_lora_service_def new_tracker_def next_seq_def, code_simp)

text \<open>A batch handed to the log by the vote is found there, and nothing else moves.\<close>

lemma submit_batch_logged:
  assumes "can_append (en_server (app_engine a))" and "storable_batch pad b"
  defines "a' \<equiv> app_submit_batch pad b a" and "i \<equiv> last_index (m_log (en_server (app_engine a))) + 1"
  shows "get_entry i (en_server (app_engine a')) = Some (submit_entry SENSOR_DATA (store_batch pad b) (en_server (app_engine a)))"
    and "j \<noteq> i \<Longrightarrow> get_entry j (en_server (app_engine a')) = get_entry j (en_server (app_engine a))"
proof -
  let ?srv = "en_server (app_engine a)"
  have ready: "wf_ring (m_log ?srv)" "headroom ?srv" "m_n_nodes ?srv \<noteq> 1" "m_running ?srv" "m_state ?srv = LEADER" "\<not> full (m_log ?srv)"
    using assms(1) by (simp_all add: can_append_def)
  have acc: "fst (submit SENSOR_DATA (store_batch pad b) ?srv) = Inr i"
    using ready(4-6) batch.length_store [OF assms(2)]
    by (simp add: submit_def Let_def push_def ok_def submit_entry_def MAX_ENTRY_DATA_def SIZEOF_BATCH_def i_def)
  have "en_server (app_engine a') = snd (submit SENSOR_DATA (store_batch pad b) ?srv)"
    by (simp add: a'_def app_submit_batch_def with_egress_def)
  with submit_get_entry [OF ready(1-3) acc] show "get_entry i (en_server (app_engine a')) = Some (submit_entry SENSOR_DATA (store_batch pad b) ?srv)"
    and "j \<noteq> i \<Longrightarrow> get_entry j (en_server (app_engine a')) = get_entry j ?srv"
    by simp_all
qed

lemma window_close_logged:
  fixes now :: "u64 option"
  assumes "engine_ok (vs_engine (app_vote a))" and "vs_has_submit (app_vote a)" and "fst (close_window (vs_engine (app_vote a))) = Some b"
    and "can_append (en_server (app_engine a))" and "length pad = 6"
  defines "a' \<equiv> app_on_window_close pad now a" and "i \<equiv> last_index (m_log (en_server (app_engine a))) + 1"
  shows "\<exists>e. get_entry i (en_server (app_engine a')) = Some e \<and> e_index e = i \<and> e_term e = m_current_term (en_server (app_engine a)) \<and>
    carries e (b\<lparr>sb_alert_active := is_alert_active (app_vote a')\<rparr>)"
proof -
  define vote where "vote = on_window_close now (app_vote a)"
  define b' where "b' = b\<lparr>sb_alert_active := ve_alert_active (vs_engine vote)\<rparr>"
  have "vs_submitted vote = vs_submitted (app_vote a) @ [b']"
    using window_close_submits [OF assms(1,2), of now] assms(3) by (simp add: vote_def b'_def)
  then have a': "a' = app_submit_batch pad b' (a\<lparr>app_vote := vote\<rparr>)"
    by (simp add: a'_def app_on_window_close_def Let_def flip: vote_def)
  then have flag: "is_alert_active (app_vote a') = ve_alert_active (vs_engine vote)"
    by (simp add: is_alert_active_def app_submit_batch_def)
  have ok: "storable_batch pad b'"
    using close_window_spec(5) [OF assms(1,3)] assms(5) by (simp add: batch_ok_def storable_batch_def b'_def)
  show ?thesis
    using submit_batch_logged(1) [of "a\<lparr>app_vote := vote\<rparr>", OF _ ok] assms(4) submitted_carries [OF ok] flag
    by (auto simp: a' i_def b'_def submit_entry_def)
qed

section \<open>Properties\<close>


definition demo_start_entry :: Entry where
  "demo_start_entry = submit_entry EGRESS_MSG
     (store_egress [0, 0, 0] \<lparr>er_batch_log_index = 1, er_seq = 5, er_phase = STARTED\<rparr>) demo_leader"


text \<open>
  C29. Over any entries a node applies, it broadcasts an alert packet exactly when the alert flag of
  the batches changes, in order.
\<close>

theorem alert_changes_are_broadcast:
  "map ap_alert_active (app_alerts (fold (\<lambda>(now, e). app_on_apply pad now e) es a)) =
   map ap_alert_active (app_alerts a) @
     tl (remdups_adj (app_alert_active a # [entry_flag e. (now, e) \<leftarrow> es, e_type e = SENSOR_DATA]))"
proof (induction es arbitrary: a)
  case (Cons x es)
  then show ?case
    by (cases x) (auto simp: app_on_apply_alerts app_check_alert_simps)
qed simp

end
