(* ===== verification/Jsn_Driver.thy ===== *)
theory Jsn_Driver
  imports Sensor_Reading "HOL-Library.Monad_Syntax"
begin

text \<open>
  The ultrasonic sensor of an edge node: the conversions of
  \<^verbatim>\<open>edge/src/jsn/jsn_logic.hpp\<close> and the interrupt-driven driver of
  \<^verbatim>\<open>edge/src/jsn/driver.hpp\<close> with its sequence-locked reading. Zephyr's conversion of
  timer cycles to microseconds is an argument, as are the pin level and the cycle counter an
  interrupt sees.
\<close>

section \<open>Conversions\<close>

definition MIN_DISTANCE_MM :: u16 where [config_defs]: "MIN_DISTANCE_MM = 250"
definition MAX_DISTANCE_MM :: u16 where [config_defs]: "MAX_DISTANCE_MM = 4500"

definition distance_mm_from_us :: "u32 \<Rightarrow> u32" where
  "distance_mm_from_us pulse_width_us = pulse_width_us * 10 div 58"

datatype ReadingState = IDLE | IN_FLIGHT | VALID | OUT_OF_RANGE | TIMEOUT

definition calculate_reading :: "bool \<Rightarrow> u16 \<Rightarrow> u16 \<Rightarrow> SensorReading" where
  "calculate_reading is_valid dist ground_dist =
     (let result = \<lparr>sr_water_level = 0, sr_validity = VALIDITY_INVALID, sr_detail = DETAIL_FAILURE\<rparr> in
      if \<not> is_valid then result
      else if ground_dist < dist
      then result\<lparr>sr_validity := VALIDITY_QUESTIONABLE, sr_detail := DETAIL_OUT_OF_RANGE, sr_water_level := 0\<rparr>
      else if dist < MIN_DISTANCE_MM
      then result\<lparr>sr_validity := VALIDITY_QUESTIONABLE, sr_detail := DETAIL_OVERFLOW, sr_water_level := ground_dist\<rparr>
      else result\<lparr>sr_water_level := ground_dist - dist, sr_validity := VALIDITY_GOOD, sr_detail := DETAIL_NONE\<rparr>)"

section \<open>The published reading\<close>

text \<open>The three atomics of the sequence lock; a \<open>ReadingPair\<close> is a state and a distance.\<close>

type_synonym ReadingPair = "ReadingState \<times> u16"

record Cell =
  c_seq :: u32
  c_state :: ReadingState
  c_distance_mm :: u16

definition new_cell :: Cell where
  "new_cell = \<lparr>c_seq = 0, c_state = IDLE, c_distance_mm = 0\<rparr>"

definition publish :: "ReadingState \<Rightarrow> u16 \<Rightarrow> Cell \<Rightarrow> Cell" where
  "publish state dist c =
     (let seq = c_seq c;
          c = c\<lparr>c_seq := seq + 1\<rparr>;
          c = c\<lparr>c_state := state\<rparr>;
          c = c\<lparr>c_distance_mm := dist\<rparr>
      in c\<lparr>c_seq := seq + 2\<rparr>)"

text \<open>
  The reader makes one atomic access after the other; \<open>mem t\<close> is the memory its \<open>t\<close>-th access sees.
  The loop has no bound, so not returning is \<open>None\<close>.
\<close>

partial_function (option) load_from :: "(nat \<Rightarrow> Cell) \<Rightarrow> nat \<Rightarrow> ReadingPair option" where
  "load_from mem t =
     (let seq1 = c_seq (mem t) in
      if seq1 AND 1 \<noteq> 0 then load_from mem (t + 1)
      else let state = c_state (mem (t + 1));
               dist = c_distance_mm (mem (t + 2));
               seq2 = c_seq (mem (t + 3))
           in if seq1 = seq2 then Some (state, dist) else load_from mem (t + 4))"

text \<open>A read that nothing interrupts.\<close>

definition load_reading :: "Cell \<Rightarrow> ReadingPair option" where
  "load_reading c = load_from (\<lambda>_. c) 0"

section \<open>The driver\<close>

text \<open>
  The pins as the driver sets them, whether the echo interrupt is armed, and the driver's own
  fields. Operations return the state the completion callback is called with, if it is.
\<close>

record Driver =
  d_pwr :: bool
  d_trig :: bool
  d_irq :: bool
  d_rising_cycles :: u32
  d_resolved :: bool
  d_cell :: Cell

definition new_driver :: Driver where
  "new_driver = \<lparr>d_pwr = False, d_trig = False, d_irq = False, d_rising_cycles = 0, d_resolved = False, d_cell = new_cell\<rparr>"

definition driver_init :: "bool \<Rightarrow> bool \<Rightarrow> bool \<Rightarrow> bool \<Rightarrow> Driver \<Rightarrow> bool \<times> Driver" where
  "driver_init pwr_ready trig_ready echo_ready callback_added d =
     (if \<not> pwr_ready \<or> \<not> trig_ready \<or> \<not> echo_ready then (False, d)
      else (callback_added, d\<lparr>d_pwr := False, d_trig := False\<rparr>))"

definition power_on :: "Driver \<Rightarrow> Driver" where "power_on d = d\<lparr>d_pwr := True\<rparr>"
definition power_off :: "Driver \<Rightarrow> Driver" where "power_off d = d\<lparr>d_pwr := False\<rparr>"

definition trigger :: "Driver \<Rightarrow> Driver" where
  "trigger d =
     (let d = d\<lparr>d_resolved := False\<rparr>;
          d = d\<lparr>d_cell := publish IN_FLIGHT 0 (d_cell d)\<rparr>;
          d = d\<lparr>d_rising_cycles := 0\<rparr>;
          d = d\<lparr>d_irq := True\<rparr>;
          d = d\<lparr>d_trig := True\<rparr>
      in d\<lparr>d_trig := False\<rparr>)"

definition driver_on_timeout :: "Driver \<Rightarrow> ReadingState option \<times> Driver" where
  "driver_on_timeout d =
     (if d_resolved d then (None, d)
      else let d = d\<lparr>d_resolved := True\<rparr>;
               d = d\<lparr>d_irq := False\<rparr>
           in (Some TIMEOUT, d\<lparr>d_cell := publish TIMEOUT 0 (d_cell d)\<rparr>))"

definition reset :: "Driver \<Rightarrow> Driver" where
  "reset d = (let d = d\<lparr>d_resolved := False\<rparr> in d\<lparr>d_cell := publish IDLE 0 (d_cell d)\<rparr>)"

definition driver_state :: "Driver \<Rightarrow> ReadingState option" where
  "driver_state d = map_option fst (load_reading (d_cell d))"

definition is_ready :: "Driver \<Rightarrow> bool option" where
  "is_ready d = map_option (\<lambda>s. s = VALID) (driver_state d)"

definition is_timeout :: "Driver \<Rightarrow> bool option" where
  "is_timeout d = map_option (\<lambda>s. s = TIMEOUT) (driver_state d)"

definition raw_distance_mm :: "Driver \<Rightarrow> u16 option" where
  "raw_distance_mm d = map_option snd (load_reading (d_cell d))"

definition snapshot :: "Driver \<Rightarrow> ReadingPair option" where
  "snapshot d = load_reading (d_cell d)"

text \<open>
  One edge of the echo pin: \<open>level\<close> is the pin, \<open>cycles\<close> the cycle counter, \<open>cyc_to_us\<close> Zephyr's
  conversion. \<open>None\<close> is an interrupt handler that never returns.
\<close>

definition on_edge :: "(u32 \<Rightarrow> u32) \<Rightarrow> bool \<Rightarrow> u32 \<Rightarrow> Driver \<Rightarrow> (ReadingState option \<times> Driver) option" where
  "on_edge cyc_to_us level cycles d =
     do {
       (state, _) \<leftarrow> load_reading (d_cell d);
       if level \<and> state = IN_FLIGHT then Some (None, d\<lparr>d_rising_cycles := cycles\<rparr>)
       else if \<not> level \<and> state = IN_FLIGHT \<and> d_rising_cycles d \<noteq> 0
       then let delta = cycles - d_rising_cycles d;
                reading_us = cyc_to_us delta;
                dist = distance_mm_from_us reading_us
            in if d_resolved d then Some (None, d\<lparr>d_resolved := True\<rparr>)
               else let d = d\<lparr>d_resolved := True\<rparr>;
                        d = d\<lparr>d_irq := False\<rparr>
                    in Some (Some VALID, d\<lparr>d_cell := publish VALID (ucast dist) (d_cell d)\<rparr>)
       else Some (None, d)
     }"

section \<open>The sequence lock\<close>

text \<open>
  The writer's four stores, one at a time. \<open>writer pubs n\<close> is the memory after the first \<open>n\<close> stores of
  a writer that publishes \<open>pubs 0\<close>, \<open>pubs 1\<close>, ... one after the other.
\<close>

fun publish_step :: "nat \<Rightarrow> ReadingPair \<Rightarrow> Cell \<Rightarrow> Cell" where
  "publish_step r p c =
     (if r = 0 then c\<lparr>c_seq := c_seq c + 1\<rparr>
      else if r = 1 then c\<lparr>c_state := fst p\<rparr>
      else if r = 2 then c\<lparr>c_distance_mm := snd p\<rparr>
      else c\<lparr>c_seq := c_seq c + 1\<rparr>)"

fun writer :: "(nat \<Rightarrow> ReadingPair) \<Rightarrow> nat \<Rightarrow> Cell" where
  "writer pubs 0 = new_cell"
| "writer pubs (Suc n) = publish_step (n mod 4) (pubs (n div 4)) (writer pubs n)"

text \<open>The pair readable after \<open>k\<close> publications.\<close>

fun published :: "(nat \<Rightarrow> ReadingPair) \<Rightarrow> nat \<Rightarrow> ReadingPair" where
  "published pubs 0 = (IDLE, 0)"
| "published pubs (Suc k) = pubs k"

lemma publish_is_four_stores: "publish (fst p) (snd p) c = publish_step 3 p (publish_step 2 p (publish_step 1 p (publish_step 0 p c)))"
  by (simp add: publish_def Let_def)

lemma writer_at:
  "r < 4 \<Longrightarrow> c_seq (writer pubs (4 * k + r)) = of_nat (2 * k + (if r = 0 then 0 else 1)) \<and>
    c_state (writer pubs (4 * k + r)) = fst (published pubs (if 2 \<le> r then Suc k else k)) \<and>
    c_distance_mm (writer pubs (4 * k + r)) = snd (published pubs (if 3 \<le> r then Suc k else k))"
proof (induction "4 * k + r" arbitrary: k r)
  case 0
  then show ?case
    by (simp add: new_cell_def)
next
  case (Suc n)
  have w: "writer pubs (4 * k + r) = publish_step (n mod 4) (pubs (n div 4)) (writer pubs n)"
    unfolding Suc.hyps(2) [symmetric] by simp
  show ?case
  proof (cases r)
    case 0
    then obtain k' where k: "k = Suc k'" "n = 4 * k' + 3"
      using Suc.hyps(2) by (cases k) auto
    then have "n mod 4 = 3" "n div 4 = k'"
      by simp_all
    then have step: "writer pubs (4 * k + r) = publish_step 3 (pubs k') (writer pubs (4 * k' + 3))"
      using w k(2) by simp
    show ?thesis
      unfolding step using Suc.hyps(1) [of k' 3] k 0 by simp
  next
    case (Suc r')
    then have n: "n = 4 * k + r'" "r' < 3"
      using Suc.hyps(2) Suc.prems by auto
    then have "n mod 4 = r'" "n div 4 = k"
      by simp_all
    then have step: "writer pubs (4 * k + r) = publish_step r' (pubs k) (writer pubs (4 * k + r'))"
      using w n(1) by simp
    consider "r' = 0" | "r' = 1" | "r' = 2"
      using n(2) by linarith
    then show ?thesis
      unfolding step using Suc.hyps(1) [of k r'] Suc n(1) by cases simp_all
  qed
qed

lemma writer_seq: "c_seq (writer pubs n) = of_nat (2 * (n div 4) + (if n mod 4 = 0 then 0 else 1))"
  using writer_at [of "n mod 4" pubs "n div 4"] by (simp del: of_nat_add of_nat_mult)

lemma writer_rest:
  assumes "n mod 4 = 0"
  shows "(c_state (writer pubs n), c_distance_mm (writer pubs n)) = published pubs (n div 4)"
  using writer_at [of 0 pubs "n div 4"] assms by (simp add: mod_eq_0_iff_dvd)

lemma seq_odd_iff: "c_seq (writer pubs n) AND 1 \<noteq> 0 \<longleftrightarrow> n mod 4 \<noteq> 0"
proof -
  have "(of_nat m :: u32) AND 1 \<noteq> 0 \<longleftrightarrow> odd m" for m
    by (simp add: and_one_eq odd_iff_mod_2_eq_one [symmetric])
  then show ?thesis
    unfolding writer_seq by (simp del: of_nat_add of_nat_mult)
qed

lemma load_reading_odd: "c_seq c AND 1 \<noteq> 0 \<Longrightarrow> load_reading c = None"
proof -
  have "(\<forall>t. c_seq (mem t) AND 1 \<noteq> 0) \<longrightarrow> False" if "load_from mem t = Some p" for mem t p
    by (rule load_from.raw_induct [OF _ that]) (auto simp: Let_def split: if_splits)
  then show "c_seq c AND 1 \<noteq> 0 \<Longrightarrow> load_reading c = None"
    unfolding load_reading_def by (metis option.exhaust)
qed

lemma load_reading_even: "c_seq c AND 1 = 0 \<Longrightarrow> load_reading c = Some (c_state c, c_distance_mm c)"
  by (simp add: load_reading_def load_from.simps)

text \<open>
  A reader interleaved with the writer: by its \<open>t\<close>-th access the writer has made \<open>G t\<close> stores, over any
  non-decreasing \<open>G\<close>.
\<close>

lemma writer_stable:
  assumes "m \<le> n" and "n < 4 * 2 ^ 31" and "m mod 4 = 0" and "c_seq (writer pubs m) = c_seq (writer pubs n)"
  shows "m = n"
proof -
  let ?s = "\<lambda>n. 2 * (n div 4) + (if n mod 4 = 0 then 0 else 1) :: nat"
  have small: "?s k < 2 ^ LENGTH(32)" if "k < 4 * 2 ^ 31" for k
  proof -
    have "k div 4 < 2147483648"
      using that by (simp add: div_less_iff_less_mult)
    then show ?thesis
      by simp
  qed
  have "(of_nat (?s m) :: u32) = of_nat (?s n)"
    using assms(4) by (simp only: writer_seq)
  then have eq: "?s m = ?s n"
    by (rule of_nat_word_inj) (use small assms(1,2) in \<open>meson le_less_trans\<close>)+
  have "n mod 4 = 0"
  proof (rule ccontr)
    assume "n mod 4 \<noteq> 0"
    with eq assms(3) have "2 * (m div 4) = Suc (2 * (n div 4))"
      by simp
    then show False
      by presburger
  qed
  moreover from this eq assms(3) have "m div 4 = n div 4"
    by simp
  ultimately show ?thesis
    using assms(3) mult_div_mod_eq [of 4 m] mult_div_mod_eq [of 4 n] by simp
qed

lemma load_from_pair:
  assumes mono: "mono G" and bound: "\<And>t. G t < 4 * 2 ^ 31"
    and load: "load_from (\<lambda>t. writer pubs (G t)) t = Some p"
  shows "\<exists>k \<ge> G t div 4. p = published pubs k"
proof -
  have "mem = (\<lambda>t. writer pubs (G t)) \<longrightarrow> (\<exists>k \<ge> G t div 4. p = published pubs k)"
    if "load_from mem t = Some p" for mem t p
  proof (rule load_from.raw_induct [OF _ that], rule impI)
    fix rec mem t p
    assume IH: "\<And>mem t p. rec mem t = Some p \<Longrightarrow>
        mem = (\<lambda>t. writer pubs (G t)) \<longrightarrow> (\<exists>k \<ge> G t div 4. p = published pubs k)"
      and step: "(let seq1 = c_seq (mem t) in
          if seq1 AND 1 \<noteq> 0 then rec mem (t + 1)
          else let state = c_state (mem (t + 1)); dist = c_distance_mm (mem (t + 2)); seq2 = c_seq (mem (t + 3))
               in if seq1 = seq2 then Some (state, dist) else rec mem (t + 4)) = Some p"
      and mem: "mem = (\<lambda>t. writer pubs (G t))"
    have later: "\<exists>k \<ge> G t div 4. p = published pubs k" if "rec mem (t + i) = Some p" for i
      using IH [OF that] mem monoD [OF mono, of t "t + i"] div_le_mono le_trans by (metis le_add1)
    show "\<exists>k \<ge> G t div 4. p = published pubs k"
    proof (cases "c_seq (mem t) AND 1 \<noteq> 0 \<or> c_seq (mem t) \<noteq> c_seq (mem (t + 3))")
      case True
      then show ?thesis
        using step later [of 1] later [of 4] by (auto simp: Let_def split: if_splits)
    next
      case False
      then have even: "G t mod 4 = 0"
        using seq_odd_iff mem by blast
      have same: "G (t + 3) = G t"
        using writer_stable [OF monoD [OF mono, of t "t + 3"] bound even, of pubs] False mem by simp
      then have "G (t + 1) = G t" "G (t + 2) = G t"
        using monoD [OF mono, of t "t + 1"] monoD [OF mono, of "t + 1" "t + 3"]
          monoD [OF mono, of t "t + 2"] monoD [OF mono, of "t + 2" "t + 3"] by simp_all
      then have "p = (c_state (writer pubs (G t)), c_distance_mm (writer pubs (G t)))"
        using False step same by (auto simp: mem Let_def)
      then have "p = published pubs (G t div 4)"
        using writer_rest [OF even] by simp
      then show ?thesis
        by blast
    qed
  qed
  with load show ?thesis
    by blast
qed

lemma load_from_returns:
  assumes quiet: "\<And>t. T \<le> t \<Longrightarrow> G t = G T" and even: "G T mod 4 = 0"
  shows "\<exists>p. load_from (\<lambda>t. writer pubs (G t)) t = Some p"
proof (induction "T - t" arbitrary: t rule: less_induct)
  case less
  have even_after: "c_seq (writer pubs (G t)) AND 1 = 0" if "T \<le> t" for t
    using seq_odd_iff [of pubs "G t"] quiet [OF that] even by simp
  show ?case
  proof (cases "T \<le> t")
    case True
    then have "G t = G (t + 3)"
      using quiet [of t] quiet [of "t + 3"] by simp
    with True even_after show ?thesis
      by (subst load_from.simps) (simp add: Let_def)
  next
    case False
    then show ?thesis
      using less [of "t + 1"] less [of "t + 4"] by (subst load_from.simps) (simp add: Let_def)
  qed
qed

section \<open>A measurement\<close>

text \<open>A cell no writer is in the middle of.\<close>

definition quiet :: "Cell \<Rightarrow> bool" where
  "quiet c \<longleftrightarrow> c_seq c AND 1 = 0"

lemma quiet_publish [simp]: "quiet (publish st x c) = quiet c"
proof -
  have "(a + 2) AND 1 = 0 \<longleftrightarrow> a AND 1 = 0" for a :: u32
    by (simp add: and_one_eq even_iff_mod_2_eq_zero [symmetric])
  then show ?thesis
    by (simp add: quiet_def publish_def Let_def)
qed

lemma publish_fields [simp]: "c_state (publish st x c) = st" "c_distance_mm (publish st x c) = x"
  by (simp_all add: publish_def Let_def)

lemma load_reading_quiet: "quiet c \<Longrightarrow> load_reading c = Some (c_state c, c_distance_mm c)"
  by (simp add: quiet_def load_reading_even)

text \<open>What can happen to a triggered driver: edges on the echo pin and the timeout.\<close>

datatype driver_event = Edge bool u32 | Timeout

fun handle_event :: "(u32 \<Rightarrow> u32) \<Rightarrow> driver_event \<Rightarrow> Driver \<Rightarrow> (ReadingState option \<times> Driver) option" where
  "handle_event f (Edge level cycles) d = on_edge f level cycles d"
| "handle_event f Timeout d = Some (driver_on_timeout d)"

fun run_driver :: "(u32 \<Rightarrow> u32) \<Rightarrow> driver_event list \<Rightarrow> Driver \<Rightarrow> (ReadingState list \<times> Driver) option" where
  "run_driver f [] d = Some ([], d)"
| "run_driver f (ev # evs) d =
     do {
       (cb, d) \<leftarrow> handle_event f ev d;
       (cbs, d) \<leftarrow> run_driver f evs d;
       Some (case cb of None \<Rightarrow> cbs | Some st \<Rightarrow> st # cbs, d)
     }"

definition in_flight :: "Driver \<Rightarrow> bool" where
  "in_flight d \<longleftrightarrow> quiet (d_cell d) \<and> c_state (d_cell d) = IN_FLIGHT \<and> \<not> d_resolved d"

definition settled :: "Driver \<Rightarrow> bool" where
  "settled d \<longleftrightarrow> quiet (d_cell d) \<and> c_state (d_cell d) \<noteq> IN_FLIGHT \<and> d_resolved d"

lemma trigger_in_flight: "quiet (d_cell d) \<Longrightarrow> in_flight (trigger d)"
  by (simp add: trigger_def in_flight_def)

lemma settled_ignores: "settled d \<Longrightarrow> handle_event f ev d = Some (None, d)"
  by (cases ev) (auto simp: settled_def on_edge_def driver_on_timeout_def load_reading_quiet)

lemma settled_run: "settled d \<Longrightarrow> run_driver f evs d = Some ([], d)"
  by (induction evs) (simp_all add: settled_ignores)

lemma in_flight_step:
  assumes "in_flight d"
  shows "\<exists>d'. handle_event f ev d = Some (None, d') \<and> in_flight d' \<and> ev \<noteq> Timeout \<or>
    (\<exists>st. handle_event f ev d = Some (Some st, d') \<and> settled d' \<and> c_state (d_cell d') = st \<and> st \<in> {VALID, TIMEOUT})"
  using assms
  by (cases ev) (auto simp: in_flight_def settled_def on_edge_def driver_on_timeout_def load_reading_quiet Let_def)

lemma in_flight_run:
  assumes "in_flight d"
  shows "\<exists>cbs d'. run_driver f evs d = Some (cbs, d') \<and>
    (cbs = [] \<and> in_flight d' \<and> Timeout \<notin> set evs \<or>
     (\<exists>st \<in> {VALID, TIMEOUT}. cbs = [st] \<and> settled d' \<and> c_state (d_cell d') = st))"
  using assms
proof (induction evs arbitrary: d)
  case (Cons ev evs)
  from in_flight_step [OF Cons.prems, of f ev] show ?case
  proof (elim exE disjE conjE)
    fix d'
    assume "handle_event f ev d = Some (None, d')" "in_flight d'" "ev \<noteq> Timeout"
    with Cons.IH [of d'] show ?thesis
      by auto
  next
    fix d' st
    assume "handle_event f ev d = Some (Some st, d')" "settled d'" "c_state (d_cell d') = st" "st \<in> {VALID, TIMEOUT}"
    then show ?thesis
      using settled_run [of d' f evs] by auto
  qed
qed simp

lemma unat_distance:
  assumes "unat us \<le> 380108"
  shows "unat (ucast (distance_mm_from_us us) :: u16) = unat us * 10 div 58"
proof -
  have m: "unat (us * 10) = unat us * 10"
    using assms by (simp add: unat_mult_no_wrap)
  have "unat us * 10 div 58 < 65536"
    using assms by (simp add: div_less_iff_less_mult)
  then show ?thesis
    by (simp add: distance_mm_from_us_def unsigned_ucast_eq unat_div m take_bit_nat_eq_self)
qed

section \<open>Properties\<close>

text \<open>
  C27. The sequence lock: a reader interleaved in any way with a writer that publishes one reading
  after the other, and that eventually pauses between two publications, returns; and the state
  and the distance it returns were published together, by a publication no older than the last
  one completed when the read began. The sequence number has 32 bits; fewer than \<open>2 ^ 31\<close>
  publications are assumed.
\<close>

theorem seqlock_reads_whole_pairs:
  assumes "mono G" and "\<And>t. G t < 4 * 2 ^ 31"
    and "\<And>t. T \<le> t \<Longrightarrow> G t = G T" and "G T mod 4 = 0"
  shows "\<exists>k \<ge> G t div 4. load_from (\<lambda>t. writer pubs (G t)) t = Some (published pubs k)"
proof -
  obtain p where "load_from (\<lambda>t. writer pubs (G t)) t = Some p"
    using load_from_returns [of T G pubs t] assms(3,4) by blast
  with load_from_pair [OF assms(1,2) this] show ?thesis
    by blast
qed

text \<open>A writer at work through the first eight accesses of the reader.\<close>

definition demo_stores :: "nat \<Rightarrow> nat" where
  "demo_stores t = min t 8"

theorem seqlock_reads_whole_pairs_witness:
  "\<exists>k. load_from (\<lambda>t. writer (\<lambda>k. (VALID, of_nat k)) (demo_stores t)) 1 = Some (published (\<lambda>k. (VALID, of_nat k)) k)"
proof -
  have "mono demo_stores" "demo_stores t < 4 * 2 ^ 31" "8 \<le> t \<Longrightarrow> demo_stores t = demo_stores 8" "demo_stores 8 mod 4 = 0" for t
    by (auto simp: demo_stores_def mono_def)
  from seqlock_reads_whole_pairs [OF this, of 1] show ?thesis
    by blast
qed

text \<open>
  C36. One completion per measurement: after a trigger, whatever edges and timeouts follow and in
  whatever order, every handler returns, the completion callback runs at most once, exactly once
  if the timeout is among them, and the published state is the one it was called with.
\<close>

theorem one_completion_per_measurement:
  assumes "quiet (d_cell d)"
  shows "\<exists>cbs d'. run_driver f evs (trigger d) = Some (cbs, d') \<and>
    (cbs = [] \<and> Timeout \<notin> set evs \<and> driver_state d' = Some IN_FLIGHT \<or>
     cbs = [VALID] \<and> driver_state d' = Some VALID \<or> cbs = [TIMEOUT] \<and> driver_state d' = Some TIMEOUT)"
  using in_flight_run [OF trigger_in_flight [OF assms], of f evs]
  by (auto simp: driver_state_def in_flight_def settled_def load_reading_quiet)

theorem one_completion_per_measurement_witness:
  "\<exists>cbs d'. run_driver id [Edge True 100, Edge False 5900, Timeout, Edge False 7000] (trigger new_driver) = Some (cbs, d') \<and>
    (cbs = [VALID] \<and> driver_state d' = Some VALID \<or> cbs = [TIMEOUT] \<and> driver_state d' = Some TIMEOUT)"
  using one_completion_per_measurement [of new_driver id "[Edge True 100, Edge False 5900, Timeout, Edge False 7000]"]
  by (auto simp: new_driver_def new_cell_def quiet_def)

text \<open>
  The echo is measured right: a rising edge and a falling edge \<open>n\<close> cycles later, also across a
  wrap of the cycle counter, publish the distance of the pulse width, as long as the pulse is
  at most 380108 microseconds.
\<close>

theorem echo_distance:
  assumes "in_flight d" and "c \<noteq> 0" and "unat (f n) \<le> 380108"
  shows "\<exists>d' mm. run_driver f [Edge True c, Edge False (c + n)] d = Some ([VALID], d') \<and>
    snapshot d' = Some (VALID, mm) \<and> unat mm = unat (f n) * 10 div 58"
  using assms unat_distance [OF assms(3)]
  by (simp add: in_flight_def on_edge_def load_reading_quiet snapshot_def Let_def)

theorem echo_distance_witness:
  "\<exists>d' mm. run_driver id [Edge True (- 100), Edge False 5700] (trigger new_driver) = Some ([VALID], d') \<and>
    snapshot d' = Some (VALID, mm) \<and> unat mm = 1000"
proof -
  have "in_flight (trigger new_driver)"
    by (rule trigger_in_flight) (simp add: new_driver_def new_cell_def quiet_def)
  then show ?thesis
    using echo_distance [of "trigger new_driver" "- 100" id 5800] by simp
qed

text \<open>
  What an edge node reports: the level never exceeds the distance to the ground; it is marked
  good exactly for a completed measurement between the sensor's minimum and the ground; and then
  level and distance add up to the ground distance without wrap-around.
\<close>

theorem calculate_reading_sound:
  "sr_water_level (calculate_reading v dist ground) \<le> ground \<and>
   (sr_validity (calculate_reading v dist ground) = VALIDITY_GOOD \<longleftrightarrow> v \<and> MIN_DISTANCE_MM \<le> dist \<and> dist \<le> ground) \<and>
   (sr_validity (calculate_reading v dist ground) = VALIDITY_GOOD \<longrightarrow>
      unat (sr_water_level (calculate_reading v dist ground)) + unat dist = unat ground)"
  by (auto simp: calculate_reading_def Let_def VALIDITY_GOOD_def VALIDITY_INVALID_def VALIDITY_QUESTIONABLE_def
      word_cmp_unat unat_sub_no_wrap)

theorem calculate_reading_sound_witness:
  "unat (sr_water_level (calculate_reading True 1500 2000)) + 1500 = 2000"
  using calculate_reading_sound [of True 1500 2000]
  by (simp add: MIN_DISTANCE_MM_def)

section \<open>Limits\<close>

text \<open>
  The measurement waits up to a second, but the distance is cut to 16 bits: an echo of 386 ms
  stands for more than 66 m and is reported as a good reading of about one metre.
\<close>

theorem long_echo_aliases:
  assumes "in_flight d"
  shows "\<exists>d'. run_driver id [Edge True 1, Edge False 386001] d = Some ([VALID], d') \<and> snapshot d' = Some (VALID, 1015)"
    and "sr_validity (calculate_reading True 1015 2000) = VALIDITY_GOOD"
  using assms
  by (simp_all add: in_flight_def on_edge_def load_reading_quiet snapshot_def Let_def distance_mm_from_us_def
      calculate_reading_def MIN_DISTANCE_MM_def)

text \<open>
  An edge interrupt that arrives in the middle of a publication never returns: its reader waits
  for the writer it has preempted.
\<close>

theorem edge_inside_publish_hangs:
  assumes "in_flight d" and "r < 3"
  shows "on_edge f level cycles (d\<lparr>d_cell := fold (\<lambda>i. publish_step i p) [0..<Suc r] (d_cell d)\<rparr>) = None"
proof -
  have odd: "(c_seq c + 1) AND 1 \<noteq> 0" if "quiet c" for c
    using that by (simp add: quiet_def and_one_eq even_iff_mod_2_eq_zero [symmetric] odd_iff_mod_2_eq_one [symmetric])
  consider "r = 0" | "r = 1" | "r = 2"
    using assms(2) by linarith
  then have "c_seq (fold (\<lambda>i. publish_step i p) [0..<Suc r] (d_cell d)) = c_seq (d_cell d) + 1"
    by cases (simp_all add: upt_rec)
  then show ?thesis
    using odd assms(1) by (simp add: on_edge_def load_reading_odd in_flight_def)
qed

end
