(* ===== verification/Sensor_Cycle.thy ===== *)
theory Sensor_Cycle
  imports Jsn_Driver Kernel_Objects
begin

text \<open>
  The measurement cycle of an edge node, \<^verbatim>\<open>edge/src/sensor/sensor_cycle.hpp\<close>, on the timers
  and work items of \<^verbatim>\<open>common/periodic_task.hpp\<close> and
  \<^verbatim>\<open>common/work_task.hpp\<close>. A timer that expires only submits its work item; the items run
  one after the other on the system work queue, first in first out, and stopping a timer does not
  take back an item already submitted. Times are the kernel's uptime in milliseconds, a signed
  64-bit counter that does not overflow in the life of a device.
\<close>

section \<open>Timers and work\<close>

datatype work = Sleep_Work | Warmup_Work | Timeout_Work | Read_Work

text \<open>\<open>k_work_submit\<close>: an item that is already queued is not queued again.\<close>

definition work_submit :: "work \<Rightarrow> work list \<Rightarrow> work list" where
  "work_submit w q = (if w \<in> set q then q else q @ [w])"

lemma work_submit_is_the_kernels: "work_submit w q = sk_queue (work_task_submit sim_kernel w \<lparr>sk_armed = timers, sk_queue = q\<rparr>)"
  by (simp add: work_submit_def work_task_submit_def sim_kernel_def)

text \<open>A timer is its deadline while it runs.\<close>

type_synonym timer = "int option"

definition timer_one_shot :: "u32 \<Rightarrow> int \<Rightarrow> timer" where
  "timer_one_shot period now = Some (now + int (unat period))"

definition timer_stop :: "timer \<Rightarrow> timer" where
  "timer_stop t = None"

section \<open>The cycle\<close>

definition SENSOR_WARMUP_MS :: u32 where [config_defs]: "SENSOR_WARMUP_MS = 100"
definition SENSOR_TIMEOUT_MS :: u32 where [config_defs]: "SENSOR_TIMEOUT_MS = 1000"
definition GROUND_DIST_MM :: u16 where [config_defs]: "GROUND_DIST_MM = 2000"

record SensorCycle =
  sc_jsn :: Driver
  sc_sleep :: timer
  sc_warmup :: timer
  sc_timeout :: timer
  sc_queue :: "work list"
  sc_cycle_start_ms :: int
  sc_emitted :: "(bool \<times> u16 \<times> u16) list"

definition new_cycle :: SensorCycle where
  "new_cycle = \<lparr>sc_jsn = new_driver, sc_sleep = None, sc_warmup = None, sc_timeout = None, sc_queue = [],
     sc_cycle_start_ms = 0, sc_emitted = []\<rparr>"

definition schedule_sleep_from :: "u32 \<Rightarrow> int \<Rightarrow> int \<Rightarrow> SensorCycle \<Rightarrow> SensorCycle" where
  "schedule_sleep_from interval anchor now s =
     (let period = int (unat interval);
          elapsed = now - anchor;
          remaining = period - elapsed;
          remaining = max remaining 0
      in s\<lparr>sc_sleep := timer_one_shot (word_of_int remaining) now\<rparr>)"

definition cycle_start :: "u32 \<Rightarrow> int \<Rightarrow> int \<Rightarrow> SensorCycle \<Rightarrow> SensorCycle" where
  "cycle_start interval anchor now s =
     schedule_sleep_from interval anchor now (s\<lparr>sc_jsn := power_off (sc_jsn s)\<rparr>)"

definition cycle_abort :: "SensorCycle \<Rightarrow> SensorCycle" where
  "cycle_abort s =
     (let s = s\<lparr>sc_sleep := timer_stop (sc_sleep s)\<rparr>;
          s = s\<lparr>sc_warmup := timer_stop (sc_warmup s)\<rparr>;
          s = s\<lparr>sc_timeout := timer_stop (sc_timeout s)\<rparr>;
          s = s\<lparr>sc_jsn := power_off (sc_jsn s)\<rparr>
      in s\<lparr>sc_jsn := reset (sc_jsn s)\<rparr>)"

definition reschedule :: "u32 \<Rightarrow> int \<Rightarrow> int \<Rightarrow> SensorCycle \<Rightarrow> SensorCycle" where
  "reschedule interval anchor now s = schedule_sleep_from interval anchor now (cycle_abort s)"

text \<open>The completion callback the constructor installs.\<close>

definition driver_done :: "ReadingState option \<Rightarrow> SensorCycle \<Rightarrow> SensorCycle" where
  "driver_done cb s =
     (case cb of None \<Rightarrow> s
      | Some _ \<Rightarrow> s\<lparr>sc_timeout := timer_stop (sc_timeout s), sc_queue := work_submit Read_Work (sc_queue s)\<rparr>)"

definition on_sleep_elapsed :: "int \<Rightarrow> SensorCycle \<Rightarrow> SensorCycle" where
  "on_sleep_elapsed now s =
     (let s = s\<lparr>sc_cycle_start_ms := now\<rparr>;
          s = s\<lparr>sc_jsn := power_on (sc_jsn s)\<rparr>
      in s\<lparr>sc_warmup := timer_one_shot SENSOR_WARMUP_MS now\<rparr>)"

definition on_warmup_elapsed :: "int \<Rightarrow> SensorCycle \<Rightarrow> SensorCycle" where
  "on_warmup_elapsed now s =
     (let s = s\<lparr>sc_jsn := trigger (sc_jsn s)\<rparr> in s\<lparr>sc_timeout := timer_one_shot SENSOR_TIMEOUT_MS now\<rparr>)"

definition on_timeout_elapsed :: "SensorCycle \<Rightarrow> SensorCycle" where
  "on_timeout_elapsed s = (let (cb, d) = driver_on_timeout (sc_jsn s) in driver_done cb (s\<lparr>sc_jsn := d\<rparr>))"

definition do_read :: "u32 \<Rightarrow> int \<Rightarrow> SensorCycle \<Rightarrow> SensorCycle option" where
  "do_read interval now s =
     do {
       let s = s\<lparr>sc_jsn := power_off (sc_jsn s)\<rparr>;
       (state, dist) \<leftarrow> snapshot (sc_jsn s);
       let is_ready = (state = VALID);
       let s = s\<lparr>sc_emitted := sc_emitted s @ [(is_ready, dist, GROUND_DIST_MM)]\<rparr>;
       let s = s\<lparr>sc_jsn := reset (sc_jsn s)\<rparr>;
       Some (schedule_sleep_from interval (sc_cycle_start_ms s) now s)
     }"

fun run_work :: "u32 \<Rightarrow> int \<Rightarrow> work \<Rightarrow> SensorCycle \<Rightarrow> SensorCycle option" where
  "run_work interval now Sleep_Work s = Some (on_sleep_elapsed now s)"
| "run_work interval now Warmup_Work s = Some (on_warmup_elapsed now s)"
| "run_work interval now Timeout_Work s = Some (on_timeout_elapsed s)"
| "run_work interval now Read_Work s = do_read interval now s"

text \<open>
  The steps of a node: a timer expires no earlier than its deadline, the work queue runs its first
  item, an edge arrives while its interrupt is armed. Work items and handlers are atomic; the clock
  never goes back; \<open>f\<close> converts cycles to microseconds.
\<close>

inductive cycle_step :: "(u32 \<Rightarrow> u32) \<Rightarrow> int \<times> SensorCycle \<Rightarrow> int \<times> SensorCycle \<Rightarrow> bool" for f where
  sleep_expires: "now \<le> now' \<Longrightarrow> sc_sleep s = Some t \<Longrightarrow> t \<le> now' \<Longrightarrow>
    cycle_step f (now, s) (now', s\<lparr>sc_sleep := None, sc_queue := work_submit Sleep_Work (sc_queue s)\<rparr>)"
| warmup_expires: "now \<le> now' \<Longrightarrow> sc_warmup s = Some t \<Longrightarrow> t \<le> now' \<Longrightarrow>
    cycle_step f (now, s) (now', s\<lparr>sc_warmup := None, sc_queue := work_submit Warmup_Work (sc_queue s)\<rparr>)"
| timeout_expires: "now \<le> now' \<Longrightarrow> sc_timeout s = Some t \<Longrightarrow> t \<le> now' \<Longrightarrow>
    cycle_step f (now, s) (now', s\<lparr>sc_timeout := None, sc_queue := work_submit Timeout_Work (sc_queue s)\<rparr>)"
| works: "now \<le> now' \<Longrightarrow> sc_queue s = w # q \<Longrightarrow> run_work interval now' w (s\<lparr>sc_queue := q\<rparr>) = Some s' \<Longrightarrow>
    cycle_step f (now, s) (now', s')"
| edge: "now \<le> now' \<Longrightarrow> d_irq (sc_jsn s) \<Longrightarrow> on_edge f level cycles (sc_jsn s) = Some (cb, d) \<Longrightarrow>
    cycle_step f (now, s) (now', driver_done cb (s\<lparr>sc_jsn := d\<rparr>))"

inductive_cases cycle_stepE: "cycle_step f (now, s) (now', s')"

section \<open>The phases\<close>

text \<open>A stage of the cycle waits for its timer, or the expired timer's item waits in the queue.\<close>

definition waits :: "timer \<Rightarrow> work \<Rightarrow> work list \<Rightarrow> bool" where
  "waits t w q \<longleftrightarrow> t \<noteq> None \<and> q = [] \<or> t = None \<and> q = [w]"

definition sleeping :: "SensorCycle \<Rightarrow> bool" where
  "sleeping s \<longleftrightarrow> \<not> d_pwr (sc_jsn s) \<and> \<not> d_irq (sc_jsn s) \<and> quiet (d_cell (sc_jsn s)) \<and>
     waits (sc_sleep s) Sleep_Work (sc_queue s) \<and> sc_warmup s = None \<and> sc_timeout s = None"

definition warming :: "int \<Rightarrow> SensorCycle \<Rightarrow> bool" where
  "warming now s \<longleftrightarrow> d_pwr (sc_jsn s) \<and> \<not> d_irq (sc_jsn s) \<and> quiet (d_cell (sc_jsn s)) \<and> sc_cycle_start_ms s \<le> now \<and>
     waits (sc_warmup s) Warmup_Work (sc_queue s) \<and> sc_sleep s = None \<and> sc_timeout s = None"

definition measuring :: "int \<Rightarrow> SensorCycle \<Rightarrow> bool" where
  "measuring now s \<longleftrightarrow> d_pwr (sc_jsn s) \<and> d_irq (sc_jsn s) \<and> in_flight (sc_jsn s) \<and> sc_cycle_start_ms s \<le> now \<and>
     waits (sc_timeout s) Timeout_Work (sc_queue s) \<and> sc_sleep s = None \<and> sc_warmup s = None"

definition reading_out :: "int \<Rightarrow> SensorCycle \<Rightarrow> bool" where
  "reading_out now s \<longleftrightarrow> d_pwr (sc_jsn s) \<and> \<not> d_irq (sc_jsn s) \<and> settled (sc_jsn s) \<and>
     c_state (d_cell (sc_jsn s)) \<in> {VALID, TIMEOUT} \<and> sc_cycle_start_ms s \<le> now \<and>
     sc_queue s \<in> {[Read_Work], [Timeout_Work, Read_Work]} \<and>
     sc_sleep s = None \<and> sc_warmup s = None \<and> sc_timeout s = None"

definition cycle_ok :: "int \<times> SensorCycle \<Rightarrow> bool" where
  "cycle_ok c = (case c of (now, s) \<Rightarrow> sleeping s \<or> warming now s \<or> measuring now s \<or> reading_out now s)"

lemmas phase_defs = sleeping_def warming_def measuring_def reading_out_def waits_def

lemma schedule_sleep_from_eq:
  assumes "anchor \<le> now"
  shows "schedule_sleep_from interval anchor now s = s\<lparr>sc_sleep := Some (max (anchor + int (unat interval)) now)\<rparr>"
proof -
  define r where "r = max (int (unat interval) - (now - anchor)) 0"
  have "r \<le> int (unat interval)" "0 \<le> r"
    using assms by (simp_all add: r_def)
  moreover have "int (unat interval) < 2 ^ 32"
    using of_nat_less_iff [where ?'a = int, THEN iffD2, OF unat_lt_32 [of interval]] by simp
  ultimately have "uint (word_of_int r :: u32) = r"
    by (simp add: unsigned_of_int take_bit_int_eq_self_iff)
  then have "int (unat (word_of_int r :: u32)) = r"
    by simp
  then show ?thesis
    by (simp add: schedule_sleep_from_def Let_def timer_one_shot_def r_def [symmetric] r_def max_def)
qed

lemma snapshot_settled: "settled d \<Longrightarrow> snapshot (power_off d) = Some (c_state (d_cell d), c_distance_mm (d_cell d))"
  by (simp add: snapshot_def power_off_def settled_def load_reading_quiet)

lemma do_read_eq:
  assumes "settled (sc_jsn s)" and "sc_cycle_start_ms s \<le> now"
  shows "do_read interval now s = Some (s\<lparr>sc_jsn := reset (power_off (sc_jsn s)),
    sc_emitted := sc_emitted s @ [(c_state (d_cell (sc_jsn s)) = VALID, c_distance_mm (d_cell (sc_jsn s)), GROUND_DIST_MM)],
    sc_sleep := Some (max (sc_cycle_start_ms s + int (unat interval)) now)\<rparr>)"
  using assms snapshot_settled [of "sc_jsn s"]
  by (simp add: do_read_def Let_def schedule_sleep_from_eq)

lemma cycle_ok_start: "anchor \<le> now \<Longrightarrow> cycle_ok (now, cycle_start interval anchor now new_cycle)"
  by (simp add: cycle_ok_def cycle_start_def schedule_sleep_from_eq phase_defs new_cycle_def new_driver_def
      new_cell_def quiet_def power_off_def)

text \<open>Each phase leads to itself or to the next; only the last step of the cycle emits.\<close>

lemma sleeping_step:
  assumes "sleeping s" and "cycle_step f (now, s) (now', s')"
  shows "(sleeping s' \<or> warming now' s') \<and> sc_emitted s' = sc_emitted s"
  using assms(2)
proof cases
  case (works w q interval)
  then have "w = Sleep_Work" "q = []"
    using assms(1) by (auto simp: sleeping_def waits_def)
  then have "s' = on_sleep_elapsed now' (s\<lparr>sc_queue := []\<rparr>)"
    using works(3) by simp
  then show ?thesis
    using assms(1) works(2) by (auto simp: sleeping_def warming_def waits_def on_sleep_elapsed_def power_on_def timer_one_shot_def Let_def)
qed (use assms(1) in \<open>auto simp: sleeping_def waits_def work_submit_def\<close>)

lemma warming_step:
  assumes "warming now s" and "cycle_step f (now, s) (now', s')"
  shows "(warming now' s' \<or> measuring now' s') \<and> sc_emitted s' = sc_emitted s"
  using assms(2)
proof cases
  case (works w q interval)
  then have "w = Warmup_Work" "q = []"
    using assms(1) by (auto simp: warming_def waits_def)
  then have "s' = on_warmup_elapsed now' (s\<lparr>sc_queue := []\<rparr>)"
    using works(3) by simp
  then show ?thesis
    using assms(1) works(2) \<open>now \<le> now'\<close>
    by (auto simp: warming_def measuring_def waits_def on_warmup_elapsed_def timer_one_shot_def Let_def trigger_def in_flight_def)
qed (use assms(1) in \<open>auto simp: warming_def waits_def work_submit_def\<close>)

lemma measuring_edge:
  assumes "in_flight d" and "on_edge f level cycles d = Some (cb, d')" and "d_pwr d" and "d_irq d"
  shows "cb = None \<and> in_flight d' \<and> d_pwr d' \<and> d_irq d' \<or>
    cb = Some VALID \<and> settled d' \<and> c_state (d_cell d') = VALID \<and> d_pwr d' \<and> \<not> d_irq d'"
  using assms
  by (auto simp: on_edge_def in_flight_def settled_def load_reading_quiet Let_def split: if_splits)

lemma measuring_timeout:
  assumes "in_flight d" and "d_pwr d"
  shows "\<exists>d'. driver_on_timeout d = (Some TIMEOUT, d') \<and> settled d' \<and> c_state (d_cell d') = TIMEOUT \<and> d_pwr d' \<and> \<not> d_irq d'"
  using assms by (auto simp: driver_on_timeout_def in_flight_def settled_def Let_def)

lemma measuring_step:
  assumes "measuring now s" and "cycle_step f (now, s) (now', s')"
  shows "(measuring now' s' \<or> reading_out now' s') \<and> sc_emitted s' = sc_emitted s"
  using assms(2)
proof cases
  case (works w q interval)
  then have "w = Timeout_Work" "q = []"
    using assms(1) by (auto simp: phase_defs)
  then show ?thesis
    using works assms(1) measuring_timeout [of "sc_jsn s"]
    by (auto simp: phase_defs on_timeout_elapsed_def driver_done_def work_submit_def timer_stop_def)
next
  case (edge level cycles cb d)
  then show ?thesis
    using assms(1) measuring_edge [of "sc_jsn s" f level cycles cb d]
    by (auto simp: phase_defs driver_done_def work_submit_def timer_stop_def)
qed (use assms(1) in \<open>auto simp: phase_defs work_submit_def\<close>)

lemma reading_step:
  assumes "reading_out now s" and "cycle_step f (now, s) (now', s')"
  shows "reading_out now' s' \<and> sc_emitted s' = sc_emitted s \<or>
    sleeping s' \<and> sc_emitted s' = sc_emitted s @
      [(c_state (d_cell (sc_jsn s)) = VALID, c_distance_mm (d_cell (sc_jsn s)), GROUND_DIST_MM)]"
  using assms(2)
proof cases
  case (works w q interval)
  consider "w = Read_Work" "q = []" | "w = Timeout_Work" "q = [Read_Work]"
    using works(2) assms(1) by (auto simp: reading_out_def)
  then show ?thesis
  proof cases
    case 1
    with works(3) assms(1) \<open>now \<le> now'\<close> have "do_read interval now' (s\<lparr>sc_queue := []\<rparr>) = Some s'"
        "settled (sc_jsn s)" "sc_cycle_start_ms s \<le> now'"
      by (simp_all add: reading_out_def)
    then have "sc_emitted s' = sc_emitted s @
        [(c_state (d_cell (sc_jsn s)) = VALID, c_distance_mm (d_cell (sc_jsn s)), GROUND_DIST_MM)]"
      and "sc_jsn s' = reset (power_off (sc_jsn s))" "sc_queue s' = []" "sc_sleep s' \<noteq> None"
        "sc_warmup s' = sc_warmup s" "sc_timeout s' = sc_timeout s"
      using do_read_eq [of "s\<lparr>sc_queue := []\<rparr>" now' interval] by auto
    then show ?thesis
      using assms(1) by (simp add: sleeping_def reading_out_def waits_def reset_def power_off_def settled_def Let_def)
  next
    case 2
    then show ?thesis
      using works assms(1)
      by (auto simp: reading_out_def on_timeout_elapsed_def driver_on_timeout_def driver_done_def settled_def)
  qed
qed (use assms(1) in \<open>auto simp: reading_out_def\<close>)

lemma cycle_ok_step: "cycle_ok c \<Longrightarrow> cycle_step f c c' \<Longrightarrow> cycle_ok c'"
  using sleeping_step warming_step measuring_step reading_step
  by (cases c; cases c') (fastforce simp: cycle_ok_def)

text \<open>Every phase can be left: its timer expires, its item runs.\<close>

lemma expire_then_run:
  assumes "cycle_step f (now, s) (n, s1)" and "\<exists>s2. cycle_step f (n, s1) (n, s2) \<and> Q n s2 \<and> sc_emitted s2 = sc_emitted s1"
    and "sc_emitted s1 = sc_emitted s"
  shows "\<exists>now' s'. (cycle_step f)\<^sup>*\<^sup>* (now, s) (now', s') \<and> Q now' s' \<and> sc_emitted s' = sc_emitted s"
proof -
  obtain s2 where "cycle_step f (n, s1) (n, s2)" "Q n s2" "sc_emitted s2 = sc_emitted s1"
    using assms(2) by blast
  with assms(1,3) show ?thesis
    by (metis converse_rtranclp_into_rtranclp r_into_rtranclp)
qed

lemma run_now:
  assumes "\<exists>s2. cycle_step f (n, s1) (n, s2) \<and> Q n s2 \<and> sc_emitted s2 = sc_emitted s1"
  shows "\<exists>now' s'. (cycle_step f)\<^sup>*\<^sup>* (n, s1) (now', s') \<and> Q now' s' \<and> sc_emitted s' = sc_emitted s1"
  using assms by blast

lemma sleeping_leaves:
  assumes "sleeping s"
  shows "\<exists>now' s'. (cycle_step f)\<^sup>*\<^sup>* (now, s) (now', s') \<and> warming now' s' \<and> sc_emitted s' = sc_emitted s"
proof -
  have run: "\<exists>s''. cycle_step f (n, s') (n, s'') \<and> warming n s'' \<and> sc_emitted s'' = sc_emitted s'"
    if "sleeping s'" "sc_queue s' = [Sleep_Work]" for n s'
    using cycle_step.works [of n n s' Sleep_Work "[]"] that
    by (fastforce simp: phase_defs on_sleep_elapsed_def power_on_def timer_one_shot_def Let_def)
  show ?thesis
  proof (cases "sc_sleep s")
    case (Some t)
    have "sc_queue s = []"
      using assms Some by (auto simp: phase_defs)
    then have step: "cycle_step f (now, s) (max now t, s\<lparr>sc_sleep := None, sc_queue := [Sleep_Work]\<rparr>)"
      using cycle_step.sleep_expires [of now "max now t" s t] Some by (simp add: work_submit_def)
    have phase: "sleeping (s\<lparr>sc_sleep := None, sc_queue := [Sleep_Work]\<rparr>)"
      using assms by (simp add: phase_defs)
    show ?thesis
      using expire_then_run [where Q = warming, OF step run [OF phase]] by simp
  qed (rule run_now, rule run, use assms in \<open>auto simp: phase_defs\<close>)
qed

lemma warming_leaves:
  assumes "warming now s"
  shows "\<exists>now' s'. (cycle_step f)\<^sup>*\<^sup>* (now, s) (now', s') \<and> measuring now' s' \<and> sc_emitted s' = sc_emitted s"
proof -
  have run: "\<exists>s''. cycle_step f (n, s') (n, s'') \<and> measuring n s'' \<and> sc_emitted s'' = sc_emitted s'"
    if "warming n s'" "sc_queue s' = [Warmup_Work]" for n s'
    using cycle_step.works [of n n s' Warmup_Work "[]"] that
    by (fastforce simp: phase_defs on_warmup_elapsed_def trigger_def in_flight_def timer_one_shot_def Let_def)
  show ?thesis
  proof (cases "sc_warmup s")
    case (Some t)
    have "sc_queue s = []"
      using assms Some by (auto simp: phase_defs)
    then have step: "cycle_step f (now, s) (max now t, s\<lparr>sc_warmup := None, sc_queue := [Warmup_Work]\<rparr>)"
      using cycle_step.warmup_expires [of now "max now t" s t] Some by (simp add: work_submit_def)
    have phase: "warming (max now t) (s\<lparr>sc_warmup := None, sc_queue := [Warmup_Work]\<rparr>)"
      using assms by (auto simp: phase_defs)
    show ?thesis
      using expire_then_run [where Q = measuring, OF step run [OF phase]] by simp
  qed (rule run_now, rule run, use assms in \<open>auto simp: phase_defs\<close>)
qed

lemma measuring_leaves:
  assumes "measuring now s"
  shows "\<exists>now' s'. (cycle_step f)\<^sup>*\<^sup>* (now, s) (now', s') \<and> reading_out now' s' \<and> sc_emitted s' = sc_emitted s"
proof -
  have run: "\<exists>s''. cycle_step f (n, s') (n, s'') \<and> reading_out n s'' \<and> sc_emitted s'' = sc_emitted s'"
    if "measuring n s'" "sc_queue s' = [Timeout_Work]" for n s'
    using cycle_step.works [of n n s' Timeout_Work "[]"] that measuring_timeout [of "sc_jsn s'"]
    by (fastforce simp: phase_defs on_timeout_elapsed_def driver_done_def work_submit_def timer_stop_def)
  show ?thesis
  proof (cases "sc_timeout s")
    case (Some t)
    have "sc_queue s = []"
      using assms Some by (auto simp: phase_defs)
    then have step: "cycle_step f (now, s) (max now t, s\<lparr>sc_timeout := None, sc_queue := [Timeout_Work]\<rparr>)"
      using cycle_step.timeout_expires [of now "max now t" s t] Some by (simp add: work_submit_def)
    have phase: "measuring (max now t) (s\<lparr>sc_timeout := None, sc_queue := [Timeout_Work]\<rparr>)"
      using assms by (auto simp: phase_defs)
    show ?thesis
      using expire_then_run [where Q = reading_out, OF step run [OF phase]] by simp
  qed (rule run_now, rule run, use assms in \<open>auto simp: phase_defs\<close>)
qed

lemma reading_leaves:
  assumes "reading_out now s"
  shows "\<exists>s'. (cycle_step f)\<^sup>*\<^sup>* (now, s) (now, s') \<and> length (sc_emitted s') = Suc (length (sc_emitted s))"
proof -
  have read: "\<exists>s''. cycle_step f (now, s') (now, s'') \<and> length (sc_emitted s'') = Suc (length (sc_emitted s'))"
    if "reading_out now s'" "sc_queue s' = [Read_Work]" for s'
    using cycle_step.works [of now now s' Read_Work "[]"] that do_read_eq [of "s'\<lparr>sc_queue := []\<rparr>" now]
    by (fastforce simp: reading_out_def)
  show ?thesis
  proof (cases "sc_queue s = [Read_Work]")
    case False
    then have q: "sc_queue s = [Timeout_Work, Read_Work]"
      using assms by (simp add: reading_out_def)
    define s1 where "s1 = s\<lparr>sc_queue := [Read_Work]\<rparr>"
    have "on_timeout_elapsed s1 = s1"
      using assms by (simp add: s1_def on_timeout_elapsed_def driver_on_timeout_def driver_done_def reading_out_def settled_def)
    then have step: "cycle_step f (now, s) (now, s1)"
      using cycle_step.works [of now now s Timeout_Work "[Read_Work]"] q by (simp add: s1_def)
    have "reading_out now s1" "sc_queue s1 = [Read_Work]"
      using assms by (simp_all add: s1_def reading_out_def)
    from read [OF this] step show ?thesis
      by (auto simp: s1_def intro: converse_rtranclp_into_rtranclp)
  qed (use read [OF assms] in blast)
qed

lemma cycle_completes:
  assumes "cycle_ok (now, s)"
  shows "\<exists>now' s'. (cycle_step f)\<^sup>*\<^sup>* (now, s) (now', s') \<and> length (sc_emitted s') = Suc (length (sc_emitted s))"
proof -
  let ?goal = "\<lambda>now s. \<exists>now' s'. (cycle_step f)\<^sup>*\<^sup>* (now, s) (now', s') \<and> length (sc_emitted s') = Suc (length (sc_emitted s))"
  have r: "?goal n t" if "reading_out n t" for n t
    using reading_leaves [OF that, of f] by blast
  have m: "?goal n t" if "measuring n t" for n t
    using measuring_leaves [OF that, of f] r by (metis rtranclp_trans)
  have w: "?goal n t" if "warming n t" for n t
    using warming_leaves [OF that, of f] m by (metis rtranclp_trans)
  have "?goal n t" if "sleeping t" for n t
    using sleeping_leaves [OF that, of f n] w by (metis rtranclp_trans)
  with r m w assms show ?thesis
    unfolding cycle_ok_def by auto
qed

lemma cycle_runs_ok:
  assumes "anchor \<le> now" and "(cycle_step f)\<^sup>*\<^sup>* (now, cycle_start interval anchor now new_cycle) c"
  shows "cycle_ok c"
  using assms(2) by induction (use cycle_ok_start [OF assms(1)] cycle_ok_step in blast)+

section \<open>Properties\<close>

text \<open>
  C26. The cycle keeps its order: at every moment after the start the node is in exactly one of
  the stages sleeping, warming up, measuring and reading out, whatever the order of timer
  expiries, queued work and echo edges. In particular the sensor is powered in all stages but the
  first, the echo interrupt is armed only while measuring, and a timeout that was already queued
  when the echo arrived is harmless.
\<close>

theorem cycle_keeps_its_phases:
  assumes "anchor \<le> now" and "(cycle_step f)\<^sup>*\<^sup>* (now, cycle_start interval anchor now new_cycle) (now', s)"
  shows "sleeping s \<and> \<not> d_pwr (sc_jsn s) \<or> warming now' s \<and> d_pwr (sc_jsn s) \<and> \<not> d_irq (sc_jsn s) \<or>
    measuring now' s \<and> d_pwr (sc_jsn s) \<or> reading_out now' s \<and> d_pwr (sc_jsn s) \<and> \<not> d_irq (sc_jsn s)"
  using cycle_runs_ok [OF assms] by (auto simp: cycle_ok_def phase_defs)

theorem cycle_keeps_its_phases_witness:
  "sleeping (cycle_start 30000 0 5 new_cycle) \<or> d_pwr (sc_jsn (cycle_start 30000 0 5 new_cycle))"
  using cycle_keeps_its_phases [of 0 5 id 30000 5 "cycle_start 30000 0 5 new_cycle"] by auto



text \<open>
  When the read-out of a cycle runs, it returns and hands on one reading, the one the driver
  published, marked ready exactly if the echo won against the timeout; it switches the sensor off
  and sets the next wake-up one interval after the last, or at once if that moment has passed.
\<close>

theorem reading_emitted_and_next_wake_up:
  assumes "anchor \<le> now" and "(cycle_step f)\<^sup>*\<^sup>* (now, cycle_start iv0 anchor now new_cycle) (now', s)"
    and "sc_queue s = Read_Work # q" and "now' \<le> now''"
  shows "\<exists>s' st mm. run_work interval now'' Read_Work (s\<lparr>sc_queue := q\<rparr>) = Some s' \<and>
    st \<in> {VALID, TIMEOUT} \<and> snapshot (sc_jsn s) = Some (st, mm) \<and>
    sc_emitted s' = sc_emitted s @ [(st = VALID, mm, GROUND_DIST_MM)] \<and> \<not> d_pwr (sc_jsn s') \<and>
    sc_sleep s' = Some (max (sc_cycle_start_ms s + int (unat interval)) now'')"
proof -
  have reading: "reading_out now' s"
    using cycle_runs_ok [OF assms(1,2)] assms(3) by (auto simp: cycle_ok_def phase_defs)
  then have "snapshot (sc_jsn s) = Some (c_state (d_cell (sc_jsn s)), c_distance_mm (d_cell (sc_jsn s)))"
    by (simp add: reading_out_def settled_def snapshot_def load_reading_quiet)
  moreover have "\<not> d_pwr (reset (power_off (sc_jsn s)))"
    by (simp add: reset_def power_off_def Let_def)
  ultimately show ?thesis
    using reading assms(4) do_read_eq [of "s\<lparr>sc_queue := q\<rparr>" now'' interval] by (simp add: reading_out_def)
qed

text \<open>The first cycle of a node whose sensor never answers, up to the read-out.\<close>

definition demo_cycle :: SensorCycle where
  "demo_cycle =
     on_timeout_elapsed (on_warmup_elapsed 30100 (on_sleep_elapsed 30000
       (cycle_start 30000 0 5 new_cycle\<lparr>sc_sleep := None, sc_queue := []\<rparr>)\<lparr>sc_warmup := None, sc_queue := []\<rparr>)\<lparr>sc_timeout := None, sc_queue := []\<rparr>)"

lemma expire_and_run:
  assumes "sc_queue s = []" and "now \<le> t"
  shows "sc_sleep s = Some t \<Longrightarrow> (cycle_step f)\<^sup>*\<^sup>* (now, s) (t, on_sleep_elapsed t (s\<lparr>sc_sleep := None, sc_queue := []\<rparr>))"
    and "sc_warmup s = Some t \<Longrightarrow> (cycle_step f)\<^sup>*\<^sup>* (now, s) (t, on_warmup_elapsed t (s\<lparr>sc_warmup := None, sc_queue := []\<rparr>))"
    and "sc_timeout s = Some t \<Longrightarrow> (cycle_step f)\<^sup>*\<^sup>* (now, s) (t, on_timeout_elapsed (s\<lparr>sc_timeout := None, sc_queue := []\<rparr>))"
proof -
  have run: "cycle_step f (t, s'\<lparr>sc_queue := [w]\<rparr>) (t, s'')" if "run_work 0 t w (s'\<lparr>sc_queue := []\<rparr>) = Some s''" for w s' s''
    using cycle_step.works [of t t "s'\<lparr>sc_queue := [w]\<rparr>" w "[]" 0 s'' f] that by simp
  show "(cycle_step f)\<^sup>*\<^sup>* (now, s) (t, on_sleep_elapsed t (s\<lparr>sc_sleep := None, sc_queue := []\<rparr>))" if "sc_sleep s = Some t"
    using cycle_step.sleep_expires [of now t s t f] that assms run [of Sleep_Work "s\<lparr>sc_sleep := None\<rparr>"]
    by (simp add: work_submit_def)
  show "(cycle_step f)\<^sup>*\<^sup>* (now, s) (t, on_warmup_elapsed t (s\<lparr>sc_warmup := None, sc_queue := []\<rparr>))" if "sc_warmup s = Some t"
    using cycle_step.warmup_expires [of now t s t f] that assms run [of Warmup_Work "s\<lparr>sc_warmup := None\<rparr>"]
    by (simp add: work_submit_def)
  show "(cycle_step f)\<^sup>*\<^sup>* (now, s) (t, on_timeout_elapsed (s\<lparr>sc_timeout := None, sc_queue := []\<rparr>))" if "sc_timeout s = Some t"
    using cycle_step.timeout_expires [of now t s t f] that assms run [of Timeout_Work "s\<lparr>sc_timeout := None\<rparr>"]
    by (simp add: work_submit_def)
qed

lemma demo_cycle_run: "(cycle_step id)\<^sup>*\<^sup>* (5, cycle_start 30000 0 5 new_cycle) (31100, demo_cycle)"
proof -
  define s0 where "s0 = cycle_start 30000 0 5 new_cycle"
  define s1 where "s1 = on_sleep_elapsed 30000 (s0\<lparr>sc_sleep := None, sc_queue := []\<rparr>)"
  define s2 where "s2 = on_warmup_elapsed 30100 (s1\<lparr>sc_warmup := None, sc_queue := []\<rparr>)"
  have f: "sc_sleep s0 = Some 30000" "sc_queue s0 = []" "sc_warmup s1 = Some 30100" "sc_queue s1 = []"
      "sc_timeout s2 = Some 31100" "sc_queue s2 = []"
    by (simp_all add: s0_def s1_def s2_def cycle_start_def schedule_sleep_from_eq new_cycle_def on_sleep_elapsed_def
        on_warmup_elapsed_def timer_one_shot_def Let_def config_defs)
  have "(cycle_step id)\<^sup>*\<^sup>* (5, s0) (30000, s1)"
    using expire_and_run(1) [of s0 5 30000] f by (simp add: s1_def)
  also have "(cycle_step id)\<^sup>*\<^sup>* (30000, s1) (30100, s2)"
    using expire_and_run(2) [of s1 30000 30100] f by (simp add: s2_def)
  also have "(cycle_step id)\<^sup>*\<^sup>* (30100, s2) (31100, demo_cycle)"
    using expire_and_run(3) [of s2 30100 31100] f by (simp add: demo_cycle_def s0_def s1_def s2_def)
  finally show ?thesis
    by (simp add: s0_def)
qed

theorem reading_emitted_and_next_wake_up_witness:
  "\<exists>s'. run_work 30000 31105 Read_Work (demo_cycle\<lparr>sc_queue := []\<rparr>) = Some s' \<and> sc_emitted s' = [(False, 0, 2000)] \<and>
    sc_sleep s' = Some 60000"
proof -
  have f: "sc_queue demo_cycle = [Read_Work]" "sc_emitted demo_cycle = []" "sc_cycle_start_ms demo_cycle = 30000"
      "snapshot (sc_jsn demo_cycle) = Some (TIMEOUT, 0)"
    by (simp_all add: demo_cycle_def cycle_start_def schedule_sleep_from_def new_cycle_def on_sleep_elapsed_def
        on_warmup_elapsed_def on_timeout_elapsed_def driver_on_timeout_def trigger_def driver_done_def work_submit_def
        new_driver_def new_cell_def power_on_def power_off_def snapshot_def load_reading_quiet quiet_def publish_def Let_def)
  show ?thesis
    using reading_emitted_and_next_wake_up [OF _ demo_cycle_run f(1), of 31105 30000] f
    by (auto simp: GROUND_DIST_MM_def)
qed

section \<open>Limits\<close>

text \<open>
  Rescheduling does not take back queued work: a timeout that had expired but not yet run is taken
  for the timeout of a new measurement, and the node reports a failed reading while it sleeps.
\<close>

theorem reschedule_leaves_stale_timeout:
  assumes "measuring now s" and "sc_queue s = [Timeout_Work]" and "now \<le> now'"
  shows "\<exists>s'. (cycle_step f)\<^sup>*\<^sup>* (now', reschedule interval now' now' s) (now', s') \<and>
    sc_emitted s' = sc_emitted s @ [(False, 0, GROUND_DIST_MM)]"
proof -
  define s1 where "s1 = reschedule interval now' now' s"
  define s2 where "s2 = on_timeout_elapsed (s1\<lparr>sc_queue := []\<rparr>)"
  have q: "sc_queue s1 = [Timeout_Work]"
    using assms(2) by (simp add: s1_def reschedule_def cycle_abort_def schedule_sleep_from_def Let_def)
  then have step1: "cycle_step f (now', s1) (now', s2)"
    using cycle_step.works [of now' now' s1 Timeout_Work "[]"] by (simp add: s2_def)
  have s2: "sc_queue s2 = [Read_Work]" "settled (sc_jsn s2)" "c_state (d_cell (sc_jsn s2)) = TIMEOUT"
      "c_distance_mm (d_cell (sc_jsn s2)) = 0" "sc_emitted s2 = sc_emitted s" "sc_cycle_start_ms s2 \<le> now'"
    using assms by (simp_all add: s2_def s1_def reschedule_def cycle_abort_def schedule_sleep_from_def
        on_timeout_elapsed_def driver_on_timeout_def reset_def power_off_def driver_done_def work_submit_def Let_def
        measuring_def in_flight_def settled_def)
  then obtain s3 where "cycle_step f (now', s2) (now', s3)" "sc_emitted s3 = sc_emitted s @ [(False, 0, GROUND_DIST_MM)]"
    using cycle_step.works [of now' now' s2 Read_Work "[]"] do_read_eq [of "s2\<lparr>sc_queue := []\<rparr>" now'] by fastforce
  with step1 show ?thesis
    unfolding s1_def [symmetric] by (metis converse_rtranclp_into_rtranclp r_into_rtranclp)
qed

end
