(* ===== verification/Replay_Detection.thy ===== *)
theory Replay_Detection
  imports Sensor_Reading Slot_Table
begin

text \<open>
  The fog node's intake of sensor readings: the replay table of
  \<^verbatim>\<open>fog/src/security/sensor_replay_detection.hpp\<close> and the CoAP endpoint of
  \<^verbatim>\<open>fog/src/sensor/service.hpp\<close> that verifies, stamps, filters and delivers a reading.
  The signature check belongs to the key store and the network clock to OpenThread; both are
  arguments here.
\<close>

section \<open>The replay table\<close>

definition REPLAY_MAX_SENSORS :: nat where [config_defs]: "REPLAY_MAX_SENSORS = 8"

record SensorReplayEntry =
  re_eui :: Eui
  re_last_sequence :: u32
  re_is_active :: bool

type_synonym ReplayTable = "SensorReplayEntry list"

definition zero_replay_entry :: SensorReplayEntry where
  "zero_replay_entry = \<lparr>re_eui = 0, re_last_sequence = 0, re_is_active = False\<rparr>"

definition new_replay_table :: ReplayTable where
  "new_replay_table = replicate REPLAY_MAX_SENSORS zero_replay_entry"

text \<open>
  The first loop compares identifiers only, so an element that was never used answers to
  identifier 0; the second loop takes the first inactive element and enters the identifier.
\<close>

definition find_or_create :: "Eui \<Rightarrow> ReplayTable \<Rightarrow> (nat \<times> ReplayTable) option" where
  "find_or_create eui t =
     (case find_index (\<lambda>e. re_eui e = eui) t of
        Some i \<Rightarrow> Some (i, t)
      | None \<Rightarrow>
          (case find_index (\<lambda>e. \<not> re_is_active e) t of
             Some i \<Rightarrow> Some (i, t[i := (t ! i)\<lparr>re_eui := eui\<rparr>])
           | None \<Rightarrow> None))"

definition is_fresh :: "SensorReadingWire \<Rightarrow> ReplayTable \<Rightarrow> bool \<times> ReplayTable" where
  "is_fresh reading t =
     (case find_or_create (w_eui reading) t of
        None \<Rightarrow> (False, t)
      | Some (i, t) \<Rightarrow>
          (let entry = t ! i in
           if \<not> re_is_active entry
           then (True, t[i := entry\<lparr>re_is_active := True, re_last_sequence := w_seq reading\<rparr>])
           else if re_last_sequence entry < w_seq reading
           then (True, t[i := entry\<lparr>re_last_sequence := w_seq reading\<rparr>])
           else (False, t)))"

section \<open>The endpoint\<close>

text \<open>
  \<open>verify\<close> is the key store's check of the signed reading, \<open>network_time\<close> the clock OpenThread reports
  (its status is only logged). The result is the reading handed to the callback, if any.
\<close>

record SensorService =
  ss_replay_detect :: ReplayTable

definition new_sensor_service :: SensorService where
  "new_sensor_service = \<lparr>ss_replay_detect = new_replay_table\<rparr>"

definition on_reading ::
    "(Eui \<Rightarrow> SensorReadingWire \<Rightarrow> u8 list \<Rightarrow> bool) \<Rightarrow> u64 \<Rightarrow> SensorReadingSigned \<Rightarrow> SensorService \<Rightarrow>
     SensorReadingWire option \<times> SensorService" where
  "on_reading verify network_time msg s =
     (let reading = sg_reading msg in
      if \<not> verify (w_eui reading) reading (sg_signature msg) then (None, s)
      else let reading = reading\<lparr>w_timestamp := network_time\<rparr>;
               (fresh, t) = is_fresh reading (ss_replay_detect s);
               s = s\<lparr>ss_replay_detect := t\<rparr>
           in (if fresh then Some reading else None, s))"

text \<open>
  \<open>sensor_request_handler\<close>: \<open>coap_get_data\<close> copies the payload if it fits the buffer and reports the
  length; a payload of any other size than the signed structure is dropped. \<open>decode\<close> is the layout
  of the structure, \<open>wire_size\<close> its size.
\<close>

definition sensor_request_handler ::
    "(Eui \<Rightarrow> SensorReadingWire \<Rightarrow> u8 list \<Rightarrow> bool) \<Rightarrow> (u8 list \<Rightarrow> SensorReadingSigned) \<Rightarrow> nat \<Rightarrow> u64 \<Rightarrow> u8 list \<Rightarrow>
     SensorService \<Rightarrow> SensorReadingWire option \<times> SensorService" where
  "sensor_request_handler verify decode wire_size network_time bytes s =
     (if length bytes \<noteq> wire_size then (None, s) else on_reading verify network_time (decode bytes) s)"

section \<open>What the table remembers\<close>

text \<open>
  The specification: a finite map from sensors to the last sequence number accepted from them,
  with room for \<open>REPLAY_MAX_SENSORS\<close> sensors.
\<close>

type_synonym seen = "Eui \<rightharpoonup> u32"

definition seen_fresh :: "SensorReadingWire \<Rightarrow> seen \<Rightarrow> bool \<times> seen" where
  "seen_fresh reading m =
     (case m (w_eui reading) of
        Some prev \<Rightarrow> if prev < w_seq reading then (True, m(w_eui reading \<mapsto> w_seq reading)) else (False, m)
      | None \<Rightarrow>
          if card (dom m) < REPLAY_MAX_SENSORS then (True, m(w_eui reading \<mapsto> w_seq reading)) else (False, m))"

definition seen_of :: "ReplayTable \<Rightarrow> seen" where
  "seen_of t eui = map_option (\<lambda>i. re_last_sequence (t ! i)) (table_find re_is_active re_eui eui t)"

definition replay_ok :: "ReplayTable \<Rightarrow> bool" where
  "replay_ok t \<longleftrightarrow> table_ok re_is_active re_eui REPLAY_MAX_SENSORS t \<and>
     (\<forall>e \<in> set t. \<not> re_is_active e \<longrightarrow> e = zero_replay_entry) \<and>
     (\<forall>i j. i < j \<longrightarrow> j < length t \<longrightarrow> re_is_active (t ! j) \<longrightarrow> re_is_active (t ! i))"

definition active_entry :: "Eui \<Rightarrow> SensorReplayEntry" where
  "active_entry eui = zero_replay_entry\<lparr>re_eui := eui, re_is_active := True\<rparr>"

interpretation replay: front_table re_is_active re_eui active_entry REPLAY_MAX_SENSORS
  by unfold_locales (simp_all add: active_entry_def zero_replay_entry_def)


lemma seen_of_Some_iff:
  assumes "replay_ok t"
  shows "seen_of t k = Some n \<longleftrightarrow>
    (\<exists>i < REPLAY_MAX_SENSORS. re_is_active (t ! i) \<and> re_eui (t ! i) = k \<and> re_last_sequence (t ! i) = n)"
  using assms replay.find_Some_iff [of t k] by (auto simp: seen_of_def replay_ok_def)

lemma find_or_create_eq:
  assumes ok: "replay_ok t"
  shows "find_or_create eui t =
    (case table_find re_is_active re_eui eui t of
       Some i \<Rightarrow> Some (i, t)
     | None \<Rightarrow> map_option (\<lambda>i. (i, t[i := zero_replay_entry\<lparr>re_eui := eui\<rparr>])) (find_index (\<lambda>e. \<not> re_is_active e) t))"
proof -
  have len: "length t = REPLAY_MAX_SENSORS"
    and idle: "\<And>i. i < length t \<Longrightarrow> \<not> re_is_active (t ! i) \<Longrightarrow> t ! i = zero_replay_entry"
    and prefix: "\<And>i j. i < j \<Longrightarrow> j < length t \<Longrightarrow> re_is_active (t ! j) \<Longrightarrow> re_is_active (t ! i)"
    using ok by (auto simp: replay_ok_def table_ok_def)
  show ?thesis
  proof (cases "table_find re_is_active re_eui eui t")
    case (Some i)
    then have i: "i < length t" "re_is_active (t ! i)" "re_eui (t ! i) = eui"
      and first: "\<And>j. j < i \<Longrightarrow> re_eui (t ! j) \<noteq> eui"
      using prefix by (auto simp: table_find_def find_index_Some_iff)
    then have "find_index (\<lambda>e. re_eui e = eui) t = Some i"
      by (simp add: find_index_Some_iff)
    with Some show ?thesis
      by (simp add: find_or_create_def)
  next
    case None
    then have absent: "\<And>i. i < length t \<Longrightarrow> re_is_active (t ! i) \<Longrightarrow> re_eui (t ! i) \<noteq> eui"
      by (auto simp: table_find_def find_index_None_iff)
    show ?thesis
    proof (cases "find_index (\<lambda>e. re_eui e = eui) t")
      case found: (Some i)
      then have i: "i < length t" "re_eui (t ! i) = eui" "\<And>j. j < i \<Longrightarrow> re_eui (t ! j) \<noteq> eui"
        by (auto simp: find_index_Some_iff)
      with absent have inact: "\<not> re_is_active (t ! i)"
        by blast
      then have zero: "eui = 0"
        using idle [OF i(1)] i(2) by (simp add: zero_replay_entry_def)
      have "re_is_active (t ! j)" if "j < i" for j
        using i(1) i(3) [OF that] that idle [of j] zero
        by (cases "re_is_active (t ! j)") (simp_all add: zero_replay_entry_def)
      with i inact have "find_index (\<lambda>e. \<not> re_is_active e) t = Some i"
        by (simp add: find_index_Some_iff)
      moreover have "t[i := zero_replay_entry\<lparr>re_eui := eui\<rparr>] = t"
        using idle [OF i(1) inact] zero by (simp add: zero_replay_entry_def list_update_same_conv [OF i(1)])
      ultimately show ?thesis
        using found None by (simp add: find_or_create_def)
    next
      case absent: None
      have "(t ! i)\<lparr>re_eui := eui\<rparr> = zero_replay_entry\<lparr>re_eui := eui\<rparr>"
        if "find_index (\<lambda>e. \<not> re_is_active e) t = Some i" for i
        using find_index_SomeD [OF that] idle [of i] by simp
      with absent None show ?thesis
        by (auto simp: find_or_create_def split: option.split)
    qed
  qed
qed

text \<open>Entering or renewing an active element.\<close>

lemma replay_enter:
  assumes ok: "replay_ok t" and i: "i < REPLAY_MAX_SENSORS" and e: "re_is_active e"
    and at: "re_is_active (t ! i) \<and> re_eui (t ! i) = re_eui e \<or>
      \<not> re_is_active (t ! i) \<and> table_find re_is_active re_eui (re_eui e) t = None \<and> (\<forall>j < i. re_is_active (t ! j))"
  shows "replay_ok (t[i := e])" and "seen_of (t[i := e]) = (seen_of t)(re_eui e \<mapsto> re_last_sequence e)"
proof -
  have len: "length t = REPLAY_MAX_SENSORS" and tab: "table_ok re_is_active re_eui REPLAY_MAX_SENSORS t"
    and idle: "\<And>i. i < length t \<Longrightarrow> \<not> re_is_active (t ! i) \<Longrightarrow> t ! i = zero_replay_entry"
    and prefix: "\<And>i j. i < j \<Longrightarrow> j < length t \<Longrightarrow> re_is_active (t ! j) \<Longrightarrow> re_is_active (t ! i)"
    using ok by (auto simp: replay_ok_def table_ok_def)
  note enter = table_enter [OF tab i e] at
  moreover have "x = zero_replay_entry" if "x \<in> set (t[i := e])" "\<not> re_is_active x" for x
    using that idle e i len by (auto simp: set_nth_update_iff)
  moreover have "re_is_active (t[i := e] ! k)" if "k < j" "j < length t" "re_is_active (t[i := e] ! j)" for k j
    using that at prefix [of k j] prefix [of k i] e i len by (auto simp: nth_list_update split: if_splits)
  ultimately show "replay_ok (t[i := e])"
    by (auto simp: replay_ok_def)
  have other: "t[i := e] ! j = t ! j" if "table_find re_is_active re_eui k t = Some j" "k \<noteq> re_eui e" for j k
    using that at i by (cases "j = i") (auto simp: table_find_Some_iff [OF tab])
  have "table_find re_is_active re_eui k (t[i := e]) = ((\<lambda>k. table_find re_is_active re_eui k t)(re_eui e \<mapsto> i)) k" for k
    using enter by metis
  then show "seen_of (t[i := e]) = (seen_of t)(re_eui e \<mapsto> re_last_sequence e)"
    using other i len by (auto simp: seen_of_def fun_eq_iff intro!: option.map_cong0)
qed

lemma card_seen:
  assumes ok: "replay_ok t"
  shows "card (dom (seen_of t)) < REPLAY_MAX_SENSORS \<longleftrightarrow> find_index (\<lambda>e. \<not> re_is_active e) t \<noteq> None"
proof -
  have len: "length t = REPLAY_MAX_SENSORS" and d: "distinct (map re_eui (filter re_is_active t))"
    using ok by (simp_all add: replay_ok_def table_ok_def)
  have "dom (seen_of t) = set (map re_eui (filter re_is_active t))"
    using len by (auto simp: dom_def seen_of_Some_iff [OF ok] in_set_conv_nth)
  then have "card (dom (seen_of t)) = length (filter re_is_active t)"
    using distinct_card [OF d] by simp
  then show ?thesis
    using len length_filter_less [of _ t re_is_active]
    by (cases "\<forall>e \<in> set t. re_is_active e") (auto simp: find_index_None_iff)
qed

lemma is_fresh_refines:
  assumes ok: "replay_ok t"
  shows "replay_ok (snd (is_fresh r t))"
    and "seen_fresh r (seen_of t) = (fst (is_fresh r t), seen_of (snd (is_fresh r t)))"
proof -
  have len: "length t = REPLAY_MAX_SENSORS"
    using ok by (simp add: replay_ok_def table_ok_def)
  have "replay_ok (snd (is_fresh r t)) \<and>
    seen_fresh r (seen_of t) = (fst (is_fresh r t), seen_of (snd (is_fresh r t)))"
  proof (cases "table_find re_is_active re_eui (w_eui r) t")
    case (Some i)
    then have i: "i < REPLAY_MAX_SENSORS" "re_is_active (t ! i)" "re_eui (t ! i) = w_eui r"
      using replay.find_Some_iff ok by (auto simp: replay_ok_def)
    then show ?thesis
      using Some ok replay_enter [OF ok i(1), of "(t ! i)\<lparr>re_last_sequence := w_seq r\<rparr>"]
      by (auto simp: is_fresh_def find_or_create_eq seen_fresh_def seen_of_def [of t "w_eui r"] Let_def)
  next
    case None
    then have none: "seen_of t (w_eui r) = None"
      by (simp add: seen_of_def)
    show ?thesis
    proof (cases "find_index (\<lambda>e. \<not> re_is_active e) t")
      case (Some i)
      then have i: "i < REPLAY_MAX_SENSORS" "\<not> re_is_active (t ! i)" "\<forall>j < i. re_is_active (t ! j)"
        using len by (auto simp: find_index_Some_iff)
      define e where "e = zero_replay_entry\<lparr>re_eui := w_eui r, re_is_active := True, re_last_sequence := w_seq r\<rparr>"
      have "is_fresh r t = (True, t[i := e])"
        using None Some i(1) len
        by (simp add: is_fresh_def find_or_create_eq [OF ok] Let_def e_def zero_replay_entry_def)
      moreover have "replay_ok (t[i := e])" "seen_of (t[i := e]) = (seen_of t)(w_eui r \<mapsto> w_seq r)"
        using replay_enter [OF ok i(1), of e] None i by (simp_all add: e_def)
      ultimately show ?thesis
        using none Some card_seen [OF ok] by (simp add: seen_fresh_def)
    next
      case full: None
      then show ?thesis
        using none None ok card_seen [OF ok] by (simp add: seen_fresh_def is_fresh_def find_or_create_eq)
    qed
  qed
  then show "replay_ok (snd (is_fresh r t))"
    and "seen_fresh r (seen_of t) = (fst (is_fresh r t), seen_of (snd (is_fresh r t)))"
    by simp_all
qed

lemma new_replay_table_ok: "replay_ok new_replay_table" "seen_of new_replay_table = Map.empty"
proof -
  show ok: "replay_ok new_replay_table"
    by (auto simp: replay_ok_def table_ok_def new_replay_table_def zero_replay_entry_def)
  show "seen_of new_replay_table = Map.empty"
    by (rule ext) (simp add: seen_of_def table_find_def new_replay_table_def zero_replay_entry_def
        find_index_None_iff [THEN iffD2])
qed

section \<open>Sequences of readings\<close>

text \<open>Messages in the order they arrive, each with the network time at its arrival.\<close>

fun run_readings ::
    "(Eui \<Rightarrow> SensorReadingWire \<Rightarrow> u8 list \<Rightarrow> bool) \<Rightarrow> (u64 \<times> SensorReadingSigned) list \<Rightarrow> SensorService \<Rightarrow>
     SensorReadingWire list \<times> SensorService" where
  "run_readings verify [] s = ([], s)"
| "run_readings verify ((now, msg) # msgs) s =
     (let (r, s) = on_reading verify now msg s; (rs, s) = run_readings verify msgs s
      in (case r of None \<Rightarrow> rs | Some r \<Rightarrow> r # rs, s))"

fun fresh_run :: "SensorReadingWire list \<Rightarrow> ReplayTable \<Rightarrow> bool list" where
  "fresh_run [] t = []"
| "fresh_run (r # rs) t = (let (b, t) = is_fresh r t in b # fresh_run rs t)"

fun seen_run :: "SensorReadingWire list \<Rightarrow> seen \<Rightarrow> bool list" where
  "seen_run [] m = []"
| "seen_run (r # rs) m = (let (b, m) = seen_fresh r m in b # seen_run rs m)"

lemma fresh_run_refines: "replay_ok t \<Longrightarrow> fresh_run rs t = seen_run rs (seen_of t)"
  by (induction rs arbitrary: t) (simp_all add: is_fresh_refines split_beta Let_def)

lemma on_reading_delivers:
  assumes "replay_ok (ss_replay_detect s)" and "on_reading verify now msg s = (r, s')"
  shows "replay_ok (ss_replay_detect s')"
    and "r = None \<Longrightarrow> seen_of (ss_replay_detect s') = seen_of (ss_replay_detect s)"
    and "r = Some x \<Longrightarrow> x = (sg_reading msg)\<lparr>w_timestamp := now\<rparr> \<and>
      verify (w_eui x) (sg_reading msg) (sg_signature msg) \<and>
      seen_of (ss_replay_detect s') = (seen_of (ss_replay_detect s))(w_eui x \<mapsto> w_seq x) \<and>
      (\<forall>q. seen_of (ss_replay_detect s) (w_eui x) = Some q \<longrightarrow> q < w_seq x)"
  using assms(2) is_fresh_refines [OF assms(1), of "(sg_reading msg)\<lparr>w_timestamp := now\<rparr>"] assms(1)
  by (auto simp: on_reading_def Let_def split_beta seen_fresh_def split: if_splits option.splits)

text \<open>What a sensor delivers lies above what the table remembers of it, in increasing order.\<close>

lemma run_readings_increasing:
  assumes "replay_ok (ss_replay_detect s)"
  shows "sorted_wrt (<) (map w_seq (filter (\<lambda>r. w_eui r = eui) (fst (run_readings verify msgs s)))) \<and>
    (\<forall>q. seen_of (ss_replay_detect s) eui = Some q \<longrightarrow>
      (\<forall>r \<in> set (fst (run_readings verify msgs s)). w_eui r = eui \<longrightarrow> q < w_seq r))"
  using assms
proof (induction msgs arbitrary: s eui)
  case (Cons m msgs)
  obtain now msg where m: "m = (now, msg)"
    by (cases m)
  obtain r s' where r: "on_reading verify now msg s = (r, s')"
    by (cases "on_reading verify now msg s")
  note d = on_reading_delivers [OF Cons.prems r]
  note IH = Cons.IH [OF d(1), of eui]
  show ?case
  proof (cases r)
    case None
    then show ?thesis
      using IH d(2) r m by (simp add: split_beta)
  next
    case (Some x)
    then have run: "fst (run_readings verify (m # msgs) s) = x # fst (run_readings verify msgs s')"
      using r m by (simp add: split_beta)
    have above: "w_seq x < w_seq y" if "y \<in> set (fst (run_readings verify msgs s'))" "w_eui y = w_eui x" for y
      using Cons.IH [OF d(1), of "w_eui x"] d(3) [OF Some] that by simp
    show ?thesis
    proof (cases "w_eui x = eui")
      case True
      with IH d(3) [OF Some] above show ?thesis
        unfolding run by (fastforce dest: order.strict_trans)
    next
      case False
      with IH d(3) [OF Some] show ?thesis
        unfolding run by simp
    qed
  qed
qed simp

lemma run_readings_authentic:
  assumes "r \<in> set (fst (run_readings verify msgs s))"
  shows "\<exists>(now, msg) \<in> set msgs. r = (sg_reading msg)\<lparr>w_timestamp := now\<rparr> \<and>
    verify (w_eui r) (sg_reading msg) (sg_signature msg)"
  using assms
  by (induction msgs arbitrary: s)
    (force simp: on_reading_def Let_def split_beta split: if_splits option.splits)+

section \<open>Properties\<close>

text \<open>
  C14. Replay protection: whatever messages arrive, in whatever order and however often, the
  readings of one sensor that reach the callback carry strictly increasing sequence numbers, so
  no reading is delivered twice.
\<close>

theorem no_reading_delivered_twice:
  "sorted_wrt (<) (map w_seq (filter (\<lambda>r. w_eui r = eui) (fst (run_readings verify msgs new_sensor_service))))"
  using run_readings_increasing [of new_sensor_service] new_replay_table_ok
  by (simp add: new_sensor_service_def)

text \<open>
  C32. The table of eight elements, with its scan that also matches unused elements, decides every
  sequence of readings as the plain map from sensors to last sequence numbers does: a known
  sensor passes when its number grows, a new one while fewer than eight are known.
\<close>

theorem replay_table_is_a_bounded_map: "fresh_run rs new_replay_table = seen_run rs Map.empty"
  using fresh_run_refines [OF new_replay_table_ok(1)] new_replay_table_ok(2) by simp

text \<open>
  Every reading that reaches the callback is a received one whose signature the key store
  accepted for the sensor it names, unchanged but for the fog node's own time stamp.
\<close>

theorem delivered_readings_authentic:
  "set (fst (run_readings verify msgs s)) \<subseteq>
     {(sg_reading msg)\<lparr>w_timestamp := now\<rparr> | now msg. (now, msg) \<in> set msgs \<and>
        verify (w_eui (sg_reading msg)) (sg_reading msg) (sg_signature msg)}"
  using run_readings_authentic [of _ verify msgs s] by fastforce

end
