(* ===== verification/Edge_Node.thy ===== *)
theory Edge_Node
  imports Alert_Packets Sensor_Cycle Replay_Detection
begin

text \<open>
  The edge node above its sensor: the persisted sequence number of
  \<^verbatim>\<open>edge/src/fs/sequence_persist.hpp\<close>, the signed CoAP sender of
  \<^verbatim>\<open>edge/src/sensor/sensor_coap.hpp\<close>, the wiring of \<^verbatim>\<open>edge/src/edge.hpp\<close>, and the way
  of its readings into a fog node. The build is the one without fault injection.
\<close>

section \<open>The persisted sequence number\<close>

text \<open>The one item of the non-volatile storage the node uses; \<open>None\<close> before the first write.\<close>

type_synonym seq_nvs = "u32 option"

definition seq_load :: "seq_nvs \<Rightarrow> u32" where
  "seq_load nvs = (case nvs of None \<Rightarrow> 0 | Some v \<Rightarrow> v)"

definition seq_save :: "u32 \<Rightarrow> seq_nvs \<Rightarrow> seq_nvs" where
  "seq_save v nvs = Some v"

section \<open>The sender\<close>

definition SEQ_STEP :: u32 where [config_defs]: "SEQ_STEP = 1000"

record CoapService =
  cs_eui :: Eui
  cs_seq_id :: u32
  cs_nvs :: seq_nvs
  cs_devices :: TrustedDeviceStore

definition new_coap_service :: "Eui \<Rightarrow> seq_nvs \<Rightarrow> CoapService" where
  "new_coap_service eui nvs = \<lparr>cs_eui = eui, cs_seq_id = 0, cs_nvs = nvs, cs_devices = new_store\<rparr>"

definition coap_service_init :: "'k Psa \<Rightarrow> 'k \<Rightarrow> CoapService \<Rightarrow> 'k \<times> CoapService" where
  "coap_service_init psa ks s =
     (let (err, ks, store) = store_init psa (cs_eui s) ks (cs_devices s);
          s = s\<lparr>cs_devices := store\<rparr>;
          s = s\<lparr>cs_seq_id := seq_load (cs_nvs s)\<rparr>;
          s = s\<lparr>cs_nvs := seq_save (cs_seq_id s + SEQ_STEP) (cs_nvs s)\<rparr>
      in (ks, s))"

text \<open>The message handed to CoAP, or the error \<open>-1\<close>; \<open>layout\<close> is the memory image of a reading.\<close>

definition send_sensor_data ::
    "'k Psa \<Rightarrow> (SensorReadingWire \<Rightarrow> bytes) \<Rightarrow> SensorReading \<Rightarrow> 'k \<Rightarrow> CoapService \<Rightarrow> (int + SensorReadingSigned) \<times> CoapService" where
  "send_sensor_data psa layout reading ks s =
     (let to_wire = \<lparr>w_eui = cs_eui s, w_timestamp = 0, w_water_level_mm = sr_water_level reading,
                     w_validity = sr_validity reading, w_detail = sr_detail reading, w_seq = cs_seq_id s\<rparr> in
      case sign psa ks (cs_devices s) (layout to_wire) of
        Inl _ \<Rightarrow> (Inl (- 1), s)
      | Inr sig \<Rightarrow>
          let signed_reading = \<lparr>sg_reading = to_wire, sg_signature = sig\<rparr>;
              s = s\<lparr>cs_seq_id := cs_seq_id s + 1\<rparr>;
              s = (if cs_seq_id s mod SEQ_STEP = 0 then s\<lparr>cs_nvs := seq_save (cs_seq_id s) (cs_nvs s)\<rparr> else s)
          in (Inr signed_reading, s))"

section \<open>The application\<close>

definition sleep_interval_ms :: "AlertPacket \<Rightarrow> u32" where
  "sleep_interval_ms alert = (if ap_alert_active alert then ucast (ap_alert_interval_ms alert) else ucast DEFAULT_TIMEOUT_MS)"

definition send_sensor_reading ::
    "'k Psa \<Rightarrow> (SensorReadingWire \<Rightarrow> bytes) \<Rightarrow> bool \<Rightarrow> u16 \<Rightarrow> u16 \<Rightarrow> 'k \<Rightarrow> CoapService \<Rightarrow> (int + SensorReadingSigned) \<times> CoapService" where
  "send_sensor_reading psa layout valid raw_mm ground_dist ks s =
     send_sensor_data psa layout (calculate_reading valid raw_mm ground_dist) ks s"

text \<open>
  The life of a device between two boots: its volatile key storage starts as \<open>ks0\<close>, the
  sequence number comes from the non-volatile storage. The result is what it sends.
\<close>

fun send_all :: "'k Psa \<Rightarrow> (SensorReadingWire \<Rightarrow> bytes) \<Rightarrow> SensorReading list \<Rightarrow> 'k \<Rightarrow> CoapService \<Rightarrow> SensorReadingSigned list \<times> CoapService" where
  "send_all psa layout [] ks s = ([], s)"
| "send_all psa layout (r # rs) ks s =
     (let (res, s) = send_sensor_data psa layout r ks s; (ms, s) = send_all psa layout rs ks s
      in (case res of Inl _ \<Rightarrow> ms | Inr m \<Rightarrow> m # ms, s))"

definition device_life :: "'k Psa \<Rightarrow> (SensorReadingWire \<Rightarrow> bytes) \<Rightarrow> Eui \<Rightarrow> 'k \<Rightarrow> SensorReading list \<Rightarrow> seq_nvs \<Rightarrow> SensorReadingSigned list \<times> seq_nvs" where
  "device_life psa layout eui ks0 rs nvs =
     (let (ks, s) = coap_service_init psa ks0 (new_coap_service eui nvs); (ms, s) = send_all psa layout rs ks s in (ms, cs_nvs s))"

fun device_lives :: "'k Psa \<Rightarrow> (SensorReadingWire \<Rightarrow> bytes) \<Rightarrow> Eui \<Rightarrow> 'k \<Rightarrow> SensorReading list list \<Rightarrow> seq_nvs \<Rightarrow> SensorReadingSigned list" where
  "device_lives psa layout eui ks0 [] nvs = []"
| "device_lives psa layout eui ks0 (rs # rss) nvs =
     (let (ms, nvs) = device_life psa layout eui ks0 rs nvs in ms @ device_lives psa layout eui ks0 rss nvs)"

abbreviation sent_seq :: "SensorReadingSigned \<Rightarrow> u32" where
  "sent_seq m \<equiv> w_seq (sg_reading m)"

section \<open>Sequence numbers over the lives of a device\<close>

lemma seq_step_iff: "n < 2 ^ 32 \<Longrightarrow> (of_nat n :: u32) mod SEQ_STEP = 0 \<longleftrightarrow> n mod 1000 = 0"
  using unat_of_nat_small [of n, where ?'a = 32]
  by (simp add: SEQ_STEP_def word_unat_eq_iff unat_mod)

text \<open>
  A device that booted with the multiple \<open>b\<close> of the step and has sent \<open>j\<close> readings: the stored number
  stays \<open>b + 1000\<close> until the second step is reached.
\<close>

lemma send_all_seqs:
  assumes "send_all psa layout rs ks s = (ms, s')"
    and "cs_seq_id s = of_nat (b + j)" and "cs_nvs s = Some (of_nat (b + 1000))"
    and "b mod 1000 = 0" and "j + length rs < 2000" and "b + 2000 < 2 ^ 32"
  shows "map sent_seq ms = map of_nat [b + j..<b + j + length ms] \<and> cs_nvs s' = Some (of_nat (b + 1000)) \<and>
    length ms \<le> length rs \<and> (\<forall>m \<in> set ms. w_eui (sg_reading m) = cs_eui s)"
  using assms
proof (induction rs arbitrary: s j ms)
  case (Cons r rs)
  obtain res s1 where send: "send_sensor_data psa layout r ks s = (res, s1)"
    by (cases "send_sensor_data psa layout r ks s")
  obtain ms1 where rest: "send_all psa layout rs ks s1 = (ms1, s')" and ms: "ms = (case res of Inl _ \<Rightarrow> ms1 | Inr m \<Rightarrow> m # ms1)"
    using Cons.prems(1) send by (auto split: prod.splits)
  show ?case
  proof (cases res)
    case (Inl e)
    then have "s1 = s"
      using send by (auto simp: send_sensor_data_def Let_def split: sum.splits)
    then show ?thesis
      using Cons.IH [OF rest, of j] Cons.prems ms Inl by auto
  next
    case (Inr m)
    have step: "(b + (j + 1)) mod 1000 = 0 \<Longrightarrow> j + 1 = 1000"
    proof -
      assume "(b + (j + 1)) mod 1000 = 0"
      then have "1000 dvd j + 1"
        using Cons.prems(4) by (metis dvd_add_right_iff mod_eq_0_iff_dvd)
      then obtain k where "j + 1 = 1000 * k" ..
      moreover from this have "k < 2" "0 < k"
        using Cons.prems(5) by (cases k; simp)+
      ultimately show ?thesis
        by simp
    qed
    have m: "sent_seq m = of_nat (b + j)" "w_eui (sg_reading m) = cs_eui s"
      and s1: "cs_seq_id s1 = of_nat (b + (j + 1))" "cs_eui s1 = cs_eui s"
      using send Inr Cons.prems(2) by (auto simp: send_sensor_data_def Let_def split: sum.splits if_splits)
    have nvs: "cs_nvs s1 = (if cs_seq_id s1 mod SEQ_STEP = 0 then Some (cs_seq_id s1) else cs_nvs s)"
      using send Inr by (auto simp: send_sensor_data_def Let_def seq_save_def split: sum.splits if_splits del: mod_0_imp_dvd)
    have "cs_nvs s1 = Some (of_nat (b + 1000))"
    proof (cases "cs_seq_id s1 mod SEQ_STEP = 0")
      case True
      have "b + (j + 1) < 2 ^ 32"
        using Cons.prems(5,6) by simp
      then have "(b + (j + 1)) mod 1000 = 0"
        using True s1(1) seq_step_iff [of "b + (j + 1)"] by metis
      with True show ?thesis
        using nvs s1(1) step by metis
    next
      case False
      with nvs Cons.prems(3) show ?thesis
        by simp
    qed
    from Cons.IH [OF rest s1(1) this Cons.prems(4) _ Cons.prems(6)] Cons.prems(5) have IH:
        "map sent_seq ms1 = map of_nat [b + (j + 1)..<b + (j + 1) + length ms1]"
        "cs_nvs s' = Some (of_nat (b + 1000))" "length ms1 \<le> length rs" "\<forall>m \<in> set ms1. w_eui (sg_reading m) = cs_eui s1"
      by auto
    moreover have "[b + j..<b + j + length (m # ms1)] = (b + j) # [b + (j + 1)..<b + (j + 1) + length ms1]"
      using upt_conv_Cons [of "b + j" "b + j + length (m # ms1)"] by (simp del: upt_Suc)
    ultimately show ?thesis
      using ms Inr m s1(2) by auto
  qed
qed auto

lemma device_life_seqs:
  assumes "device_life psa layout eui ks0 rs nvs = (ms, nvs')"
    and "seq_load nvs = of_nat b" and "b mod 1000 = 0" and "length rs < 2000" and "b + 2000 < 2 ^ 32"
  shows "map sent_seq ms = map of_nat [b..<b + length ms] \<and> nvs' = Some (of_nat (b + 1000)) \<and>
    length ms \<le> length rs \<and> (\<forall>m \<in> set ms. w_eui (sg_reading m) = eui)"
proof -
  obtain ks s s' where init: "coap_service_init psa ks0 (new_coap_service eui nvs) = (ks, s)"
    and send: "send_all psa layout rs ks s = (ms, s')" and nvs': "nvs' = cs_nvs s'"
    using assms(1) by (auto simp: device_life_def split: prod.splits)
  have "cs_seq_id s = of_nat (b + 0)" "cs_nvs s = Some (of_nat (b + 1000))" "cs_eui s = eui"
    using init assms(2)
    by (auto simp: coap_service_init_def new_coap_service_def seq_save_def SEQ_STEP_def Let_def split: prod.splits)
  then show ?thesis
    using send_all_seqs [OF send, of b 0] assms nvs' by simp
qed

lemma device_lives_seqs:
  assumes "seq_load nvs = of_nat b" and "b mod 1000 = 0" and "\<forall>rs \<in> set rss. length rs \<le> 1000"
    and "b + 1000 * length rss + 1000 < 2 ^ 32"
  shows "sorted_wrt (<) (map (unat \<circ> sent_seq) (device_lives psa layout eui ks0 rss nvs)) \<and>
    (\<forall>m \<in> set (device_lives psa layout eui ks0 rss nvs). b \<le> unat (sent_seq m) \<and> w_eui (sg_reading m) = eui)"
  using assms
proof (induction rss arbitrary: nvs b)
  case (Cons rs rss)
  obtain ms nvs' where life: "device_life psa layout eui ks0 rs nvs = (ms, nvs')"
    by (cases "device_life psa layout eui ks0 rs nvs")
  have l: "map sent_seq ms = map of_nat [b..<b + length ms]" "nvs' = Some (of_nat (b + 1000))" "length ms \<le> 1000"
      "\<forall>m \<in> set ms. w_eui (sg_reading m) = eui"
    using device_life_seqs [OF life Cons.prems(1,2)] Cons.prems(3,4) by auto
  have "map unat (map sent_seq ms) = map (unat \<circ> (of_nat :: nat \<Rightarrow> u32)) [b..<b + length ms]"
    by (simp only: l(1) map_map)
  also have "\<dots> = [b..<b + length ms]"
    by (rule map_idI) (use l(3) Cons.prems(4) in \<open>simp add: unat_of_nat_small\<close>)
  finally have here: "map (unat \<circ> sent_seq) ms = [b..<b + length ms]"
    by simp
  then have range: "b \<le> unat (sent_seq m)" "unat (sent_seq m) < b + 1000" if "m \<in> set ms" for m
  proof -
    have "unat (sent_seq m) \<in> set [b..<b + length ms]"
      unfolding here [symmetric] using that by simp
    then show "b \<le> unat (sent_seq m)" "unat (sent_seq m) < b + 1000"
      using l(3) by auto
  qed
  have "seq_load nvs' = of_nat (b + 1000)" "(b + 1000) mod 1000 = 0"
    using l(2) Cons.prems(2) by (simp_all add: seq_load_def)
  from Cons.IH [OF this] Cons.prems(3,4) have IH:
      "sorted_wrt (<) (map (unat \<circ> sent_seq) (device_lives psa layout eui ks0 rss nvs'))"
      "\<forall>m \<in> set (device_lives psa layout eui ks0 rss nvs'). b + 1000 \<le> unat (sent_seq m) \<and> w_eui (sg_reading m) = eui"
    by (simp_all add: comp_def)
  have "sorted_wrt (<) (map (unat \<circ> sent_seq) ms @ map (unat \<circ> sent_seq) (device_lives psa layout eui ks0 rss nvs'))"
    unfolding sorted_wrt_append using here IH l(3) by (auto simp: sorted_wrt_upt)
  then show ?case
    using life l(4) IH(2) range by (auto simp: split_beta comp_def)
qed simp

section \<open>From the sensor to the callback of the fog node\<close>

text \<open>Readings of one sensor that verify and carry growing numbers all pass the replay filter.\<close>

lemma growing_readings_pass:
  assumes "replay_ok (ss_replay_detect s)" and "\<forall>(now, m) \<in> set msgs. w_eui (sg_reading m) = eui \<and> vf eui (sg_reading m) (sg_signature m)"
    and "sorted_wrt (<) (map (sent_seq \<circ> snd) msgs)"
    and "seen_of (ss_replay_detect s) eui = None \<and> card (dom (seen_of (ss_replay_detect s))) < REPLAY_MAX_SENSORS \<or>
      (\<exists>q. seen_of (ss_replay_detect s) eui = Some q \<and> (\<forall>(now, m) \<in> set msgs. q < sent_seq m))"
  shows "fst (run_readings vf msgs s) = map (\<lambda>(now, m). (sg_reading m)\<lparr>w_timestamp := now\<rparr>) msgs"
  using assms
proof (induction msgs arbitrary: s)
  case (Cons x msgs)
  obtain now m where x: "x = (now, m)"
    by (cases x)
  let ?r = "(sg_reading m)\<lparr>w_timestamp := now\<rparr>"
  note fresh = is_fresh_refines [OF Cons.prems(1), of ?r]
  have pass: "seen_fresh ?r (seen_of (ss_replay_detect s)) = (True, (seen_of (ss_replay_detect s))(eui \<mapsto> sent_seq m))"
    using Cons.prems(2,4) x by (auto simp: seen_fresh_def)
  define s1 where "s1 = s\<lparr>ss_replay_detect := snd (is_fresh ?r (ss_replay_detect s))\<rparr>"
  have step: "on_reading vf now m s = (Some ?r, s1)"
    using Cons.prems(2) x fresh(2) pass by (auto simp: on_reading_def Let_def s1_def split_beta)
  have "seen_of (ss_replay_detect s1) = (seen_of (ss_replay_detect s))(eui \<mapsto> sent_seq m)"
    using fresh(2) pass by (simp add: s1_def)
  then have "seen_of (ss_replay_detect s1) eui = Some (sent_seq m)"
    by simp
  then have "fst (run_readings vf msgs s1) = map (\<lambda>(now, m). (sg_reading m)\<lparr>w_timestamp := now\<rparr>) msgs"
    using Cons.IH [of s1] Cons.prems(2,3) fresh(1) x by (auto simp: s1_def split_beta)
  then show ?case
    using step x by (simp add: split_beta)
qed simp

text \<open>What a device sends is signed with the key of its identity.\<close>

lemma device_sends_signed:
  assumes "send_all psa layout rs ks s = (ms, s')" and "m \<in> set ms"
  shows "sign psa ks (cs_devices s) (layout (sg_reading m)) = Inr (sg_signature m)"
  using assms
proof (induction rs arbitrary: s ms)
  case (Cons r rs)
  obtain res s1 ms1 where send: "send_sensor_data psa layout r ks s = (res, s1)" and rest: "send_all psa layout rs ks s1 = (ms1, s')"
    and ms: "ms = (case res of Inl _ \<Rightarrow> ms1 | Inr m \<Rightarrow> m # ms1)"
    using Cons.prems(1) by (auto split: prod.splits)
  have "cs_devices s1 = cs_devices s"
    using send by (auto simp: send_sensor_data_def Let_def split: sum.splits if_splits)
  moreover have "res = Inr m' \<Longrightarrow> sign psa ks (cs_devices s) (layout (sg_reading m')) = Inr (sg_signature m')" for m'
    using send by (auto simp: send_sensor_data_def Let_def split: sum.splits if_splits)
  ultimately show ?case
    using Cons.IH [OF rest] Cons.prems(2) ms by (auto split: sum.splits)
qed simp

lemma device_lives_signed:
  assumes "store_init psa eui ks0 new_store = (err, ks, store)" and "m \<in> set (device_lives psa layout eui ks0 rss nvs)"
  shows "sign psa ks store (layout (sg_reading m)) = Inr (sg_signature m)"
  using assms(2)
proof (induction rss arbitrary: nvs)
  case (Cons rs rss)
  have init: "\<exists>s. coap_service_init psa ks0 (new_coap_service eui nvs) = (ks, s) \<and> cs_devices s = store"
    using assms(1) by (simp add: coap_service_init_def new_coap_service_def Let_def)
  have "sign psa ks store (layout (sg_reading m)) = Inr (sg_signature m)" if "m \<in> set (fst (device_life psa layout eui ks0 rs nvs))"
    using init that device_sends_signed by (fastforce simp: device_life_def split: prod.splits)
  then show ?case
    using Cons by (auto simp: split_beta)
qed simp

section \<open>Properties\<close>

text \<open>
  C33. The sequence numbers of a device grow over all its lives: as long as it sends at most a
  thousand readings between two boots, the numbers of all it ever sends are strictly increasing,
  whatever the boots interrupt.
\<close>

theorem sequence_numbers_survive_reboots:
  assumes "\<forall>rs \<in> set rss. length rs \<le> 1000" and "1000 * length rss + 1000 < 2 ^ 32"
  shows "sorted_wrt (<) (map sent_seq (device_lives psa layout eui ks0 rss None))"
proof -
  have "sorted_wrt (<) (map (unat \<circ> sent_seq) (device_lives psa layout eui ks0 rss None))"
    using device_lives_seqs [of None 0 rss psa layout eui ks0] assms by (simp add: seq_load_def)
  then show ?thesis
    by (simp add: sorted_wrt_map word_less_nat_alt)
qed

definition demo_layout :: "SensorReadingWire \<Rightarrow> bytes" where
  "demo_layout r = eui_bytes (w_eui r) @ [ucast (w_seq r)]"

definition demo_reading :: SensorReading where
  "demo_reading = \<lparr>sr_water_level = 500, sr_validity = VALIDITY_GOOD, sr_detail = DETAIL_NONE\<rparr>"

theorem sequence_numbers_survive_reboots_witness:
  "sorted_wrt (<) (map sent_seq (device_lives demo_psa demo_layout 7 [] [[demo_reading, demo_reading], [demo_reading]] None))"
  by (rule sequence_numbers_survive_reboots) simp_all



section \<open>Limits\<close>

text \<open>
  A device that sends more than a thousand readings in one life stores the number it has reached
  and not the next step: after the next boot it sends numbers it has sent before, and the fog
  nodes drop those readings as replays.
\<close>

theorem long_life_repeats_sequence_numbers:
  assumes "device_life psa layout eui ks0 rs None = (ms, nvs)" and "1000 < length ms" and "length rs < 2000"
    and "device_life psa layout eui ks0 rs' nvs = (m' # ms', nvs')" and "length rs' < 2000"
  shows "\<exists>m \<in> set ms. sent_seq m' = sent_seq m \<and> w_eui (sg_reading m') = w_eui (sg_reading m)"
proof -
  have one: "map sent_seq ms = map of_nat [0..<length ms]" "nvs = Some 1000" "\<forall>m \<in> set ms. w_eui (sg_reading m) = eui"
    using device_life_seqs [OF assms(1), of 0] assms(3) by (simp_all add: seq_load_def)
  have two: "sent_seq m' = 1000" "w_eui (sg_reading m') = eui"
    using device_life_seqs [OF assms(4), of 1000] assms(5) one(2) by (simp_all add: seq_load_def upt_conv_Cons del: upt_Suc)
  have "sent_seq (ms ! 1000) = of_nat ([0..<length ms] ! 1000)"
    using arg_cong [OF one(1), of "\<lambda>xs. xs ! 1000"] assms(2) by simp
  then have "sent_seq (ms ! 1000) = 1000"
    using assms(2) by simp
  with two one(3) assms(2) show ?thesis
    by (metis nth_mem)
qed

end
