(* ===== verification/Modem_Setup.thy ===== *)
theory Modem_Setup
  imports Lora_Service
begin

text \<open>
  Bringing up the LoRaWAN sender: \<^verbatim>\<open>E5Modem::init\<close> with its matches and its script
  (\<^verbatim>\<open>fog/src/lorawan/modem.hpp\<close>), and \<^verbatim>\<open>LoraWanService::init\<close> and
  \<^verbatim>\<open>stop\<close> (\<^verbatim>\<open>fog/src/lorawan/service.hpp\<close>). The UART, the pipe and the chat
  engine are Zephyr's: a record of operations on a state of their own.
\<close>

section \<open>Matches\<close>

text \<open>The matches that abort a script, with the outcome their handlers leave in \<open>m_abort_kind\<close>.\<close>

definition on_e5_at_error :: CmdResult where "on_e5_at_error = AT_ERROR"
definition on_e5_not_joined :: CmdResult where "on_e5_not_joined = NOT_JOINED"

definition e5_abort_matches :: "(string \<times> CmdResult) list" where
  "e5_abort_matches = [(''AT_ERROR'', on_e5_at_error), (''AT_PARAM_ERROR'', on_e5_at_error),
     (''Please join network first'', on_e5_not_joined)]"

text \<open>The unsolicited match of a downlink: its text and the separators of its arguments.\<close>

definition e5_unsol_matches :: "(string \<times> string) list" where
  "e5_unsol_matches = [(''+MSGHEX: RX: \"'', ''\"'')]"

text \<open>The chat engine runs the handlers of the matches it was given, so an abort has one of their outcomes.\<close>

definition aborts_by_match :: "'m chat \<Rightarrow> bool" where
  "aborts_by_match chat \<longleftrightarrow>
     (\<forall>command expected t u m kind. cr_abort (fst (chat command expected t u m)) = Some kind \<longrightarrow> kind \<in> snd ` set e5_abort_matches)"

lemma cmd_outcome:
  assumes "aborts_by_match chat" and "cmd chat command expected t cap m = ((res, dl), m')" and "res \<noteq> MATCHED"
  shows "res = CMD_TIMEOUT \<or> res = on_e5_at_error \<or> res = on_e5_not_joined"
  using assms(2,3) assms(1) [unfolded aborts_by_match_def, rule_format, of command expected "ucast t" "ucast (t div 1000 + 2)" m]
  by (auto simp: cmd_def e5_abort_matches_def on_e5_at_error_def on_e5_not_joined_def Let_def split: if_splits prod.splits option.splits)

section \<open>Initialisation of the modem\<close>

definition UART_RX_BUF_SIZE :: nat where [config_defs]: "UART_RX_BUF_SIZE = 256"
definition UART_TX_BUF_SIZE :: nat where [config_defs]: "UART_TX_BUF_SIZE = 300"
definition CHAT_RX_BUF_SIZE :: nat where [config_defs]: "CHAT_RX_BUF_SIZE = 256"
definition CHAT_ARGV_SIZE :: nat where [config_defs]: "CHAT_ARGV_SIZE = 16"

record backend_config =
  bc_receive_buf_size :: nat
  bc_transmit_buf_size :: nat

record chat_config =
  cc_receive_buf_size :: u16
  cc_delimiter :: "u8 list"
  cc_filter_size :: u8
  cc_argv_size :: u16
  cc_unsol_matches :: "(string \<times> string) list"

record script_config =
  sc_name :: string
  sc_separators :: string
  sc_response_matches :: nat
  sc_chats :: nat
  sc_abort_matches :: "(string \<times> CmdResult) list"

record 'm ModemApi =
  device_is_ready :: "'m \<Rightarrow> bool"
  modem_backend_uart_init :: "backend_config \<Rightarrow> 'm \<Rightarrow> bool \<times> 'm"
  modem_chat_init :: "chat_config \<Rightarrow> 'm \<Rightarrow> int \<times> 'm"
  modem_chat_script_setup :: "script_config \<Rightarrow> 'm \<Rightarrow> 'm"
  modem_pipe_open :: "k_timeout \<Rightarrow> 'm \<Rightarrow> int \<times> 'm"
  modem_chat_attach :: "'m \<Rightarrow> int \<times> 'm"

definition backend_cfg :: backend_config where
  "backend_cfg = \<lparr>bc_receive_buf_size = UART_RX_BUF_SIZE, bc_transmit_buf_size = UART_TX_BUF_SIZE\<rparr>"

definition chat_cfg :: chat_config where
  "chat_cfg = \<lparr>cc_receive_buf_size = of_nat CHAT_RX_BUF_SIZE, cc_delimiter = [13, 10], cc_filter_size = 0,
     cc_argv_size = of_nat CHAT_ARGV_SIZE, cc_unsol_matches = e5_unsol_matches\<rparr>"

definition init_script :: "'m ModemApi \<Rightarrow> 'm \<Rightarrow> 'm" where
  "init_script api = modem_chat_script_setup api
     \<lparr>sc_name = ''e5_cmd'', sc_separators = '''', sc_response_matches = 1, sc_chats = 1, sc_abort_matches = e5_abort_matches\<rparr>"

definition modem_init :: "'m ModemApi \<Rightarrow> 'm \<Rightarrow> bool \<times> 'm" where
  "modem_init api m =
     (if \<not> device_is_ready api m then (False, m)
      else let (pipe, m) = modem_backend_uart_init api backend_cfg m in
        if \<not> pipe then (False, m)
        else let (err, m) = modem_chat_init api chat_cfg m in
          if err < 0 then (False, m)
          else let m = init_script api m;
                   (err, m) = modem_pipe_open api (K_MSEC 10000) m in
            if err < 0 then (False, m)
            else let (err, m) = modem_chat_attach api m in (err = 0, m))"

section \<open>The service\<close>

text \<open>The thread is created with the flag set; it repeats \<open>thread_step\<close> as long as it finds it set.\<close>

definition lora_init :: "'m ModemApi \<Rightarrow> LoraWanService \<Rightarrow> 'm \<Rightarrow> bool \<times> LoraWanService \<times> 'm" where
  "lora_init api s m =
     (let (started, m) = modem_init api m in
      if \<not> started then (False, s, m) else (True, s\<lparr>ls_running := True\<rparr>, m))"

text \<open>
  \<open>stop\<close> clears the flag, wakes the thread from its two waits, by the semaphore and by purging the queue,
  and waits for its end.
\<close>

definition lora_stop :: "LoraWanService \<Rightarrow> LoraWanService" where
  "lora_stop s = (let s = s\<lparr>ls_running := False\<rparr> in s\<lparr>ls_tx_q := mq_purge (list_queue TX_QUEUE_DEPTH) (ls_tx_q s)\<rparr>)"

definition is_joined :: "LoraWanService \<Rightarrow> bool" where
  "is_joined s = ls_joined s"

text \<open>The loop of the thread, at most \<open>n\<close> rounds of it: \<open>None\<close> when it waits for the queue.\<close>

fun thread_entry :: "'m chat \<Rightarrow> nat \<Rightarrow> LoraWanService \<Rightarrow> 'm \<Rightarrow> (LoraWanService \<times> 'm) option" where
  "thread_entry chat 0 s m = Some (s, m)"
| "thread_entry chat (Suc n) s m =
     (if \<not> ls_running s then Some (s, m)
      else do { (_, s, m) \<leftarrow> thread_step chat s m; thread_entry chat n s m })"

section \<open>What initialisation and stop achieve\<close>

text \<open>
  The sender starts only on an attached chat: the device is ready, every call before has succeeded, and
  the script with its abort matches was set up before the pipe was opened.
\<close>

lemma lora_init_started:
  assumes "lora_init api s m = (True, s', m')"
  shows "s' = s\<lparr>ls_running := True\<rparr> \<and> device_is_ready api m \<and>
    (\<exists>m1 m2 m3. modem_backend_uart_init api backend_cfg m = (True, m1) \<and> 0 \<le> fst (modem_chat_init api chat_cfg m1) \<and>
       m2 = init_script api (snd (modem_chat_init api chat_cfg m1)) \<and> modem_pipe_open api (K_MSEC 10000) m2 = (fst (modem_pipe_open api (K_MSEC 10000) m2), m3) \<and>
       0 \<le> fst (modem_pipe_open api (K_MSEC 10000) m2) \<and> modem_chat_attach api m3 = (0, m'))"
  using assms by (auto simp: lora_init_def modem_init_def Let_def split: prod.splits if_splits)

lemma lora_init_failed: "lora_init api s m = (False, s', m') \<Longrightarrow> s' = s"
  by (auto simp: lora_init_def split: prod.splits if_splits)

text \<open>A stopped thread performs no further round, and nothing is left to send.\<close>

lemma lora_stopped:
  "thread_entry chat n (lora_stop s) m = Some (lora_stop s, m)" "ls_tx_q (lora_stop s) = []" "ls_completed (lora_stop s) = ls_completed s"
  by (cases n) (simp_all add: lora_stop_def mq_purge_def list_queue_def Let_def)

text \<open>Rounds keep the flag, so only \<open>stop\<close> ends the thread.\<close>

lemma ship_payload_running: "ship_payload chat p s m = (sent, s', m') \<Longrightarrow> ls_running s' = ls_running s"
  by (auto simp: ship_payload_def try_put_eq Let_def split: option.splits prod.splits if_splits)

lemma thread_step_running: "thread_step chat s m = Some (d, s', m') \<Longrightarrow> ls_running s' = ls_running s"
  by (auto simp: thread_step_eq split: if_splits list.splits prod.splits Option.bind_splits dest!: ship_payload_running)

end
