(* ===== verification/Coap_Utils.thy ===== *)
theory Coap_Utils
  imports Flood_Prelude
begin

text \<open>
  The CoAP helpers of \<^verbatim>\<open>firmware/common/coap_utils.c\<close>. OpenThread is an argument: a
  record of its calls on a state of its own, in which a message is a handle. An error code is a
  value of \<open>errno\<close>, returned negated by the C functions.
\<close>

section \<open>OpenThread\<close>

type_synonym ot_error = int
type_synonym otMessage = nat

definition OT_ERROR_NONE :: ot_error where "OT_ERROR_NONE = 0"

datatype coap_type = CONFIRMABLE | NON_CONFIRMABLE | ACKNOWLEDGMENT | RESET
datatype coap_code = CODE_GET | CODE_PUT | CODE_CONTENT | CODE_CHANGED | CODE_OTHER
datatype errno = ENODEV | ENOMEM | EBADMSG | EIO | EINVAL

record 's Ot =
  ot_default_instance :: bool
  ot_address_from_string :: "string \<Rightarrow> u8 list"
  ot_new_message :: "'s \<Rightarrow> otMessage option \<times> 's"
  ot_message_init :: "otMessage \<Rightarrow> coap_type \<Rightarrow> coap_code \<Rightarrow> 's \<Rightarrow> 's"
  ot_init_response :: "otMessage \<Rightarrow> otMessage \<Rightarrow> coap_type \<Rightarrow> coap_code \<Rightarrow> 's \<Rightarrow> ot_error \<times> 's"
  ot_append_uri :: "otMessage \<Rightarrow> string \<Rightarrow> 's \<Rightarrow> ot_error \<times> 's"
  ot_payload_marker :: "otMessage \<Rightarrow> 's \<Rightarrow> ot_error \<times> 's"
  ot_append :: "otMessage \<Rightarrow> u8 list \<Rightarrow> 's \<Rightarrow> ot_error \<times> 's"
  ot_send_request :: "otMessage \<Rightarrow> u8 list \<Rightarrow> 's \<Rightarrow> ot_error \<times> 's"
  ot_send_response :: "otMessage \<Rightarrow> 's \<Rightarrow> ot_error \<times> 's"
  ot_free :: "otMessage \<Rightarrow> 's \<Rightarrow> 's"
  ot_get_type :: "otMessage \<Rightarrow> 's \<Rightarrow> coap_type"
  ot_get_code :: "otMessage \<Rightarrow> 's \<Rightarrow> coap_code"
  ot_start :: "'s \<Rightarrow> ot_error \<times> 's"
  ot_payload :: "otMessage \<Rightarrow> 's \<Rightarrow> u8 list"

section \<open>The helpers\<close>

definition COAP_MAX_BUF_SIZE :: nat where [config_defs]: "COAP_MAX_BUF_SIZE = 128"
definition COAP_DEVICE_ID_SIZE :: nat where [config_defs]: "COAP_DEVICE_ID_SIZE = 25"

datatype coap_addr = Ip6 "u8 list" | Ip6_String string

text \<open>The error exit: the message is freed.\<close>

definition give_up :: "'s Ot \<Rightarrow> otMessage \<Rightarrow> errno \<Rightarrow> 's \<Rightarrow> (errno + unit) \<times> 's" where
  "give_up ot msg e s = (Inl e, ot_free ot msg s)"

definition coap_req_send :: "'s Ot \<Rightarrow> coap_addr \<Rightarrow> string \<Rightarrow> u8 list \<Rightarrow> coap_code \<Rightarrow> 's \<Rightarrow> (errno + unit) \<times> 's" where
  "coap_req_send ot addr uri buf code s =
     (if \<not> ot_default_instance ot then (Inl ENODEV, s)
      else let peer = (case addr of Ip6_String str \<Rightarrow> ot_address_from_string ot str | Ip6 a \<Rightarrow> a);
               (new, s) = ot_new_message ot s
           in case new of
                None \<Rightarrow> (Inl ENOMEM, s)
              | Some msg \<Rightarrow>
                  let s = ot_message_init ot msg NON_CONFIRMABLE code s;
                      (err, s) = ot_append_uri ot msg uri s
                  in if err \<noteq> OT_ERROR_NONE then give_up ot msg EBADMSG s
                     else let (err, s) = ot_payload_marker ot msg s
                          in if err \<noteq> OT_ERROR_NONE then give_up ot msg EBADMSG s
                             else let (err, s) = ot_append ot msg buf s
                                  in if err \<noteq> OT_ERROR_NONE then give_up ot msg EBADMSG s
                                     else let (err, s) = ot_send_request ot msg peer s
                                          in if err \<noteq> OT_ERROR_NONE then give_up ot msg EIO s else (Inr (), s))"

definition coap_put_req_send :: "'s Ot \<Rightarrow> coap_addr \<Rightarrow> string \<Rightarrow> u8 list \<Rightarrow> 's \<Rightarrow> (errno + unit) \<times> 's" where
  "coap_put_req_send ot addr uri buf s = coap_req_send ot addr uri buf CODE_PUT s"

definition coap_get_req_send :: "'s Ot \<Rightarrow> coap_addr \<Rightarrow> string \<Rightarrow> u8 list \<Rightarrow> 's \<Rightarrow> (errno + unit) \<times> 's" where
  "coap_get_req_send ot addr uri buf s = coap_req_send ot addr uri buf CODE_GET s"

definition resp_type :: "coap_type \<Rightarrow> coap_type option" where
  "resp_type t = (case t of CONFIRMABLE \<Rightarrow> Some ACKNOWLEDGMENT | NON_CONFIRMABLE \<Rightarrow> Some NON_CONFIRMABLE | _ \<Rightarrow> None)"

definition resp_code :: "coap_code \<Rightarrow> coap_code option" where
  "resp_code c = (case c of CODE_GET \<Rightarrow> Some CODE_CONTENT | CODE_PUT \<Rightarrow> Some CODE_CHANGED | _ \<Rightarrow> None)"

definition coap_resp_send :: "'s Ot \<Rightarrow> otMessage \<Rightarrow> u8 list \<Rightarrow> 's \<Rightarrow> (errno + unit) \<times> 's" where
  "coap_resp_send ot req buf s =
     (if \<not> ot_default_instance ot then (Inl ENODEV, s)
      else let (new, s) = ot_new_message ot s
           in case new of
                None \<Rightarrow> (Inl ENOMEM, s)
              | Some resp \<Rightarrow>
                  case resp_type (ot_get_type ot req s) of
                    None \<Rightarrow> give_up ot resp EINVAL s
                  | Some t \<Rightarrow>
                      case resp_code (ot_get_code ot req s) of
                        None \<Rightarrow> give_up ot resp EINVAL s
                      | Some c \<Rightarrow>
                          let (err, s) = ot_init_response ot resp req t c s
                          in if err \<noteq> OT_ERROR_NONE then give_up ot resp EBADMSG s
                             else let (err, s) = ot_payload_marker ot resp s
                                  in if err \<noteq> OT_ERROR_NONE then give_up ot resp EBADMSG s
                                     else let (err, s) = ot_append ot resp buf s
                                          in if err \<noteq> OT_ERROR_NONE then give_up ot resp EBADMSG s
                                             else let (err, s) = ot_send_response ot resp s
                                                  in if err \<noteq> OT_ERROR_NONE then give_up ot resp EIO s else (Inr (), s))"

text \<open>
  The bytes copied and their number; the caller's buffer has \<open>len\<close> bytes.
\<close>

definition coap_get_data :: "'s Ot \<Rightarrow> otMessage \<Rightarrow> nat \<Rightarrow> 's \<Rightarrow> errno + u8 list" where
  "coap_get_data ot msg len s =
     (if len < length (ot_payload ot msg s) then Inl ENOMEM else Inr (ot_payload ot msg s))"

text \<open>
  The dispatcher of requests. The two handlers return integers, zero for success; \<open>Inl\<close> is the
  dispatcher's own error. \<open>None\<close> is a copy past the end of the static buffer or a call of a
  missing handler.
\<close>

definition coap_req_handler ::
    "'s Ot \<Rightarrow> (u8 list \<Rightarrow> 's \<Rightarrow> int \<times> 's) option \<Rightarrow> (otMessage \<Rightarrow> 's \<Rightarrow> int \<times> 's) option \<Rightarrow> otMessage \<Rightarrow> 's \<Rightarrow> ((errno + int) \<times> 's) option" where
  "coap_req_handler ot put_fn get_fn msg s =
     (if ot_get_type ot msg s \<noteq> CONFIRMABLE \<and> ot_get_type ot msg s \<noteq> NON_CONFIRMABLE then Some (Inl EINVAL, s)
      else if ot_get_code ot msg s = CODE_PUT \<and> put_fn \<noteq> None then
        if COAP_MAX_BUF_SIZE < length (ot_payload ot msg s) then None
        else let (ret, s') = the put_fn (ot_payload ot msg s) s
             in if ret \<noteq> 0 then Some (Inr ret, s')
                else if ot_get_type ot msg s = CONFIRMABLE then map_option (\<lambda>get. apfst Inr (get msg s')) get_fn
                else Some (Inr ret, s')
      else if ot_get_code ot msg s = CODE_GET then map_option (\<lambda>get. apfst Inr (get msg s)) get_fn
      else Some (Inl EINVAL, s))"

text \<open>Two lower-case hex digits of a byte, and the identifier, computed once.\<close>

definition hex_low :: "u8 \<Rightarrow> string" where
  "hex_low b = [''0123456789abcdef'' ! unat (drop_bit 4 b), ''0123456789abcdef'' ! unat (b AND 15)]"

definition coap_device_id :: "u8 list \<Rightarrow> string \<Rightarrow> string" where
  "coap_device_id eui64 coap_dev_id = (if coap_dev_id \<noteq> [] then coap_dev_id else concat (map hex_low (take 8 eui64)))"

definition coap_init :: "'s Ot \<Rightarrow> 's \<Rightarrow> (errno + unit) \<times> 's" where
  "coap_init ot s =
     (if \<not> ot_default_instance ot then (Inl ENODEV, s)
      else let (err, s) = ot_start ot s in (if err \<noteq> OT_ERROR_NONE then Inl EBADMSG else Inr (), s))"

section \<open>Ownership of messages\<close>

text \<open>
  What OpenThread documents of its messages: a new message belongs to the caller, filling it does
  not change that, a successful send hands it over and a failed one does not, and freeing gives it
  back.
\<close>

definition keeps :: "('s \<Rightarrow> otMessage set) \<Rightarrow> ('s \<Rightarrow> ot_error \<times> 's) \<Rightarrow> bool" where
  "keeps owned f \<longleftrightarrow> (\<forall>s. owned (snd (f s)) = owned s)"

definition hands_over :: "('s \<Rightarrow> otMessage set) \<Rightarrow> otMessage \<Rightarrow> ('s \<Rightarrow> ot_error \<times> 's) \<Rightarrow> bool" where
  "hands_over owned m f \<longleftrightarrow> (\<forall>s. owned (snd (f s)) = (if fst (f s) = OT_ERROR_NONE then owned s - {m} else owned s))"

definition ot_ownership :: "'s Ot \<Rightarrow> ('s \<Rightarrow> otMessage set) \<Rightarrow> bool" where
  "ot_ownership ot owned \<longleftrightarrow>
     (\<forall>s. case fst (ot_new_message ot s) of
            None \<Rightarrow> owned (snd (ot_new_message ot s)) = owned s
          | Some m \<Rightarrow> m \<notin> owned s \<and> owned (snd (ot_new_message ot s)) = insert m (owned s)) \<and>
     (\<forall>m t c s. owned (ot_message_init ot m t c s) = owned s) \<and>
     (\<forall>m r t c. keeps owned (ot_init_response ot m r t c)) \<and> (\<forall>m u. keeps owned (ot_append_uri ot m u)) \<and>
     (\<forall>m. keeps owned (ot_payload_marker ot m)) \<and> (\<forall>m b. keeps owned (ot_append ot m b)) \<and>
     (\<forall>m a. hands_over owned m (ot_send_request ot m a)) \<and> (\<forall>m. hands_over owned m (ot_send_response ot m)) \<and>
     (\<forall>m s. owned (ot_free ot m s) = owned s - {m})"

lemma ot_ownership_filling:
  assumes "ot_ownership ot owned"
  shows "owned (ot_message_init ot m t c s) = owned s"
    and "owned (snd (ot_init_response ot m r t c s)) = owned s"
    and "owned (snd (ot_append_uri ot m u s)) = owned s"
    and "owned (snd (ot_payload_marker ot m s)) = owned s"
    and "owned (snd (ot_append ot m b s)) = owned s"
    and "owned (ot_free ot m s) = owned s - {m}"
  using assms by (simp_all add: ot_ownership_def keeps_def)

lemma ot_ownership_sending:
  assumes "ot_ownership ot owned"
  shows "owned (snd (ot_send_request ot m a s)) = (if fst (ot_send_request ot m a s) = OT_ERROR_NONE then owned s - {m} else owned s)"
    and "owned (snd (ot_send_response ot m s)) = (if fst (ot_send_response ot m s) = OT_ERROR_NONE then owned s - {m} else owned s)"
  using assms unfolding ot_ownership_def hands_over_def by blast+

lemma ot_ownership_new:
  assumes "ot_ownership ot owned"
  shows "fst (ot_new_message ot s) = None \<Longrightarrow> owned (snd (ot_new_message ot s)) = owned s"
    and "fst (ot_new_message ot s) = Some m \<Longrightarrow> owned (snd (ot_new_message ot s)) - {m} = owned s"
proof -
  have "case fst (ot_new_message ot s) of
            None \<Rightarrow> owned (snd (ot_new_message ot s)) = owned s
          | Some m \<Rightarrow> m \<notin> owned s \<and> owned (snd (ot_new_message ot s)) = insert m (owned s)"
    using assms by (simp add: ot_ownership_def)
  then show "fst (ot_new_message ot s) = None \<Longrightarrow> owned (snd (ot_new_message ot s)) = owned s"
    and "fst (ot_new_message ot s) = Some m \<Longrightarrow> owned (snd (ot_new_message ot s)) - {m} = owned s"
    by (simp_all add: insert_Diff_if)
qed

lemma coap_req_send_balanced:
  assumes "ot_ownership ot owned"
  shows "owned (snd (coap_req_send ot addr uri buf code s)) = owned s"
  using ot_ownership_new [OF assms, of s]
  by (simp add: coap_req_send_def give_up_def Let_def split_beta ot_ownership_filling [OF assms] ot_ownership_sending [OF assms]
      split: option.split)

lemma coap_resp_send_balanced:
  assumes "ot_ownership ot owned"
  shows "owned (snd (coap_resp_send ot req buf s)) = owned s"
  using ot_ownership_new [OF assms, of s]
  by (simp add: coap_resp_send_def give_up_def Let_def split_beta ot_ownership_filling [OF assms] ot_ownership_sending [OF assms]
      split: option.split)

text \<open>The identifier has sixteen digits, which with the final zero fit the 25 bytes reserved for it.\<close>

lemma coap_device_id_fits:
  "length eui64 = 8 \<Longrightarrow> length (coap_device_id eui64 []) + 1 \<le> COAP_DEVICE_ID_SIZE"
  by (simp add: coap_device_id_def hex_low_def length_concat o_def sum_list_triv COAP_DEVICE_ID_SIZE_def)

section \<open>Properties\<close>

text \<open>
  C37. No exit of the helpers leaks a message buffer: whatever fails, after a request or a response
  the caller owns the messages it owned before, and data read from a message never exceeds the
  buffer it is read into.
\<close>

theorem coap_helpers_leak_nothing:
  assumes "ot_ownership ot owned"
  shows "owned (snd (coap_put_req_send ot addr uri buf s)) = owned s \<and> owned (snd (coap_get_req_send ot addr uri buf s)) = owned s \<and>
    owned (snd (coap_resp_send ot req buf s)) = owned s \<and>
    (case coap_get_data ot msg len s of Inl e \<Rightarrow> e = ENOMEM \<and> len < length (ot_payload ot msg s) | Inr bs \<Rightarrow> length bs \<le> len)"
  using coap_req_send_balanced [OF assms] coap_resp_send_balanced [OF assms]
  by (simp add: coap_put_req_send_def coap_get_req_send_def coap_get_data_def)

text \<open>A stack that numbers its messages and whose sends all fail.\<close>

definition demo_ot :: "(nat \<times> nat set) Ot" where
  "demo_ot = \<lparr>ot_default_instance = True, ot_address_from_string = (\<lambda>_. replicate 16 0),
     ot_new_message = (\<lambda>(n, ms). (Some n, (Suc n, insert n ms))), ot_message_init = (\<lambda>_ _ _ s. s),
     ot_init_response = (\<lambda>_ _ _ _ s. (0, s)), ot_append_uri = (\<lambda>_ _ s. (0, s)), ot_payload_marker = (\<lambda>_ s. (0, s)),
     ot_append = (\<lambda>_ _ s. (0, s)), ot_send_request = (\<lambda>_ _ s. (1, s)), ot_send_response = (\<lambda>_ s. (1, s)),
     ot_free = (\<lambda>m (n, ms). (n, ms - {m})), ot_get_type = (\<lambda>_ _. CONFIRMABLE), ot_get_code = (\<lambda>_ _. CODE_PUT), ot_start = (\<lambda>s. (0, s)),
     ot_payload = (\<lambda>_ _. [1, 2, 3])\<rparr>"

definition demo_owned :: "nat \<times> nat set \<Rightarrow> nat set" where
  "demo_owned s = {m \<in> snd s. m < fst s}"

theorem coap_helpers_leak_nothing_witness:
  "demo_owned (snd (coap_put_req_send demo_ot (Ip6_String ''ff03::2'') ''sensor'' [1, 2] (0, {}))) = {} \<and>
   fst (coap_put_req_send demo_ot (Ip6_String ''ff03::2'') ''sensor'' [1, 2] (0, {})) = Inl EIO"
proof -
  have "ot_ownership demo_ot demo_owned"
    by (auto simp: ot_ownership_def demo_ot_def demo_owned_def keeps_def hands_over_def OT_ERROR_NONE_def less_Suc_eq)
  from coap_helpers_leak_nothing [OF this, of "Ip6_String ''ff03::2''" "''sensor''" "[1, 2]" "(0, {})"] show ?thesis
    by (simp add: demo_owned_def) (simp add: coap_put_req_send_def coap_req_send_def demo_ot_def give_up_def OT_ERROR_NONE_def)
qed

text \<open>
  The dispatcher does not look at the length of a request before it copies it: a put of more than
  128 bytes overruns the static buffer.
\<close>

lemma long_put_overruns_the_buffer:
  assumes "ot_get_type ot msg s = CONFIRMABLE" and "ot_get_code ot msg s = CODE_PUT" and "128 < length (ot_payload ot msg s)"
  shows "coap_req_handler ot (Some put) get_fn msg s = None"
  using assms by (simp add: coap_req_handler_def COAP_MAX_BUF_SIZE_def)

end
