(* ===== verification/Provisioned_Devices.thy ===== *)
theory Provisioned_Devices
  imports Trusted_Devices Raft_Cluster
begin

text \<open>
  The table of provisioned devices, \<^verbatim>\<open>common/security/trusted_devices.hpp\<close>: the identifiers and
  public keys the fog nodes trust. The assumptions that the theorems on signed messages make about a
  trust list hold of this one.
\<close>

definition TRUSTED_DEVICES :: "TrustedDevice list" where
  "TRUSTED_DEVICES =
     [\<lparr>dev_eui = 0xf4ce360a4eac3643, dev_pub_key =
        [0x4, 0x72, 0xff, 0xc3, 0xf2, 0x28, 0x0, 0x45, 0x65, 0xdd, 0xd1, 0xa8, 0xfc, 0xce, 0x6f, 0x72,
         0x3b, 0x50, 0xc3, 0x24, 0x43, 0xd8, 0xc7, 0x33, 0x7a, 0xaa, 0x3b, 0xd1, 0x22, 0x94, 0x42, 0x92,
         0x1e, 0xe2, 0xad, 0x8b, 0xc2, 0x3a, 0x81, 0x3, 0xdc, 0x6c, 0xd3, 0x45, 0x67, 0x11, 0x48, 0x43,
         0x68, 0xe5, 0x69, 0x28, 0xc9, 0x8d, 0xe8, 0x1b, 0x9c, 0x5a, 0xe1, 0x96, 0xef, 0xb4, 0x8, 0x7a,
         0x7d]\<rparr>,
      \<lparr>dev_eui = 0xf4ce363a5c916092, dev_pub_key =
        [0x4, 0xbe, 0xde, 0xac, 0x71, 0xb7, 0x47, 0x42, 0xaf, 0x3, 0xf3, 0xd3, 0xf4, 0x4a, 0x99, 0x62,
         0xba, 0x87, 0xe7, 0xe7, 0xb2, 0xc2, 0xfd, 0x29, 0x9f, 0xab, 0x16, 0x45, 0x7c, 0xcb, 0x92, 0x75,
         0x1d, 0x29, 0x8f, 0x3a, 0xab, 0x28, 0x3, 0x48, 0x30, 0xe3, 0xe5, 0x1b, 0x19, 0x2, 0xde, 0x24,
         0x1b, 0xc, 0x13, 0x7d, 0x1c, 0x9e, 0x11, 0x5f, 0x4b, 0xd0, 0xfc, 0x48, 0xf6, 0x45, 0xb, 0xde,
         0x20]\<rparr>,
      \<lparr>dev_eui = 0xf4ce3696247825d1, dev_pub_key =
        [0x4, 0xc4, 0x80, 0x76, 0xcd, 0x37, 0x1a, 0x36, 0xe0, 0xba, 0x90, 0x76, 0xa2, 0x6d, 0x78, 0xa,
         0x53, 0xa0, 0xe3, 0x2f, 0x49, 0x68, 0x38, 0xc4, 0x23, 0x31, 0xb9, 0x60, 0x4b, 0x8b, 0x6e, 0x4f,
         0x9c, 0xfa, 0xed, 0xc6, 0xc9, 0x69, 0x3f, 0xe, 0xe2, 0x55, 0xba, 0x1d, 0xba, 0x45, 0xb9, 0xe7,
         0x70, 0x8, 0x42, 0x41, 0xa9, 0x79, 0xa7, 0x4d, 0x6, 0x83, 0x91, 0x45, 0xe0, 0x13, 0x66, 0x1,
         0x2f]\<rparr>,
      \<lparr>dev_eui = 0xf4ce3631c30495ce, dev_pub_key =
        [0x4, 0xea, 0x29, 0x4, 0x21, 0x1f, 0xcc, 0xfb, 0xd1, 0x4c, 0xc5, 0x8, 0xd, 0x17, 0x54, 0x4c,
         0xb6, 0x40, 0xc3, 0x80, 0xe0, 0xd7, 0xb0, 0x4, 0xc7, 0xe6, 0xb2, 0x1c, 0x5e, 0x68, 0x3f, 0x4b,
         0xf2, 0x99, 0x60, 0xbd, 0x7d, 0x2d, 0x51, 0xb3, 0xbb, 0x52, 0xe3, 0x26, 0x6a, 0x91, 0xc8, 0xba,
         0x85, 0xe8, 0x72, 0x39, 0xc7, 0xa0, 0x3a, 0xc5, 0x92, 0xa, 0x6a, 0xfc, 0x72, 0x98, 0x46, 0xff,
         0xfd]\<rparr>,
      \<lparr>dev_eui = 0xf4ce364f4fc0e1ad, dev_pub_key =
        [0x4, 0x5e, 0x29, 0x33, 0x64, 0x12, 0x61, 0xee, 0x84, 0xa2, 0xb7, 0xbe, 0x59, 0x75, 0x7d, 0x77,
         0x6f, 0x0, 0x86, 0xe, 0xd6, 0x2d, 0x8f, 0x64, 0x2f, 0x91, 0x68, 0xd2, 0xf6, 0xc8, 0xbb, 0x79,
         0xcf, 0x8b, 0x60, 0x21, 0x53, 0x4a, 0xfb, 0xd3, 0xc7, 0x36, 0x26, 0x80, 0xe9, 0x2, 0x2e, 0x4c,
         0x70, 0xf4, 0xaa, 0xb2, 0x92, 0x23, 0x11, 0x83, 0xa8, 0xd2, 0x46, 0xe1, 0xd2, 0xd5, 0xf3, 0xf8,
         0xa7]\<rparr>,
      \<lparr>dev_eui = 0xf4ce3653e98b69f1, dev_pub_key =
        [0x4, 0xee, 0xb1, 0xc4, 0x87, 0x59, 0x2f, 0x96, 0x7a, 0x7d, 0x38, 0x9a, 0x8f, 0x71, 0x6d, 0x5a,
         0x1b, 0x98, 0xb2, 0x4a, 0x64, 0xe5, 0xd7, 0xa3, 0x40, 0x87, 0x26, 0x6d, 0x72, 0x1d, 0x64, 0xf9,
         0xad, 0x9f, 0xe2, 0xdc, 0xbc, 0x19, 0xed, 0xff, 0x9b, 0x43, 0x44, 0xaa, 0x4d, 0x7, 0x9f, 0x1a,
         0x45, 0xb6, 0x9c, 0x70, 0x38, 0xf8, 0x4b, 0xf2, 0x2f, 0x69, 0xec, 0x58, 0xa0, 0x9b, 0x92, 0x64,
         0x27]\<rparr>]"

lemma provisioned_euis:
  "map dev_eui TRUSTED_DEVICES = [0xf4ce360a4eac3643, 0xf4ce363a5c916092, 0xf4ce3696247825d1, 0xf4ce3631c30495ce, 0xf4ce364f4fc0e1ad, 0xf4ce3653e98b69f1]"
  by (simp add: TRUSTED_DEVICES_def)

lemma provisioned_distinct: "distinct (map dev_eui TRUSTED_DEVICES)"
  by (simp add: provisioned_euis)

lemma provisioned_fit: "length TRUSTED_DEVICES \<le> MAX_PEERS"
  by (simp add: TRUSTED_DEVICES_def MAX_PEERS_def)

text \<open>Every key is an uncompressed point of the curve: a leading 4 and two coordinates of 32 bytes; no key occurs twice.\<close>

lemma provisioned_keys:
  "list_all (\<lambda>dev. length (dev_pub_key dev) = 65 \<and> hd (dev_pub_key dev) = 4) TRUSTED_DEVICES"
  "distinct (map dev_pub_key TRUSTED_DEVICES)"
  by (simp_all add: TRUSTED_DEVICES_def)

text \<open>Every member of the consensus cluster is provisioned.\<close>

lemma members_provisioned: "set EXPECTED_EUIS \<subseteq> set (map dev_eui TRUSTED_DEVICES)"
  by (simp add: provisioned_euis EXPECTED_EUIS_def)

section \<open>Installing the table\<close>

definition free_slots :: "TrustedDeviceStore \<Rightarrow> nat" where
  "free_slots s = length (filter (\<lambda>p. \<not> tp_in_use p) (td_peers s))"

lemma length_filter_update:
  "i < length xs \<Longrightarrow> P (xs ! i) \<Longrightarrow> \<not> P v \<Longrightarrow> Suc (length (filter P (xs[i := v]))) = length (filter P xs)"
  by (induction xs arbitrary: i) (auto split: nat.splits simp: less_Suc_eq_0_disj)

lemma trust_peer_takes_a_slot:
  assumes "fst (psa_import_key psa Public_Key pk ks) = PSA_SUCCESS" and "0 < free_slots s" and "trust_peer psa eui pk ks s = (status, ks', s')"
  shows "status = PSA_SUCCESS \<and> Suc (free_slots s') = free_slots s"
proof -
  have "find_index (\<lambda>p. \<not> tp_in_use p) (td_peers s) \<noteq> None"
    using assms(2) by (auto simp: find_index_None_iff free_slots_def filter_empty_conv)
  then obtain i where "find_index (\<lambda>p. \<not> tp_in_use p) (td_peers s) = Some i" "i < length (td_peers s)" "\<not> tp_in_use (td_peers s ! i)"
    using find_index_SomeD by (metis not_None_eq)
  then show ?thesis
    using assms(1,3) length_filter_update [of i "td_peers s" "\<lambda>p. \<not> tp_in_use p"]
    by (auto simp: trust_peer_def free_slots_def split: prod.splits if_splits)
qed

lemma trust_peers_succeeds:
  assumes "\<forall>key ks. fst (psa_import_key psa Public_Key key ks) = PSA_SUCCESS" and "length devs \<le> free_slots s"
  shows "fst (trust_peers psa devs ks s) = PSA_SUCCESS"
  using assms(2)
proof (induction devs arbitrary: ks s)
  case (Cons dev devs)
  obtain status ks' s' where step: "trust_peer psa (dev_eui dev) (dev_pub_key dev) ks s = (status, ks', s')"
    by (cases "trust_peer psa (dev_eui dev) (dev_pub_key dev) ks s") auto
  from trust_peer_takes_a_slot [OF _ _ step] assms(1) Cons.prems have "status = PSA_SUCCESS" "length devs \<le> free_slots s'"
    by auto
  with Cons.IH step show ?case
    by simp
qed simp

text \<open>
  As long as PSA accepts the keys, a fog node that boots trusts every provisioned device, with its
  provisioned key, and so every member of its cluster.
\<close>

theorem provisioned_devices_are_trusted:
  assumes "psa_keeps_keys psa key_of" and "\<forall>key ks. fst (psa_import_key psa Public_Key key ks) = PSA_SUCCESS"
    and "td_peers s = td_peers new_store" and "trust_peers psa TRUSTED_DEVICES ks s = (status, ks', s')"
  shows "status = PSA_SUCCESS \<and>
    (\<forall>dev \<in> set TRUSTED_DEVICES. trusted_keys key_of ks' s' (dev_eui dev) = Some (Public_Key, dev_pub_key dev)) \<and>
    set EXPECTED_EUIS \<subseteq> trusted s'"
proof -
  have "free_slots s = MAX_PEERS"
    using assms(3) by (simp add: free_slots_def new_store_def no_peer_def)
  then have ok: "status = PSA_SUCCESS"
    using trust_peers_succeeds [OF assms(2), of TRUSTED_DEVICES s ks] provisioned_fit assms(4) by simp
  have "peers_ok s" "trusted s = {}"
    using assms(3) new_store_ok by (simp_all add: peers_ok_def trusted_def)
  then have keys: "\<forall>dev \<in> set TRUSTED_DEVICES. trusted_keys key_of ks' s' (dev_eui dev) = Some (Public_Key, dev_pub_key dev)"
    using trust_peers_keys [OF assms(1) _ provisioned_distinct, of s ks ks' s'] assms(4) ok by simp
  have "dev_eui dev \<in> trusted s'" if "dev \<in> set TRUSTED_DEVICES" for dev
  proof -
    have "peer_key s' (dev_eui dev) \<noteq> None"
      using keys that by (fastforce simp: trusted_keys_def bind_eq_Some_conv)
    then show ?thesis
      using dom_peer_key [of s'] by (auto simp: dom_def)
  qed
  then have "set (map dev_eui TRUSTED_DEVICES) \<subseteq> trusted s'"
    by auto
  with ok keys members_provisioned show ?thesis
    by blast
qed

end
