(* ===== verification/Start_Up.thy ===== *)
theory Start_Up
  imports Fog_Application Edge_Node Modem_Setup Coap_Utils Provisioned_Devices
begin

text \<open>
  From power-on to a running node: \<^verbatim>\<open>main.cpp\<close> of the edge and of the fog node, the
  initialisation of their applications (\<^verbatim>\<open>edge/src/edge.hpp\<close>,
  \<^verbatim>\<open>fog/src/application.hpp\<close>, \<^verbatim>\<open>fog/src/raft/engine.hpp\<close>), the storage of
  \<^verbatim>\<open>fog/src/fs/persist.hpp\<close> and \<^verbatim>\<open>edge/src/fs/sequence_persist.hpp\<close>, and the
  helpers of \<^verbatim>\<open>common/ot_utils.hpp\<close> and \<^verbatim>\<open>fog/src/utils/time_sync.h\<close>.
  What OpenThread, PSA, the modem driver and the flash report are arguments.
\<close>

section \<open>Identifiers and time\<close>

definition EUI64_LEN :: nat where [config_defs]: "EUI64_LEN = 8"

text \<open>\<open>sys_get_be64\<close>: the bytes of the address, most significant first.\<close>

definition get_eui64_as_uint64 :: "u8 list \<Rightarrow> u64" where
  "get_eui64_as_uint64 eui = foldl (\<lambda>acc b. push_bit 8 acc OR ucast b) 0 (take EUI64_LEN eui)"

definition get_eui64_as_arr8 :: "u8 list \<Rightarrow> u8 list" where
  "get_eui64_as_arr8 eui = take EUI64_LEN eui"

datatype otNetworkTimeStatus = UNSYNCHRONIZED | RESYNC_NEEDED | SYNCHRONIZED

definition get_time_us :: "otNetworkTimeStatus \<times> u64 \<Rightarrow> u64 option" where
  "get_time_us time = (let (status, network_time_us) = time in if status \<noteq> SYNCHRONIZED then None else Some network_time_us)"

section \<open>The storage\<close>

text \<open>\<open>nvs_fs\<close> as far as the code fills it in; the two sizes are 16-bit fields.\<close>

record nvs_fs =
  nv_sector_size :: u16
  nv_sector_count :: u16

text \<open>The size of a flash page, or the driver's error, and the mount of the file system.\<close>

record FlashApi =
  flash_page_size :: "int + nat"
  nvs_mount :: "nvs_fs \<Rightarrow> int"

definition persist_init :: "FlashApi \<Rightarrow> int" where
  "persist_init flash =
     (case flash_page_size flash of
        Inl ret \<Rightarrow> ret
      | Inr page \<Rightarrow> nvs_mount flash \<lparr>nv_sector_size = of_nat page, nv_sector_count = 4\<rparr>)"

text \<open>The edge node's storage is set up in the same way.\<close>

definition seq_persist_init :: "FlashApi \<Rightarrow> int" where
  "seq_persist_init flash =
     (case flash_page_size flash of
        Inl ret \<Rightarrow> ret
      | Inr page \<Rightarrow> nvs_mount flash \<lparr>nv_sector_size = of_nat page, nv_sector_count = 4\<rparr>)"

text \<open>A storage that is not mounted answers every read with an error, as an empty one does.\<close>

definition readable :: "bool \<Rightarrow> 'a option \<Rightarrow> 'a option" where
  "readable mounted nvs = (if mounted then nvs else None)"

section \<open>State changes of Thread\<close>

datatype otDeviceRole = ROLE_DISABLED | ROLE_DETACHED | ROLE_CHILD | ROLE_ROUTER | ROLE_LEADER

definition OT_CHANGED_THREAD_ROLE :: u32 where "OT_CHANGED_THREAD_ROLE = 4"

text \<open>A call of the state change handler, with what the clocks show at that moment.\<close>

record ThreadEvent =
  te_flags :: u32
  te_role :: otDeviceRole
  te_network_time :: "otNetworkTimeStatus \<times> u64"
  te_uptime_s :: u32
  te_uptime_ms :: int

definition attached :: "ThreadEvent \<Rightarrow> bool" where
  "attached ev \<longleftrightarrow> te_flags ev AND OT_CHANGED_THREAD_ROLE \<noteq> 0 \<and> te_role ev \<in> {ROLE_CHILD, ROLE_ROUTER, ROLE_LEADER}"

text \<open>
  What the handlers of both nodes promise: the first report of an attached role boots the
  application, no other report changes anything.
\<close>

locale boots_once =
  fixes handler :: "ThreadEvent \<Rightarrow> 's \<Rightarrow> 's" and initialised :: "'s \<Rightarrow> bool" and boot :: "ThreadEvent \<Rightarrow> 's \<Rightarrow> 's"
  assumes first: "attached ev \<Longrightarrow> \<not> initialised s \<Longrightarrow> handler ev s = boot ev s"
    and booted: "initialised (boot ev s)"
    and detached: "\<not> attached ev \<Longrightarrow> handler ev s = s"
    and later: "initialised s \<Longrightarrow> handler ev s = s"
begin

lemma stays_booted: "initialised s \<Longrightarrow> fold handler evs s = s"
  by (induction evs) (simp_all add: later)

lemma boots_on_first_attach:
  "\<not> initialised s \<Longrightarrow> fold handler evs s = (case List.find attached evs of None \<Rightarrow> s | Some ev \<Rightarrow> boot ev s)"
  by (induction evs) (auto simp: first detached booted stays_booted)

end

section \<open>The fog node\<close>

datatype FogTask = Tick | Discover_Peers

record ('k, 'm) FogNode =
  fn_app :: Application
  fn_trusted_devices :: TrustedDeviceStore
  fn_keys :: 'k
  fn_modem :: 'm
  fn_alert :: Alert
  fn_sensor :: SensorService
  fn_network :: NetworkService
  fn_services :: "service_config list"
  fn_resources :: "string list"
  fn_tasks :: "FogTask SimKernel"
  fn_mounted :: bool
  fn_nvs :: "RaftPersist option"

record ('k, 'm) FogPlatform =
  fp_psa :: "'k Psa"
  fp_modem :: "'m ModemApi"
  fp_flash :: FlashApi
  fp_eui :: "u8 list"
  fp_mesh_local_eid :: ip6
  fp_app_key :: string

text \<open>
  The construction of the application, on the keys, the modem and the storage the device boots with.
  The flag \<open>alert\<close> is what the member without an initialiser happens to hold.
\<close>

definition new_fog_node ::
    "('k, 'm) FogPlatform \<Rightarrow> bool \<Rightarrow> (nat \<Rightarrow> Time) \<Rightarrow> (nat \<Rightarrow> u32) \<Rightarrow> 'k \<Rightarrow> 'm \<Rightarrow> RaftPersist option \<Rightarrow> ('k, 'm) FogNode" where
  "new_fog_node pf alert uptime rand ks m nvs =
     (let eui = get_eui64_as_uint64 (fp_eui pf) in
      \<lparr>fn_app = \<lparr>app_eui = eui, app_engine = new_raft_engine eui uptime rand,
                 app_lora = new_lora_service (get_eui64_as_arr8 (fp_eui pf)) (fp_app_key pf), app_tracker = new_tracker,
                 app_vote = new_service True, app_alert_active = alert, app_alerts = []\<rparr>,
       fn_trusted_devices = new_store, fn_keys = ks, fn_modem = m, fn_alert = new_alert eui, fn_sensor = new_sensor_service,
       fn_network = new_network_service 0, fn_services = [], fn_resources = [],
       fn_tasks = \<lparr>sk_armed = (\<lambda>_. None), sk_queue = []\<rparr>, fn_mounted = False, fn_nvs = nvs\<rparr>)"

definition SENSOR_URI :: string where "SENSOR_URI = ''sensor''"
definition ALERT_URI :: string where "ALERT_URI = ''alert''"

definition add_resource :: "string \<Rightarrow> ('k, 'm) FogNode \<Rightarrow> ('k, 'm) FogNode" where
  "add_resource uri n = n\<lparr>fn_resources := fn_resources n @ [uri]\<rparr>"

definition sensor_service_init :: "('k, 'm) FogNode \<Rightarrow> ('k, 'm) FogNode" where
  "sensor_service_init = add_resource SENSOR_URI"

definition coap_server_init :: "('k, 'm) FogNode \<Rightarrow> ('k, 'm) FogNode" where
  "coap_server_init = fold add_resource
     [RAFT_REQUEST_VOTE_URI, RAFT_VOTE_REPLY_URI, RAFT_APPEND_URI, RAFT_APPEND_RESPONSE_URI, RAFT_SNAP_URI, RAFT_SNAP_RESP_URI]"

definition network_service_init :: "('k, 'm) FogPlatform \<Rightarrow> ('k, 'm) FogNode \<Rightarrow> ('k, 'm) FogNode" where
  "network_service_init pf n =
     (let eui = get_eui64_as_uint64 (fp_eui pf)
      in n\<lparr>fn_network := (fn_network n)\<lparr>ns_eui := eui\<rparr>, fn_services := fn_services n @ [local_service eui (fp_mesh_local_eid pf)]\<rparr>)"

definition engine_init :: "('k, 'm) FogPlatform \<Rightarrow> ('k, 'm) FogNode \<Rightarrow> ('k, 'm) FogNode" where
  "engine_init pf n =
     (let n = n\<lparr>fn_mounted := (persist_init (fp_flash pf) = 0)\<rparr>;
          n = coap_server_init n
      in network_service_init pf n)"

definition alert_service_init :: "('k, 'm) FogPlatform \<Rightarrow> ('k, 'm) FogNode \<Rightarrow> ('k, 'm) FogNode" where
  "alert_service_init pf n =
     (let (err, ks, a) = alert_init (fp_psa pf) (fn_keys n) (fn_alert n);
          n = n\<lparr>fn_keys := ks, fn_alert := a\<rparr>
      in add_resource ALERT_URI n)"

text \<open>The exported key is only logged; each early return leaves the rest undone.\<close>

definition app_init :: "('k, 'm) FogPlatform \<Rightarrow> ('k, 'm) FogNode \<Rightarrow> ('k, 'm) FogNode" where
  "app_init pf n =
     (let eui = get_eui64_as_uint64 (fp_eui pf);
          (err, ks, tds) = store_init (fp_psa pf) eui (fn_keys n) (fn_trusted_devices n);
          n = n\<lparr>fn_keys := ks, fn_trusted_devices := tds\<rparr>
      in if err \<noteq> PSA_SUCCESS then n
         else let (err, ks, tds) = trust_peers (fp_psa pf) TRUSTED_DEVICES (fn_keys n) (fn_trusted_devices n);
                  n = n\<lparr>fn_keys := ks, fn_trusted_devices := tds\<rparr>
              in if err \<noteq> PSA_SUCCESS then n
                 else let (started, lora, m) = lora_init (fp_modem pf) (app_lora (fn_app n)) (fn_modem n);
                          n = n\<lparr>fn_app := (fn_app n)\<lparr>app_lora := lora\<rparr>, fn_modem := m\<rparr>
                      in if \<not> started then n
                         else alert_service_init pf (engine_init pf (sensor_service_init n)))"

definition TICK :: k_timeout where "TICK = ms_to_k_timeout 100"
definition DISCOVER_TICK :: k_timeout where "DISCOVER_TICK = ms_to_k_timeout 1000"

definition raft_engine_start :: "('k, 'm) FogNode \<Rightarrow> ('k, 'm) FogNode" where
  "raft_engine_start n =
     (let e = app_engine (fn_app n);
          e = e\<lparr>en_server := engine_start (readable (fn_mounted n) (fn_nvs n)) (en_server e)\<rparr>;
          n = n\<lparr>fn_app := (fn_app n)\<lparr>app_engine := e\<rparr>\<rparr>;
          n = n\<lparr>fn_tasks := task_start sim_kernel Tick TICK (fn_tasks n)\<rparr>
      in n\<lparr>fn_tasks := task_start sim_kernel Discover_Peers DISCOVER_TICK (fn_tasks n)\<rparr>)"

definition raft_engine_stop :: "('k, 'm) FogNode \<Rightarrow> ('k, 'm) FogNode" where
  "raft_engine_stop n = n\<lparr>fn_tasks := task_stop sim_kernel Tick (fn_tasks n)\<rparr>"

definition app_start :: "u64 option \<Rightarrow> ('k, 'm) FogNode \<Rightarrow> ('k, 'm) FogNode" where
  "app_start now n = raft_engine_start (n\<lparr>fn_app := (fn_app n)\<lparr>app_vote := vs_start now (app_vote (fn_app n))\<rparr>\<rparr>)"

definition app_stop :: "('k, 'm) FogNode \<Rightarrow> ('k, 'm) FogNode" where
  "app_stop n = n\<lparr>fn_app := (fn_app n)\<lparr>app_lora := lora_stop (app_lora (fn_app n))\<rparr>\<rparr>"

text \<open>The functions of the two periodic tasks; the network data of a scan is an argument.\<close>

fun fog_task :: "(service_config \<times> int) list \<Rightarrow> int \<Rightarrow> FogTask \<Rightarrow> ('k, 'm) FogNode \<Rightarrow> ('k, 'm) FogNode" where
  "fog_task services now Tick n =
     (let e = app_engine (fn_app n) in n\<lparr>fn_app := (fn_app n)\<lparr>app_engine := e\<lparr>en_server := periodic (en_server e)\<rparr>\<rparr>\<rparr>)"
| "fog_task services now Discover_Peers n = n\<lparr>fn_network := discover_peers services now (fn_network n)\<rparr>"

record ('k, 'm) FogMain =
  fog_initialised :: bool
  fog_app :: "('k, 'm) FogNode"

text \<open>The clock the vote service is given: network time, or the uptime.\<close>

definition event_clock :: "ThreadEvent \<Rightarrow> u64 option" where
  "event_clock ev = app_clock (get_time_us (te_network_time ev)) (te_uptime_s ev)"

definition fog_on_thread_state_changed :: "('k, 'm) FogPlatform \<Rightarrow> ThreadEvent \<Rightarrow> ('k, 'm) FogMain \<Rightarrow> ('k, 'm) FogMain" where
  "fog_on_thread_state_changed pf ev s =
     (if te_flags ev AND OT_CHANGED_THREAD_ROLE \<noteq> 0
      then if te_role ev = ROLE_CHILD \<or> te_role ev = ROLE_ROUTER \<or> te_role ev = ROLE_LEADER
           then if \<not> fog_initialised s
                then let s = s\<lparr>fog_app := app_init pf (fog_app s)\<rparr>;
                         s = s\<lparr>fog_app := app_start (event_clock ev) (fog_app s)\<rparr>
                     in s\<lparr>fog_initialised := True\<rparr>
                else s
           else s
      else s)"

text \<open>
  \<open>main\<close>: the error of the CoAP start, or the application under the registered handler. The result of
  \<open>psa_crypto_init\<close> is not looked at.
\<close>

definition fog_main :: "'s Ot \<Rightarrow> ('k, 'm) FogNode \<Rightarrow> 's \<Rightarrow> (errno + ('k, 'm) FogMain) \<times> 's" where
  "fog_main ot app s =
     (let (ret, s) = coap_init ot s in
      case ret of Inl e \<Rightarrow> (Inl e, s) | Inr _ \<Rightarrow> (Inr \<lparr>fog_initialised = False, fog_app = app\<rparr>, s))"

section \<open>The edge node\<close>

record 'k EdgeNode =
  ed_coap :: CoapService
  ed_mounted :: bool
  ed_keys :: 'k
  ed_alert_handler :: Alert
  ed_alert :: AlertPacket
  ed_cycle :: SensorCycle
  ed_resources :: "string list"

record 'k EdgePlatform =
  ep_psa :: "'k Psa"
  ep_flash :: FlashApi
  ep_pins_ready :: "bool \<times> bool \<times> bool"
  ep_callback_added :: bool

text \<open>
  \<open>Edge::init\<close> with the initialisation of its sender, its alert handler and its driver. A storage that
  could not be mounted is read as empty, and what is saved to it is lost. The failure of the driver is
  only logged.
\<close>

definition edge_init :: "'k EdgePlatform \<Rightarrow> int \<Rightarrow> 'k EdgeNode \<Rightarrow> 'k EdgeNode" where
  "edge_init pf now n =
     (let mounted = (seq_persist_init (ep_flash pf) = 0);
          (ks, coap) = coap_service_init (ep_psa pf) (ed_keys n) ((ed_coap n)\<lparr>cs_nvs := readable mounted (cs_nvs (ed_coap n))\<rparr>);
          n = n\<lparr>ed_coap := coap, ed_mounted := mounted, ed_keys := ks\<rparr>;
          (err, ks, al) = alert_init (ep_psa pf) (ed_keys n) (ed_alert_handler n);
          n = n\<lparr>ed_keys := ks, ed_alert_handler := al, ed_resources := ed_resources n @ [ALERT_URI]\<rparr>;
          (pwr, trig, echo) = ep_pins_ready pf;
          (ready, d) = driver_init pwr trig echo (ep_callback_added pf) (sc_jsn (ed_cycle n));
          n = n\<lparr>ed_cycle := (ed_cycle n)\<lparr>sc_jsn := d\<rparr>\<rparr>
      in n\<lparr>ed_cycle := cycle_start (sleep_interval_ms (ed_alert n)) now now (ed_cycle n)\<rparr>)"

record 'k EdgeMain =
  edge_initialised :: bool
  edge_app :: "'k EdgeNode"

definition edge_on_thread_state_changed :: "'k EdgePlatform \<Rightarrow> ThreadEvent \<Rightarrow> 'k EdgeMain \<Rightarrow> 'k EdgeMain" where
  "edge_on_thread_state_changed pf ev s =
     (if te_flags ev AND OT_CHANGED_THREAD_ROLE \<noteq> 0
      then if te_role ev = ROLE_CHILD \<or> te_role ev = ROLE_ROUTER \<or> te_role ev = ROLE_LEADER
           then if \<not> edge_initialised s
                then let s = s\<lparr>edge_app := edge_init pf (te_uptime_ms ev) (edge_app s)\<rparr> in s\<lparr>edge_initialised := True\<rparr>
                else s
           else s
      else s)"

definition CSL_PERIOD_US :: u32 where [config_defs]: "CSL_PERIOD_US = 30000000"
definition CSL_TIMEOUT_S :: u32 where [config_defs]: "CSL_TIMEOUT_S = 20"

record 's LinkApi =
  otLinkSetPollPeriod :: "u32 \<Rightarrow> 's \<Rightarrow> ot_error \<times> 's"
  otLinkSetCslPeriod :: "u32 \<Rightarrow> 's \<Rightarrow> ot_error \<times> 's"
  otLinkSetCslTimeout :: "u32 \<Rightarrow> 's \<Rightarrow> ot_error \<times> 's"

definition csl_setup :: "'s LinkApi \<Rightarrow> 's \<Rightarrow> int \<times> 's" where
  "csl_setup link s =
     (let (err, s) = otLinkSetPollPeriod link 0 s in
      if err \<noteq> OT_ERROR_NONE then (- 1, s)
      else let (err, s) = otLinkSetCslPeriod link CSL_PERIOD_US s in
        if err \<noteq> OT_ERROR_NONE then (- 1, s)
        else let (err, s) = otLinkSetCslTimeout link CSL_TIMEOUT_S s in
          if err \<noteq> OT_ERROR_NONE then (- 1, s) else (0, s))"

datatype edge_exit = Coap_Failed errno | Csl_Failed int

definition edge_main :: "'s Ot \<Rightarrow> 's LinkApi \<Rightarrow> 'k EdgeNode \<Rightarrow> 's \<Rightarrow> (edge_exit + 'k EdgeMain) \<times> 's" where
  "edge_main ot link app s =
     (let (ret, s) = coap_init ot s in
      case ret of
        Inl e \<Rightarrow> (Inl (Coap_Failed e), s)
      | Inr _ \<Rightarrow>
          let (err, s) = csl_setup link s in
          if err \<noteq> 0 then (Inl (Csl_Failed err), s)
          else (Inr \<lparr>edge_initialised = False, edge_app = app\<rparr>, s))"

section \<open>Identifiers are distinct\<close>

lemma bit_u8_beyond: "8 \<le> n \<Longrightarrow> \<not> bit (w :: u8) n"
  using bit_imp_le_length [of w n] by auto

lemma eui64_bytes:
  "get_eui64_as_uint64 [a, b, c, d, e, f, g, h] = (w :: u64) \<Longrightarrow>
   [a, b, c, d, e, f, g, h] = map (\<lambda>i. ucast (drop_bit (8 * i) w)) [7, 6, 5, 4, 3, 2, 1, 0]"
  unfolding get_eui64_as_uint64_def EUI64_LEN_def
  by (auto intro!: bit_word_eqI simp: bit_simps bit_u8_beyond)

text \<open>Two boards with different addresses are different members of the cluster.\<close>

lemma eui64_distinct:
  assumes "length x = EUI64_LEN" and "length y = EUI64_LEN" and "get_eui64_as_uint64 x = get_eui64_as_uint64 y"
  shows "x = y"
proof -
  have "\<exists>a b c d e f g h. z = [a, b, c, d, e, f, g, h]" if "length z = 8" for z :: "u8 list"
    using that by (auto simp: numeral_eq_Suc length_Suc_conv)
  then obtain a b c d e f g h a' b' c' d' e' f' g' h' where "x = [a, b, c, d, e, f, g, h]" "y = [a', b', c', d', e', f', g', h']"
    using assms(1,2) by (metis EUI64_LEN_def)
  with assms(3) eui64_bytes show ?thesis
    by metis
qed

section \<open>Booting\<close>

interpretation fog: boots_once "fog_on_thread_state_changed pf" fog_initialised
    "\<lambda>ev s. \<lparr>fog_initialised = True, fog_app = app_start (event_clock ev) (app_init pf (fog_app s))\<rparr>" for pf
  by unfold_locales (auto simp: fog_on_thread_state_changed_def attached_def Let_def)

interpretation edge: boots_once "edge_on_thread_state_changed pf" edge_initialised
    "\<lambda>ev s. \<lparr>edge_initialised = True, edge_app = edge_init pf (te_uptime_ms ev) (edge_app s)\<rparr>" for pf
  by unfold_locales (auto simp: edge_on_thread_state_changed_def attached_def Let_def)

lemma fold_add_resource: "fold add_resource uris n = n\<lparr>fn_resources := fn_resources n @ uris\<rparr>"
  by (induction uris arbitrary: n) (simp_all add: add_resource_def)

lemmas fog_init_defs = sensor_service_init_def engine_init_def coap_server_init_def network_service_init_def alert_service_init_def
  fold_add_resource add_resource_def

text \<open>Starting touches neither resources, keys nor the sender.\<close>

lemma app_start_frame:
  "fn_resources (app_start now n) = fn_resources n" "app_lora (fn_app (app_start now n)) = app_lora (fn_app n)"
  "fn_services (app_start now n) = fn_services n" "fn_trusted_devices (app_start now n) = fn_trusted_devices n"
  "en_server (app_engine (fn_app (app_start now n))) = engine_start (readable (fn_mounted n) (fn_nvs n)) (en_server (app_engine (fn_app n)))"
  "vs_armed (app_vote (fn_app (app_start now n)))"
  by (simp_all add: app_start_def raft_engine_start_def vs_start_def one_shot_def Let_def)

lemma app_start_tasks:
  "sk_armed (fn_tasks (app_start now n)) Tick = Some (TICK, TICK)"
  "sk_armed (fn_tasks (app_start now n)) Discover_Peers = Some (DISCOVER_TICK, DISCOVER_TICK)"
  by (simp_all add: app_start_def raft_engine_start_def task_start_def sim.timer_start Let_def)

lemma engine_start_server:
  "m_running (engine_start nvs s)" "m_state (engine_start nvs s) = FOLLOWER"
  "m_current_term (engine_start nvs s) = rp_term (load nvs)" "m_voted_for (engine_start nvs s) = rp_voted_for (load nvs)"
  by (simp_all add: engine_start_def start_def restore_state_def set_state_def reset_election_timer_def now_called_def rand_called_def call_if_def
      record_event_def Let_def split: option.splits)

section \<open>Properties\<close>

text \<open>
  C39. However often the node leaves and joins the Thread network, and whatever else OpenThread reports,
  the application is initialised and started exactly once, at the first report of an attached role, and
  not before: this holds of the fog node and of the edge node.
\<close>

theorem nodes_boot_once:
  "fold (fog_on_thread_state_changed pf) evs \<lparr>fog_initialised = False, fog_app = n\<rparr> =
     (case List.find attached evs of
        None \<Rightarrow> \<lparr>fog_initialised = False, fog_app = n\<rparr>
      | Some ev \<Rightarrow> \<lparr>fog_initialised = True, fog_app = app_start (event_clock ev) (app_init pf n)\<rparr>) \<and>
   fold (edge_on_thread_state_changed pe) evs \<lparr>edge_initialised = False, edge_app = e\<rparr> =
     (case List.find attached evs of
        None \<Rightarrow> \<lparr>edge_initialised = False, edge_app = e\<rparr>
      | Some ev \<Rightarrow> \<lparr>edge_initialised = True, edge_app = edge_init pe (te_uptime_ms ev) e\<rparr>)"
  using fog.boots_on_first_attach [of "\<lparr>fog_initialised = False, fog_app = n\<rparr>" pf evs]
    edge.boots_on_first_attach [of "\<lparr>edge_initialised = False, edge_app = e\<rparr>" pe evs]
  by (simp split: option.split)

text \<open>The resources of a fog node in the order of their registration.\<close>

definition fog_uris :: "string list" where
  "fog_uris = [SENSOR_URI, RAFT_REQUEST_VOTE_URI, RAFT_VOTE_REPLY_URI, RAFT_APPEND_URI, RAFT_APPEND_RESPONSE_URI, RAFT_SNAP_URI,
     RAFT_SNAP_RESP_URI, ALERT_URI]"

lemma distinct_fog_uris: "distinct fog_uris"
  by (simp add: fog_uris_def uri_defs SENSOR_URI_def ALERT_URI_def)


definition demo_modem :: "unit ModemApi" where
  "demo_modem = \<lparr>device_is_ready = (\<lambda>_. True), modem_backend_uart_init = (\<lambda>_ m. (True, m)), modem_chat_init = (\<lambda>_ m. (0, m)),
     modem_chat_script_setup = (\<lambda>_ m. m), modem_pipe_open = (\<lambda>_ m. (0, m)), modem_chat_attach = (\<lambda>m. (0, m))\<rparr>"

definition demo_platform :: "((key_type \<times> bytes) list, unit) FogPlatform" where
  "demo_platform = \<lparr>fp_psa = demo_psa\<lparr>psa_import_key := \<lambda>kind key ks. (0, of_nat (length ks), ks @ [(kind, key)])\<rparr>, fp_modem = demo_modem, fp_flash = \<lparr>flash_page_size = Inr 4096, nvs_mount = (\<lambda>_. 0)\<rparr>,
     fp_eui = [0, 0, 0, 0, 0, 0, 0, 7], fp_mesh_local_eid = replicate 16 1, fp_app_key = ''key''\<rparr>"


section \<open>Limits\<close>

text \<open>
  A node whose key store, trust list or modem fails is started all the same: its server runs and its
  timers tick, though no resource was registered and no peer can reach it.
\<close>

lemma failed_init_is_started:
  assumes "store_init (fp_psa pf) (get_eui64_as_uint64 (fp_eui pf)) ks new_store = (err, ks1, tds1)" and "err \<noteq> PSA_SUCCESS"
    and "n = app_start now (app_init pf (new_fog_node pf alert uptime rand ks m nvs))"
  shows "fn_resources n = [] \<and> fn_services n = [] \<and> \<not> ls_running (app_lora (fn_app n)) \<and>
    m_running (en_server (app_engine (fn_app n))) \<and> sk_armed (fn_tasks n) Tick = Some (TICK, TICK)"
  unfolding assms(3) app_start_frame app_start_tasks
  using assms(1,2) by (simp add: app_init_def new_fog_node_def new_lora_service_def engine_start_server Let_def)

text \<open>The storage was mounted or not, a fog node starts; without it the term and the vote of earlier lives are forgotten.\<close>

lemma unmounted_storage_forgets:
  assumes "persist_init (fp_flash pf) \<noteq> 0"
  shows "m_current_term (en_server (app_engine (fn_app (app_start now (n\<lparr>fn_mounted := (persist_init (fp_flash pf) = 0)\<rparr>))))) = 0"
  using assms by (simp add: app_start_frame engine_start_server readable_def load_def)

text \<open>An edge node whose driver did not come up starts its measurement cycle.\<close>

lemma edge_starts_without_sensor:
  assumes "\<not> (\<exists>trig echo. ep_pins_ready pf = (True, trig, echo))" and "sc_sleep (ed_cycle n) = None"
  shows "sc_sleep (ed_cycle (edge_init pf now n)) \<noteq> None"
  using assms by (simp add: edge_init_def cycle_start_def schedule_sleep_from_def timer_one_shot_def split_beta Let_def)

text \<open>The stop of the application ends the uplink thread and leaves the server ticking.\<close>

lemma app_stop_leaves_raft:
  "\<not> ls_running (app_lora (fn_app (app_stop n)))" "app_engine (fn_app (app_stop n)) = app_engine (fn_app n)"
  "fn_tasks (app_stop n) = fn_tasks n" "sk_armed (fn_tasks (raft_engine_stop n)) Tick = None"
  by (simp_all add: app_stop_def lora_stop_def raft_engine_stop_def task_stop_def sim.timer_stop Let_def)

text \<open>Nothing runs unless CoAP started, and on the edge node the sleepy link was configured.\<close>

lemma main_needs_network:
  "fst (fog_main ot n s) = Inr x \<Longrightarrow> fst (coap_init ot s) = Inr () \<and> \<not> fog_initialised x"
  "fst (edge_main ot link e s) = Inr y \<Longrightarrow>
     fst (coap_init ot s) = Inr () \<and> fst (csl_setup link (snd (coap_init ot s))) = 0 \<and> \<not> edge_initialised y"
  by (auto simp: fog_main_def edge_main_def split: prod.splits sum.splits if_splits)

end
