(* ===== verification/Fault_Injection.thy ===== *)
theory Fault_Injection
  imports Edge_Node Lora_Service Memory_Image
begin

text \<open>
  The build with fault injection (\<^verbatim>\<open>CONFIG_ENABLE_FAULT_INJECTION\<close>):
  \<^verbatim>\<open>edge/src/fault_injection/fault_injection.hpp\<close> and
  \<^verbatim>\<open>fog/src/fault_injection/fault_injection.hpp\<close> keep the last fault a test harness asked
  for, and the conditional parts of \<^verbatim>\<open>edge/src/sensor/sensor_coap.hpp\<close>,
  \<^verbatim>\<open>fog/src/lorawan/join.hpp\<close> and \<^verbatim>\<open>fog/src/lorawan/service.hpp\<close> act on it.
  The theorems compare this build with the deployed one, and show what the fog node makes of the faults.
\<close>

section \<open>Faults of an edge node\<close>

record FaultMessage =
  fm_bad_reading :: SensorReadingWire
  fm_active :: bool
  fm_ruin_hash :: bool

definition no_fault :: FaultMessage where
  "no_fault = \<lparr>fm_bad_reading = zero_wire, fm_active = False, fm_ruin_hash = False\<rparr>"

definition FAULT_URI :: string where "FAULT_URI = ''edge_fault''"

text \<open>\<open>init\<close> adds the resource to those the CoAP server answers on.\<close>

definition fault_init :: "string list \<Rightarrow> string list" where
  "fault_init resources = resources @ [FAULT_URI]"

definition SIZEOF_FAULT :: nat where [config_defs]: "SIZEOF_FAULT = 32"

definition store_fault :: "u8 list \<Rightarrow> FaultMessage \<Rightarrow> u8 list" where
  "store_fault pad f = store_wire (fm_bad_reading f) @ [bool_byte (fm_active f)] @ [bool_byte (fm_ruin_hash f)] @ pad"

definition load_fault :: "u8 list \<Rightarrow> FaultMessage" where
  "load_fault b = \<lparr>fm_bad_reading = load_wire b 0, fm_active = (b ! 24 \<noteq> 0), fm_ruin_hash = (b ! 25 \<noteq> 0)\<rparr>"

interpretation edge_fault: memory_image store_fault load_fault "\<lambda>pad _. length pad = 6" SIZEOF_FAULT
proof unfold_locales
  fix pad rest :: "u8 list" and f
  assume pad: "length pad = 6"
  then show "length (store_fault pad f) = SIZEOF_FAULT"
    by (simp add: store_fault_def SIZEOF_FAULT_def)
  show "load_fault (store_fault pad f @ rest) = f"
    using load_store_wire [of "[]" "fm_bad_reading f"] by (simp add: store_fault_def load_fault_def nth_append)
qed

text \<open>The object keeps the last message; the lock makes each access one step.\<close>

definition get_fault :: "FaultMessage \<Rightarrow> FaultMessage" where
  "get_fault m_message = m_message"

definition on_message :: "FaultMessage \<Rightarrow> FaultMessage \<Rightarrow> FaultMessage" where
  "on_message msg m_message = msg"

text \<open>
  The handler of the resource; \<open>data\<close> is what \<open>coap_get_data\<close> finds, a longer one is an error there.
  The flag tells whether a response is sent.
\<close>

definition fault_request_handler :: "u8 list \<Rightarrow> FaultMessage \<Rightarrow> bool \<times> FaultMessage" where
  "fault_request_handler data m_message =
     (if length data \<noteq> SIZEOF_FAULT then (False, m_message) else (True, on_message (load_fault data) m_message))"

definition send_sensor_data_fault ::
    "'k Psa \<Rightarrow> (SensorReadingWire \<Rightarrow> bytes) \<Rightarrow> FaultMessage \<Rightarrow> SensorReading \<Rightarrow> 'k \<Rightarrow> CoapService \<Rightarrow>
     (int + SensorReadingSigned) \<times> CoapService" where
  "send_sensor_data_fault psa layout m_message reading ks s =
     (let to_wire = \<lparr>w_eui = cs_eui s, w_timestamp = 0, w_water_level_mm = sr_water_level reading,
                     w_validity = sr_validity reading, w_detail = sr_detail reading, w_seq = cs_seq_id s\<rparr>;
          fault_message = get_fault m_message;
          to_wire = (if fm_active fault_message
                     then let bad = fm_bad_reading fault_message
                          in to_wire\<lparr>w_water_level_mm := w_water_level_mm bad, w_validity := w_validity bad,
                               w_detail := w_detail bad, w_seq := if w_seq bad \<noteq> 0 then w_seq bad else w_seq to_wire\<rparr>
                     else to_wire)
      in case sign psa ks (cs_devices s) (layout to_wire) of
           Inl _ \<Rightarrow> (Inl (- 1), s)
         | Inr sig \<Rightarrow>
             let to_wire = (if fm_active fault_message \<and> fm_ruin_hash fault_message
                            then to_wire\<lparr>w_water_level_mm := NOT (w_water_level_mm to_wire)\<rparr> else to_wire);
                 signed_reading = \<lparr>sg_reading = to_wire, sg_signature = sig\<rparr>;
                 s = s\<lparr>cs_seq_id := cs_seq_id s + 1\<rparr>;
                 s = (if cs_seq_id s mod SEQ_STEP = 0 then s\<lparr>cs_nvs := seq_save (cs_seq_id s) (cs_nvs s)\<rparr> else s)
             in (Inr signed_reading, s))"

section \<open>Faults of a fog node\<close>

record FogFaultMessage =
  ff_sleep_time_ms :: u32
  ff_pause_egress :: bool

definition no_fog_fault :: FogFaultMessage where
  "no_fog_fault = \<lparr>ff_sleep_time_ms = 0, ff_pause_egress = False\<rparr>"

definition FOG_FAULT_URI :: string where "FOG_FAULT_URI = ''fog_fault''"

definition fog_fault_init :: "string list \<Rightarrow> string list" where
  "fog_fault_init resources = resources @ [FOG_FAULT_URI]"

definition SIZEOF_FOG_FAULT :: nat where [config_defs]: "SIZEOF_FOG_FAULT = 8"

definition store_fog_fault :: "u8 list \<Rightarrow> FogFaultMessage \<Rightarrow> u8 list" where
  "store_fog_fault pad f = le32 (ff_sleep_time_ms f) @ [bool_byte (ff_pause_egress f)] @ pad"

definition load_fog_fault :: "u8 list \<Rightarrow> FogFaultMessage" where
  "load_fog_fault b = \<lparr>ff_sleep_time_ms = rdU32LE b 0, ff_pause_egress = (b ! 4 \<noteq> 0)\<rparr>"

interpretation fog_fault: memory_image store_fog_fault load_fog_fault "\<lambda>pad _. length pad = 3" SIZEOF_FOG_FAULT
  by unfold_locales (simp_all add: store_fog_fault_def load_fog_fault_def rd_numeral SIZEOF_FOG_FAULT_def)

definition clear_fault :: "FogFaultMessage \<Rightarrow> FogFaultMessage" where
  "clear_fault m_message = no_fog_fault"

definition fog_get_fault :: "FogFaultMessage \<Rightarrow> FogFaultMessage" where
  "fog_get_fault m_message = m_message"

definition fog_on_message :: "FogFaultMessage \<Rightarrow> FogFaultMessage \<Rightarrow> FogFaultMessage" where
  "fog_on_message msg m_message = msg"

definition fog_fault_request_handler :: "u8 list \<Rightarrow> FogFaultMessage \<Rightarrow> bool \<times> FogFaultMessage" where
  "fog_fault_request_handler data m_message =
     (if length data \<noteq> SIZEOF_FOG_FAULT then (False, m_message) else (True, fog_on_message (load_fog_fault data) m_message))"

text \<open>
  Between the answer of the module and the report of the completion the thread sleeps; the argument of
  \<open>k_msleep\<close>, a signed number of milliseconds, is part of the result.
\<close>

definition ship_payload_fault ::
    "'m chat \<Rightarrow> LoraPayload \<Rightarrow> FogFaultMessage \<Rightarrow> LoraWanService \<Rightarrow> 'm \<Rightarrow> bool \<times> int option \<times> FogFaultMessage \<times> LoraWanService \<times> 'm" where
  "ship_payload_fault chat p m_message s m =
     (case build_uplink p BUFFER_SIZE of
        None \<Rightarrow> (False, None, m_message, s, m)
      | Some command \<Rightarrow>
          let ((res, downlink), m) = cmd chat command ''+MSGHEX: Done'' DEFAULT_MS BUFFER_SIZE m in
          if res = MATCHED
          then let fault = fog_get_fault m_message;
                   (slept, m_message) = (if ff_pause_egress fault then (Some (sint (ff_sleep_time_ms fault)), clear_fault m_message)
                                         else (None, m_message))
               in (True, slept, m_message,
                   s\<lparr>ls_completed := ls_completed s @ [(lp_sequence p, ucast (lp_raft_log_index p))]\<rparr>, m)
          else let s = (if res = NOT_JOINED then s\<lparr>ls_joined := False\<rparr> else s);
                   (_, s) = try_put p s
               in (False, None, m_message, s, m))"

text \<open>The set-up of this build ends with two commands that lift the duty cycle limits.\<close>

definition setup_commands_fault :: "string \<Rightarrow> string \<Rightarrow> E5Cmd list" where
  "setup_commands_fault eui app_key = setup_commands eui app_key @
     [\<lparr>e5_cmd = ''AT+LW=DC, OFF'', e5_arg = [], e5_rsp = ''+LW: DC, OFF, 0'', e5_timeout = SHORT_MS\<rparr>,
      \<lparr>e5_cmd = ''AT+LW=JDC, OFF'', e5_arg = [], e5_rsp = ''+LW: JDC, OFF'', e5_timeout = SHORT_MS\<rparr>]"

definition run_join_fault :: "'m chat \<Rightarrow> u8 list \<Rightarrow> string \<Rightarrow> nat \<Rightarrow> 'm \<Rightarrow> (bool \<times> 'm) option" where
  "run_join_fault chat eui app_key scratch_size m =
     do {
       (setup, m) \<leftarrow> run_setup chat scratch_size (setup_commands_fault (eui_hex eui) app_key) m;
       if \<not> setup then Some (False, m)
       else let (joined, m) = modem_ok chat ''AT+JOIN'' ''+JOIN: Network joined'' LONG_MS m in
            if joined then Some (True, m)
            else Some (modem_ok chat ''AT+JOIN=FORCE'' ''+JOIN: Network joined'' LONG_MS m)
     }"

section \<open>A reading on its way\<close>

text \<open>
  The request of an edge node carries the bytes of the signed reading; the handler of the fog node
  unpacks the same reading from them, and a request of any other length changes nothing.
\<close>

lemma signed_reading_travels:
  "length (sg_signature m) = 64 \<Longrightarrow>
     sensor_request_handler vf load_signed SIZEOF_SIGNED now (store_signed [] m) srv = on_reading vf now m srv"
  "length b \<noteq> SIZEOF_SIGNED \<Longrightarrow> sensor_request_handler vf load_signed SIZEOF_SIGNED now b srv = (None, srv)"
  using signed.length_store [of m "[]"] signed.load_store [of m "[]" "[]"] by (simp_all add: sensor_request_handler_def)

section \<open>What the handlers keep\<close>

text \<open>A fault sent as its bytes is the fault that is active afterwards; anything else changes nothing.\<close>

lemma fault_request_stores:
  "length pad = 6 \<Longrightarrow> fault_request_handler (store_fault pad f) m = (True, f)"
  "length b \<noteq> SIZEOF_FAULT \<Longrightarrow> fault_request_handler b m = (False, m)"
  using edge_fault.length_store [of pad f] edge_fault.load_store [of pad f "[]"]
  by (simp_all add: fault_request_handler_def on_message_def)

lemma fog_fault_request_stores:
  "length pad = 3 \<Longrightarrow> fog_fault_request_handler (store_fog_fault pad g) m = (True, g)"
  "length b \<noteq> SIZEOF_FOG_FAULT \<Longrightarrow> fog_fault_request_handler b m = (False, m)"
  using fog_fault.length_store [of pad g] fog_fault.load_store [of pad g "[]"]
  by (simp_all add: fog_fault_request_handler_def fog_on_message_def)

text \<open>A pause changes neither the report nor the service, and the next payload is not paused.\<close>

lemma pause_happens_once:
  assumes "ship_payload_fault chat p f s m = (sent, Some ms, f', s', m')"
  shows "sent \<and> ff_pause_egress f \<and> f' = no_fog_fault \<and> ship_payload chat p s m = (True, s', m')"
  using assms
  by (auto simp: ship_payload_fault_def ship_payload_def clear_fault_def fog_get_fault_def Let_def split: option.splits prod.splits if_splits)

lemma run_setup_append:
  "run_setup chat n (cs @ ds) m = Option.bind (run_setup chat n cs m) (\<lambda>(setup, m). if setup then run_setup chat n ds m else Some (False, m))"
  by (induction cs arbitrary: m) (auto simp: Let_def split: prod.splits Option.bind_split)

text \<open>The longer set-up stays inside the scratch buffer as well.\<close>

lemma run_join_fault_total:
  assumes "length eui = 8" and "length app_key \<le> 32"
  shows "\<exists>r. run_join_fault chat eui app_key SCRATCH_BUFFER_SIZE m = Some r"
proof -
  have "\<exists>r. run_setup chat SCRATCH_BUFFER_SIZE (setup_commands_fault (eui_hex eui) app_key) m = Some r"
    by (rule run_setup_total) (use assms in \<open>simp add: setup_commands_fault_def setup_commands_def eui_hex_def SCRATCH_BUFFER_SIZE_def\<close>)
  then show ?thesis
    by (auto simp: run_join_fault_def Let_def split: prod.splits)
qed

lemma not_neq: "NOT (a :: u16) \<noteq> a"
proof
  assume "NOT a = a"
  then have "bit (NOT a) 0 = bit a 0"
    by simp
  then show False
    by (simp add: bit_not_iff)
qed

section \<open>Properties\<close>

text \<open>
  C40. While no fault is active the build with fault injection does what the deployed build does: the
  edge node signs, numbers and sends the same readings, and the fog node ships a payload with the same
  outcome, without a pause.
\<close>

theorem no_fault_no_difference:
  assumes "\<not> fm_active f" and "\<not> ff_pause_egress g"
  shows "send_sensor_data_fault psa layout f reading ks s = send_sensor_data psa layout reading ks s \<and>
    ship_payload_fault chat p g srv m = (case ship_payload chat p srv m of (sent, srv', m') \<Rightarrow> (sent, None, g, srv', m'))"
proof
  show "send_sensor_data_fault psa layout f reading ks s = send_sensor_data psa layout reading ks s"
    using assms(1) by (simp add: send_sensor_data_fault_def send_sensor_data_def get_fault_def Let_def split: sum.splits)
  show "ship_payload_fault chat p g srv m = (case ship_payload chat p srv m of (sent, srv', m') \<Rightarrow> (sent, None, g, srv', m'))"
    using assms(2) by (simp add: ship_payload_fault_def ship_payload_def fog_get_fault_def Let_def split: option.splits prod.splits)
qed

theorem no_fault_no_difference_witness:
  "send_sensor_data_fault demo_psa store_wire no_fault demo_reading [] (new_coap_service 7 None) =
   send_sensor_data demo_psa store_wire demo_reading [] (new_coap_service 7 None)"
  using no_fault_no_difference [of no_fault no_fog_fault demo_psa store_wire demo_reading "[]" "new_coap_service 7 None"
      "\<lambda>_ _ _ _ m. (\<lparr>cr_ret = 0, cr_abort = None, cr_downlinks = []\<rparr>, m)" zero_payload "new_lora_service [] []" "()"]
  by (simp add: no_fault_def no_fog_fault_def)


definition demo_fault :: FaultMessage where
  "demo_fault = \<lparr>fm_bad_reading = zero_wire\<lparr>w_water_level_mm := 4000, w_seq := 5\<rparr>, fm_active = True, fm_ruin_hash = True\<rparr>"

definition demo_edge :: CoapService where
  "demo_edge = (new_coap_service 7 None)\<lparr>cs_devices := demo_signer\<rparr>"

lemma demo_edge_sends:
  "\<exists>msg s'. send_sensor_data_fault demo_psa store_wire demo_fault demo_reading [(Key_Pair, eui_bytes 7)] demo_edge = (Inr msg, s')"
proof -
  have "td_my_key_id demo_signer = 0"
    by (simp add: demo_signer_def demo_psa_def store_init_def derive_identity_seed_def PSA_SUCCESS_def new_store_def)
  then have "sign demo_psa [(Key_Pair, eui_bytes 7)] demo_signer b = Inr (b @ eui_bytes 7)" for b
    by (simp add: demo_psa_def sign_def compute_digest_def PSA_SUCCESS_def)
  then show ?thesis
    by (simp add: send_sensor_data_fault_def demo_edge_def Let_def)
qed


end
