(* ===== verification/Raft_Entries.thy ===== *)
theory Raft_Entries
  imports Raft_Replication
begin

text \<open>
  Entries across the cluster. An entry is known to a node if it stands in the node's log, was ever
  sent by it in an AppendEntries, or was ever handed to its state machine. Every entry point of the
  server is shown to add at most one entry nobody sent it, and only in the role of leader: it
  follows that in a cluster an index and a term determine the entry.
\<close>

section \<open>The entries a node knows\<close>

fun event_entries :: "Event \<Rightarrow> Entry set" where
  "event_entries (EvApply e) = {e}"
| "event_entries (EvSend msg) = (case msg_payload msg of PAppendEntries ae \<Rightarrow> set (view ae) | _ \<Rightarrow> {})"
| "event_entries _ = {}"

text \<open>The entries of a message carry the indices that follow its previous one.\<close>

definition ae_aligned :: "AppendEntries \<Rightarrow> bool" where
  "ae_aligned ae \<longleftrightarrow>
     map e_index (view ae) = map (\<lambda>k. ae_prev_log_index ae + 1 + of_nat k) [0..<length (view ae)]"

fun event_ok :: "Event \<Rightarrow> bool" where
  "event_ok (EvSend msg) = (case msg_payload msg of PAppendEntries ae \<Rightarrow> ae_aligned ae | _ \<Rightarrow> True)"
| "event_ok _ = True"

definition heard :: "Server \<Rightarrow> Entry set" where
  "heard s = \<Union> (event_entries ` set (io_events s))"

definition tidy :: "Server \<Rightarrow> bool" where
  "tidy s \<longleftrightarrow> list_all event_ok (io_events s)"

definition known :: "Server \<Rightarrow> Entry set" where
  "known s = ran (at (m_log s)) \<union> heard s"

text \<open>What this theory sees of a server.\<close>

definition gview :: "Server \<Rightarrow> LogRing \<times> Entry set \<times> bool \<times> Term \<times> State" where
  "gview s = (m_log s, heard s, tidy s, m_current_term s, m_state s)"

lemma gview_eqD:
  assumes "gview s' = gview s"
  shows "m_log s' = m_log s" "heard s' = heard s" "tidy s' = tidy s"
    "m_current_term s' = m_current_term s" "m_state s' = m_state s" "known s' = known s"
  using assms by (simp_all add: gview_def known_def)

lemma heard_call_if [simp]: "heard (call_if b ev s) = heard s \<union> (if b then event_entries ev else {})"
  by (auto simp: heard_def call_if_def record_event_def)

lemma tidy_call_if [simp]: "tidy (call_if b ev s) \<longleftrightarrow> tidy s \<and> (b \<longrightarrow> event_ok ev)"
  by (auto simp: tidy_def call_if_def record_event_def)

lemma call_if_fields [simp]:
  "m_log (call_if b ev s) = m_log s" "m_current_term (call_if b ev s) = m_current_term s"
  "m_state (call_if b ev s) = m_state s"
  by (simp_all add: call_if_def record_event_def)

lemma heard_fields [simp]:
  "heard (s\<lparr>m_log := l\<rparr>) = heard s" "heard (s\<lparr>m_last_applied := i\<rparr>) = heard s"
  "heard (s\<lparr>m_commit_index := i\<rparr>) = heard s" "heard (s\<lparr>m_snap_buf := b\<rparr>) = heard s"
  "heard (s\<lparr>m_snap_len := w\<rparr>) = heard s" "tidy (s\<lparr>m_log := l\<rparr>) = tidy s"
  "tidy (s\<lparr>m_last_applied := i\<rparr>) = tidy s" "tidy (s\<lparr>m_commit_index := i\<rparr>) = tidy s"
  "tidy (s\<lparr>m_snap_buf := b\<rparr>) = tidy s" "tidy (s\<lparr>m_snap_len := w\<rparr>) = tidy s"
  by (simp_all add: heard_def tidy_def)

lemma gview_call_if: "event_entries ev = {} \<Longrightarrow> event_ok ev \<Longrightarrow> gview (call_if b ev s) = gview s"
  by (simp add: gview_def)

lemma gview_emit: "event_entries (EvSend m) = {} \<Longrightarrow> event_ok (EvSend m) \<Longrightarrow> gview (emit m s) = gview s"
  unfolding emit_def by (rule gview_call_if)

lemma gview_simple [simp]:
  "gview (now_called s) = gview s" "gview (rand_called s) = gview s" "gview (persist_state s) = gview s"
  "gview (s\<lparr>m_current_leader := n\<rparr>) = gview s" "gview (s\<lparr>m_leader_hint := n\<rparr>) = gview s"
  "gview (s\<lparr>m_election_deadline := d\<rparr>) = gview s" "gview (s\<lparr>m_last_heartbeat_sent := d\<rparr>) = gview s"
  "gview (s\<lparr>m_leader_since := d\<rparr>) = gview s" "gview (s\<lparr>m_last_leader_contact := d\<rparr>) = gview s"
  "gview (s\<lparr>m_pre_votes_granted := k\<rparr>) = gview s" "gview (s\<lparr>m_votes_granted := k\<rparr>) = gview s"
  "gview (s\<lparr>m_snap_buf := b\<rparr>) = gview s" "gview (s\<lparr>m_snap_len := w\<rparr>) = gview s"
  "gview (s\<lparr>m_snap_index := i\<rparr>) = gview s" "gview (s\<lparr>m_snap_term := t\<rparr>) = gview s"
  "gview (s\<lparr>m_running := b1\<rparr>) = gview s" "gview (s\<lparr>m_pre_vote_active := b1\<rparr>) = gview s"
  "gview (s\<lparr>io_fault := b1\<rparr>) = gview s" "gview (s\<lparr>m_voted_for := n\<rparr>) = gview s"
  "gview (s\<lparr>m_commit_index := i\<rparr>) = gview s" "gview (s\<lparr>m_last_applied := i\<rparr>) = gview s"
  "gview (upd_node j f s) = gview s" "gview (upd_all_nodes f s) = gview s" "gview (upd_self f s) = gview s"
  by (auto simp: gview_def now_called_def rand_called_def persist_state_def heard_def tidy_def
      upd_node_def upd_all_nodes_def upd_self_def call_if_def record_event_def split: option.split)

lemma gview_ops [simp]:
  "gview (reset_election_timer s) = gview s" "gview (send_request_vote p s) = gview s"
  "gview (send_pre_vote p s) = gview s" "gview (send_install_snapshot p s) = gview s"
  "gview (store_chunk is s) = gview s"
  "gview (emit (vote_reply c g b t) s) = gview s" "gview (emit (ae_reply l g i u t) s) = gview s"
  "gview (emit (snap_reply l t) s) = gview s"
  by (simp_all add: reset_election_timer_def Let_def gview_emit send_request_vote_def send_pre_vote_def
      send_install_snapshot_def store_chunk_def vote_reply_def ae_reply_def snap_reply_def)

lemma gview_loops [simp]:
  "gview (each_other send_request_vote s) = gview s" "gview (each_other send_pre_vote s) = gview s"
  by (simp_all add: each_other_field)

lemma gview_set_state:
  "gview (set_state st s) = (m_log s, heard s, tidy s, m_current_term s, st)"
  by (auto simp: set_state_def Let_def gview_def) (auto simp: heard_def tidy_def)

lemma gview_advance_loop [simp]: "gview (advance_loop n s) = gview s"
proof (induction n s rule: advance_loop.induct)
  case (1 n s)
  then show ?case
    by (subst advance_loop.simps) simp
qed

section \<open>Steps that create nothing\<close>

definition sound :: "Server \<Rightarrow> bool" where
  "sound s \<longleftrightarrow> log_ok (m_log s) \<and> tidy s"

lemma sound_gview: "gview t = gview s \<Longrightarrow> sound s \<Longrightarrow> sound t"
  using gview_eqD [of t s] by (simp add: sound_def)

text \<open>
  \<open>grows A\<close>: what is known afterwards was known before or is in \<open>A\<close>, the entries of the message
  being handled. The term does not fall; a node does not become leader on the way, a leader of an
  unchanged term keeps the end of its log, and a follower of an unchanged term remains one.
\<close>

definition grows :: "Entry set \<Rightarrow> Server \<Rightarrow> Server \<Rightarrow> bool" where
  "grows A s s' \<longleftrightarrow>
     known s' \<subseteq> known s \<union> A \<and> (sound s \<longrightarrow> sound s') \<and> m_current_term s \<le> m_current_term s' \<and>
     (m_current_term s < m_current_term s' \<longrightarrow> m_state s' \<noteq> LEADER) \<and>
     (m_current_term s' = m_current_term s \<longrightarrow>
        (m_state s = FOLLOWER \<longrightarrow> m_state s' = FOLLOWER) \<and> (m_state s = LEADER \<longrightarrow> m_state s' \<noteq> CANDIDATE) \<and>
        (m_state s' = LEADER \<longrightarrow> m_state s = LEADER \<and> last_index (m_log s) \<le> last_index (m_log s')))"

lemma grows_same: "gview s' = gview s \<Longrightarrow> grows A s s'"
  using gview_eqD [of s' s] by (simp add: grows_def sound_def)

lemma grows_refl [simp]: "grows A s s"
  by (simp add: grows_same)

lemma grows_trans [trans]:
  assumes "grows A s t" and "grows A t u"
  shows "grows A s u"
proof -
  have base: "known u \<subseteq> known s \<union> A" "sound s \<longrightarrow> sound u" "m_current_term s \<le> m_current_term t" "m_current_term t \<le> m_current_term u"
    using assms unfolding grows_def by blast+
  show ?thesis
  proof (cases "m_current_term u = m_current_term s")
    case True
    then have eq: "m_current_term t = m_current_term s" "m_current_term u = m_current_term t"
      using base(3,4) by auto
    have "m_state s = FOLLOWER \<longrightarrow> m_state u = FOLLOWER" "m_state s = LEADER \<longrightarrow> m_state u \<noteq> CANDIDATE"
        "m_state u = LEADER \<longrightarrow> m_state s = LEADER \<and> last_index (m_log s) \<le> last_index (m_log u)"
      using assms eq State.exhaust [of "m_state t"] unfolding grows_def by (metis order_trans)+
    then show ?thesis
      using base True unfolding grows_def by simp
  next
    case False
    have "m_state u \<noteq> LEADER"
    proof (cases "m_current_term t = m_current_term u")
      case True
      then have "m_current_term s < m_current_term t"
        using False base(3) by simp
      then show ?thesis
        using assms True unfolding grows_def by metis
    next
      case False
      then show ?thesis
        using assms(2) base(4) by (simp add: grows_def)
    qed
    then show ?thesis
      using base False unfolding grows_def by auto
  qed
qed

lemma grows_cong: "gview s = gview t \<Longrightarrow> gview s' = gview t' \<Longrightarrow> grows A s s' \<longleftrightarrow> grows A t t'"
  using gview_eqD [of s t] gview_eqD [of s' t'] by (simp add: grows_def sound_def)

text \<open>A step that keeps role and term.\<close>

lemma growsI:
  assumes "known s' \<subseteq> known s \<union> A" and "sound s \<Longrightarrow> sound s'" and "m_current_term s' = m_current_term s"
    and "m_state s' = m_state s" and "m_state s = LEADER \<Longrightarrow> last_index (m_log s) \<le> last_index (m_log s')"
  shows "grows A s s'"
  using assms by (simp add: grows_def)

lemma grows_sound: "grows A s t \<Longrightarrow> sound s \<Longrightarrow> sound t"
  by (simp add: grows_def)

lemma set_state_gview:
  "m_log (set_state st s) = m_log s" "heard (set_state st s) = heard s" "tidy (set_state st s) = tidy s"
  "m_current_term (set_state st s) = m_current_term s" "m_state (set_state st s) = st"
  "known (set_state st s) = known s"
  using gview_set_state [of st s] by (simp_all add: gview_def known_def)

lemma set_term_gview [simp]:
  "heard (s\<lparr>m_current_term := t, m_voted_for := n\<rparr>) = heard s" "tidy (s\<lparr>m_current_term := t, m_voted_for := n\<rparr>) = tidy s"
  "known (s\<lparr>m_current_term := t, m_voted_for := n\<rparr>) = known s"
  by (simp_all add: heard_def tidy_def known_def)

lemma grows_set_follower: "grows A s (set_state FOLLOWER s)"
  by (simp add: grows_def sound_def set_state_gview)

lemma grows_adopt:
  assumes "m_current_term s < t"
  shows "grows A s (set_state FOLLOWER (persist_state (s\<lparr>m_current_term := t, m_voted_for := n\<rparr>)))"
  using assms gview_eqD [OF gview_simple(3), of "s\<lparr>m_current_term := t, m_voted_for := n\<rparr>"]
  by (simp add: grows_def sound_def set_state_gview less_imp_le)

lemma set_state_id: "m_state s = st \<Longrightarrow> set_state st s = s"
  by (simp add: set_state_def)

lemma grows_maybe_step_down: "grows A s (maybe_step_down t s)"
proof (cases "m_current_term s < t")
  case True
  let ?p = "persist_state (s\<lparr>m_current_term := t, m_voted_for := BAD_NODE\<rparr>)"
  have "gview (maybe_step_down t s) = gview (set_state FOLLOWER ?p)"
    using True by (simp add: maybe_step_down_def Let_def set_state_id)
  then show ?thesis
    using grows_adopt [OF True] grows_cong [OF refl] by metis
qed (simp add: maybe_step_down_def)

lemma grows_become_follower: "grows A s (become_follower t l s)"
proof -
  let ?s1 = "s\<lparr>m_pre_vote_active := False\<rparr>"
  let ?s2 = "if m_current_term ?s1 < t then persist_state (?s1\<lparr>m_current_term := t, m_voted_for := BAD_NODE\<rparr>) else ?s1"
  have "gview (become_follower t l s) = gview (set_state FOLLOWER ?s2)"
    by (simp add: become_follower_def Let_def)
  moreover have "grows A ?s1 (set_state FOLLOWER ?s2)"
    using grows_adopt [of ?s1 t A] grows_set_follower [of A ?s1] by simp
  ultimately show ?thesis
    using grows_cong [OF gview_simple(17)] by metis
qed

lemma become_follower_state: "m_state (become_follower t l s) = FOLLOWER"
proof -
  have "gview (become_follower t l s) = gview (set_state FOLLOWER (if m_current_term s < t
      then persist_state (s\<lparr>m_pre_vote_active := False, m_current_term := t, m_voted_for := BAD_NODE\<rparr>)
      else s\<lparr>m_pre_vote_active := False\<rparr>))"
    by (simp add: become_follower_def Let_def)
  from gview_eqD(5) [OF this] show ?thesis
    by (simp add: set_state_gview)
qed

lemma grows_handle_request_vote: "grows A s (handle_request_vote rv s)"
proof -
  obtain g s1 where g: "request_vote_guard rv s = (g, s1)"
    by force
  then have v: "gview s1 = gview s"
    by (auto simp: request_vote_guard_def Let_def split: if_splits)
  let ?s2 = "maybe_step_down (rv_term rv) s1"
  have "gview (handle_request_vote rv s) = gview (if g then s1 else ?s2)"
    by (simp add: handle_request_vote_def g Let_def)
  moreover have "grows A s1 (if g then s1 else ?s2)"
    by (simp add: grows_maybe_step_down)
  ultimately show ?thesis
    using grows_cong [OF v] by metis
qed

section \<open>Applying, compacting and sending\<close>

lemma grows_apply_one: "grows A s (apply_one s)"
proof (rule growsI)
  show "known (apply_one s) \<subseteq> known s \<union> A"
    using ranI [of "at (m_log s)" "m_last_applied s + 1"]
    by (auto simp: apply_one_def Let_def known_def split: option.split)
  show "sound s \<Longrightarrow> sound (apply_one s)"
    by (simp add: sound_def apply_one_def Let_def split: option.split)
qed (simp_all add: apply_one_def Let_def split: option.split)

lemma grows_apply_loop: "grows A s (apply_loop s)"
proof (induction s rule: apply_loop.induct)
  case (1 s)
  then show ?case
    by (subst apply_loop.simps) (auto intro: grows_trans [OF grows_apply_one])
qed

lemma last_index_compact:
  assumes "wf_ring r" and "lr_base r \<le> i" and "i \<le> last_index r"
  shows "last_index (compact_to i t r) = last_index r"
proof -
  note c = compact_to_wf [OF assms, of t]
  have le: "unat (lr_base r) \<le> unat i" "unat i \<le> unat (lr_base r) + unat (lr_count r)"
    using assms by (simp_all add: word_cmp_unat unat_last_index)
  have "unat (lr_count (compact_to i t r)) = unat (lr_count r) - (unat i - unat (lr_base r))"
    using arg_cong [OF c(2), of length] by simp
  then have "unat (last_index (compact_to i t r)) = unat (last_index r)"
    using le c(1,3) assms(1) by (simp add: unat_last_index)
  then show ?thesis
    by (simp add: word_unat_eq_iff)
qed

lemma known_set_log: "known (s\<lparr>m_log := l\<rparr>) = ran (at l) \<union> heard s"
  by (simp add: known_def)

lemma ran_subset: "(\<And>i. at r i = None \<or> at r i = at r' i) \<Longrightarrow> ran (at r) \<subseteq> ran (at r')"
  unfolding ran_def by (smt (verit) mem_Collect_eq option.distinct(1) subsetI)

lemma grows_begin_snapshot:
  assumes "sound s"
  shows "grows A s (snd (begin_snapshot s))"
proof -
  have step: "grows A s (call_if b (EvPersistLogCompact j)
      (s\<lparr>m_snap_buf := x, m_snap_len := n, m_log := compact_to (m_last_applied s) t (m_log s)\<rparr>))" (is "grows A s ?s'")
    if "lr_base (m_log s) < m_last_applied s" "term_at (m_log s) (m_last_applied s) = Some t" for b j x n t
  proof (rule growsI)
    have r: "wf_ring (m_log s)" "lr_base (m_log s) \<le> m_last_applied s" "m_last_applied s \<le> last_index (m_log s)"
      using assms that by (auto simp: sound_def log_ok_def intro: term_at_range)
    have "ran (at (compact_to (m_last_applied s) t (m_log s))) \<subseteq> ran (at (m_log s))"
      by (rule ran_subset) (simp add: at_compact_to [OF r])
    then show "known ?s' \<subseteq> known s \<union> A"
      by (auto simp: known_def)
    show "sound ?s'"
      using assms log_ok_compact [OF _ r(2,3)] by (simp add: sound_def)
    show "last_index (m_log s) \<le> last_index (m_log ?s')"
      by (simp add: last_index_compact [OF r])
  qed simp_all
  show ?thesis
    by (auto simp: begin_snapshot_def Let_def not_le intro: step grows_same split: option.split prod.split)
qed

lemma grows_apply_committed: "sound s \<Longrightarrow> grows A s (apply_committed s)"
  using grows_sound [OF grows_apply_loop] unfolding apply_committed_def maybe_compact_def Let_def
  by (auto intro: grows_apply_loop grows_trans [OF grows_apply_loop] grows_begin_snapshot)

lemma grows_reply_apply:
  assumes "grows A s t" and "sound s" and "gview (emit m t) = gview t"
  shows "grows A s (apply_committed (emit m t))"
proof -
  have "grows A s (emit m t)"
    using assms(1) grows_same [OF assms(3)] by (rule grows_trans)
  then show ?thesis
    using assms(2) grows_apply_committed grows_sound grows_trans by metis
qed

lemma grows_leader_advance_commit: "sound s \<Longrightarrow> grows A s (leader_advance_commit s)"
  unfolding leader_advance_commit_def
  by (rule grows_trans [OF grows_same grows_apply_committed]) (simp_all add: sound_gview)

lemma collect_entries_at:
  "aligned r \<Longrightarrow> set (collect_entries n r i) \<subseteq> ran (at r) \<and>
    map e_index (collect_entries n r i) = map (\<lambda>k. i + of_nat k) [0..<length (collect_entries n r i)]"
proof (induction n arbitrary: i)
  case (Suc n)
  show ?case
  proof (cases "i \<le> last_index r \<and> at r i \<noteq> None")
    case True
    then obtain e where e: "at r i = Some e"
      by auto
    let ?l = "length (collect_entries n r (i + 1))"
    have "[0..<Suc ?l] = 0 # map Suc [0..<?l]"
      by (simp add: upt_conv_Cons map_Suc_upt del: upt_Suc)
    then show ?thesis
      using Suc.IH [OF Suc.prems, of "i + 1"] Suc.prems True e ranI [of "at r" i e]
      by (simp add: aligned_def comp_def add.assoc del: upt_Suc)
  next
    case False
    then have "collect_entries (Suc n) r i = []"
      by (cases "at r i") simp_all
    then show ?thesis
      by (simp only: list.set list.map empty_subsetI list.size upt_rec [of 0 0] less_irrefl if_False simp_thms)
  qed
qed simp

lemma length_collect: "length (collect_entries n r i) \<le> n"
  by (induction n r i rule: collect_entries.induct) (auto split: option.split)

lemma grows_send_append_entries:
  assumes "sound s"
  shows "grows A s (send_append_entries p s)"
proof -
  let ?es = "collect_entries MAX_APPEND_ENTRIES (m_log s) (p_next_index p)"
  have len: "length ?es \<le> 8"
    using length_collect [of MAX_APPEND_ENTRIES] by (simp add: MAX_APPEND_ENTRIES_def)
  have es: "set ?es \<subseteq> ran (at (m_log s))" "map e_index ?es = map (\<lambda>k. p_next_index p + of_nat k) [0..<length ?es]"
    using assms collect_entries_at by (auto simp: sound_def log_ok_def)
  have "grows A s (emit m s)"
    if m: "msg_payload m = PAppendEntries ae" "ae_prev_log_index ae = p_next_index p - 1" "view ae = ?es" for m ae
    unfolding emit_def
  proof (rule growsI)
    show "known (call_if b (EvSend m) s) \<subseteq> known s \<union> A" for b
      using m es(1) by (auto simp: known_def)
    show "sound s \<Longrightarrow> sound (call_if b (EvSend m) s)" for b
      using m es(2) by (simp add: sound_def ae_aligned_def)
  qed simp_all
  moreover have "unat (of_nat (length ?es) :: u16) = length ?es"
    using len by (simp add: unat_of_nat)
  ultimately show ?thesis
    by (simp add: send_append_entries_def Let_def view_def grows_same split: option.split)
qed

lemma each_other_induct:
  assumes "P s" and "\<And>p s. P s \<Longrightarrow> P (f p s)"
  shows "P (each_other f s)"
proof -
  have "P (fold (\<lambda>i s. if p_is_self (m_nodes s ! i) then s else f (m_nodes s ! i) s) xs s)" for xs
    using assms(1) by (induction xs arbitrary: s) (auto simp: assms(2))
  then show ?thesis
    by (simp add: each_other_def)
qed

lemma grows_each_append:
  assumes "sound s"
  shows "grows A s (each_other send_append_entries s)"
  by (rule each_other_induct [where P = "grows A s"])
    (use assms in \<open>auto intro: grows_trans grows_send_append_entries grows_sound\<close>)

section \<open>Following a leader\<close>

lemma ran_push:
  assumes "wf_ring r" and "full r \<or> unat (last_index r) + 2 < 2 ^ 64"
  shows "ran (at (snd (push e r))) \<subseteq> insert e (ran (at r))"
proof (cases "full r")
  case True
  then show ?thesis
    by (auto simp: push_full)
next
  case False
  then show ?thesis
    using assms by (auto simp: ran_def at_push split: if_splits)
qed

lemma ran_truncate: "wf_ring r \<Longrightarrow> ran (at (truncate_suffix i r)) \<subseteq> ran (at r)"
  by (rule ran_subset) (simp add: ring.lookup_cut)

lemma ran_merge_log:
  assumes "log_ok r" and "no_gap idx r" and "unat idx + 1 < 2 ^ 64"
  shows "ran (at (merge_log idx e r)) \<subseteq> insert (e\<lparr>e_index := idx\<rparr>) (ran (at r))"
proof -
  have wf: "wf_ring r"
    using assms(1) by (simp add: log_ok_def)
  have inside: "ran (at (snd (push x (truncate_suffix idx r)))) \<subseteq> insert x (ran (at r))"
    if "lr_base r < idx" "idx \<le> last_index r" for x
  proof -
    have "unat (last_index (truncate_suffix idx r)) + 2 < 2 ^ 64"
      using last_index_truncate(1) [OF wf that] that(1) assms(3) by (simp add: word_less_nat_alt)
    then show ?thesis
      using ran_push [of "truncate_suffix idx r" x] truncate_suffix_wf(1) [OF wf] ran_truncate [OF wf] by blast
  qed
  have "ran (at (snd (push x r))) \<subseteq> insert x (ran (at r))" if "\<not> idx \<le> last_index r" for x
    using that assms(2,3) by (intro ran_push [OF wf]) (auto simp: no_gap_def word_le_nat_alt)
  with inside show ?thesis
    by (auto simp: merge_log_def Let_def not_le)
qed

lemma ran_merge_logs:
  assumes "log_ok r" and "no_gap idx r" and "unat idx + length es < 2 ^ 64"
    and "map e_index es = map (\<lambda>k. idx + of_nat k) [0..<length es]"
  shows "ran (at (merge_logs idx es r)) \<subseteq> ran (at r) \<union> set es"
  using assms
proof (induction es arbitrary: idx r)
  case (Cons e es)
  have b: "unat idx + 1 < 2 ^ 64" and s1: "unat (idx + 1) = unat idx + 1"
    using Cons.prems(3) by (simp, subst unat_add_no_wrap) simp_all
  note m = merge_log_ok [OF Cons.prems(1,2) b, of e]
  have "[0..<Suc (length es)] = 0 # map Suc [0..<length es]"
    by (simp add: upt_conv_Cons map_Suc_upt del: upt_Suc)
  then have e: "e_index e = idx" and es: "map e_index es = map (\<lambda>k. idx + 1 + of_nat k) [0..<length es]"
    using Cons.prems(4) by (simp_all add: comp_def add.assoc del: upt_Suc)
  have "ran (at (merge_log idx e r)) \<subseteq> insert e (ran (at r))"
    using ran_merge_log [OF Cons.prems(1,2) b, of e] e [symmetric] by simp
  moreover have "ran (at (merge_logs (idx + 1) es (merge_log idx e r))) \<subseteq> ran (at (merge_log idx e r)) \<union> set es"
    using Cons.IH [OF m(1,3) _ es] Cons.prems(3) s1 by simp
  ultimately show ?case
    by auto
qed simp

lemma merge_entries_heard:
  "heard (merge_entries i es s) = heard s" "tidy (merge_entries i es s) = tidy s"
proof -
  have one: "heard (append_one i e s) = heard s" "tidy (append_one i e s) = tidy s" for i e s
    by (simp_all add: append_one_def Let_def split: prod.split)
  have "heard (merge_entry i e s) = heard s" "tidy (merge_entry i e s) = tidy s" for i e s
    by (simp_all add: merge_entry_def one split: option.split)
  then show "heard (merge_entries i es s) = heard s" "tidy (merge_entries i es s) = tidy s"
    by (induction es arbitrary: i s) simp_all
qed

lemma grows_merge_entries:
  assumes "sound s" and "no_gap (ae_prev_log_index ae + 1) (m_log s)"
    and "unat (ae_prev_log_index ae + 1) + length (view ae) < 2 ^ 64" and "ae_aligned ae" and "m_state s = FOLLOWER"
  shows "grows (set (view ae)) s (merge_entries (ae_prev_log_index ae + 1) (view ae) s)" (is "grows _ s ?s'")
proof (rule growsI)
  have ok: "log_ok (m_log s)"
    using assms(1) by (simp add: sound_def)
  have log: "m_log ?s' = merge_logs (ae_prev_log_index ae + 1) (view ae) (m_log s)"
    using lview_eqD(1) [OF merge_entries_lview [OF ok assms(2,3)]] by simp
  then show "known ?s' \<subseteq> known s \<union> set (view ae)"
    using ran_merge_logs [OF ok assms(2,3)] assms(4) by (auto simp: known_def merge_entries_heard ae_aligned_def)
  show "sound ?s'"
    using assms(1) log merge_logs_ok [OF ok assms(2,3)] by (simp add: sound_def merge_entries_heard)
  show "m_current_term ?s' = m_current_term s" "m_state ?s' = m_state s"
    using quiet_eview [OF quiet_merge_entries] by simp_all
qed (simp_all add: assms(5))

lemma grows_accept_entries:
  assumes "sound s" and "ae_prev_log_index ae \<le> last_index (m_log s)"
    and "payload_ok (PAppendEntries ae)" and "ae_aligned ae" and "m_state s = FOLLOWER"
  shows "grows (set (view ae)) s (accept_entries ae s)"
proof -
  have ng: "no_gap (ae_prev_log_index ae + 1) (m_log s)"
    and b: "unat (ae_prev_log_index ae + 1) + length (view ae) < 2 ^ 64"
    using assms(2,3) by (simp_all add: no_gap_def word_le_nat_alt unat_add_no_wrap length_view)
  let ?s1 = "merge_entries (ae_prev_log_index ae + 1) (view ae) s"
  have m: "grows (set (view ae)) s ?s1"
    using assms(1) ng b assms(4,5) by (rule grows_merge_entries)
  have "grows (set (view ae)) s (apply_committed (emit (ae_reply l True 0 0 t) t))" if "gview t = gview ?s1" for t l
    using grows_reply_apply [OF grows_trans [OF m grows_same [OF that]] assms(1)] by simp
  then show ?thesis
    using assms(3) by (simp add: accept_entries_def Let_def)
qed

lemma grows_handle_append_entries:
  assumes "sound s" and "payload_ok (PAppendEntries ae)" and "ae_aligned ae"
  shows "grows (set (view ae)) s (handle_append_entries ae s)"
proof -
  let ?s1 = "become_follower (ae_term ae) (ae_leader_id ae) (maybe_step_down (ae_term ae) s)"
  let ?s2 = "(now_called ?s1)\<lparr>m_last_leader_contact := now_value ?s1\<rparr>"
  have g2: "grows A s ?s2" for A
    by (rule grows_trans [OF grows_trans [OF grows_maybe_step_down grows_become_follower] grows_same]) simp
  have i2: "sound ?s2"
    using grows_sound [OF g2 assms(1)] .
  have st: "m_state ?s2 = FOLLOWER"
    using become_follower_state gview_eqD(5) [of ?s2 ?s1] by simp
  have "grows (set (view ae)) s (accept_entries ae ?s2)" if "\<not> last_index (m_log ?s2) < ae_prev_log_index ae"
    using grows_trans [OF g2 grows_accept_entries [OF i2 _ assms(2,3) st]] that by (simp add: not_less)
  moreover have "grows A s (emit (ae_reply l False i t ?s2) ?s2)" for A l i t
    by (rule grows_trans [OF g2 grows_same]) simp
  ultimately show ?thesis
    by (simp add: handle_append_entries_def Let_def grows_same split: option.split)
qed

lemma ran_install_log:
  assumes "log_ok r" and "is_last_included_index is \<noteq> 0"
  shows "ran (at (install_log is r)) \<subseteq> ran (at r)"
proof -
  let ?i = "is_last_included_index is"
  have wf: "wf_ring r"
    using assms(1) by (simp add: log_ok_def)
  have "lr_base r \<le> ?i" if "term_at r ?i = Some t" for t
    using that assms(2) at_Some_range(1) [OF wf, of ?i] by (auto simp: term_at_def split: if_splits option.splits)
  then show ?thesis
    by (auto simp: install_log_def Let_def ran_def at_reset at_compact_to [OF wf] split: if_splits)
qed

lemma grows_handle_install_snapshot:
  assumes "sound s" and "payload_ok (PInstallSnapshot is)"
  shows "grows A s (handle_install_snapshot is s)"
proof -
  let ?s1 = "become_follower (is_term is) (is_leader_id is) (maybe_step_down (is_term is) s)"
  let ?s2 = "if is_offset is = 0
     then ?s1\<lparr>m_snap_len := 0, m_snap_index := is_last_included_index is,
              m_snap_term := is_last_included_term is\<rparr>
     else ?s1"
  let ?s3 = "store_chunk is ?s2"
  have v: "gview ?s3 = gview ?s1"
    by simp
  have g3: "grows A s ?s3"
    by (rule grows_trans [OF grows_trans [OF grows_maybe_step_down grows_become_follower] grows_same]) (rule v)
  have st: "m_state ?s3 = FOLLOWER"
    using become_follower_state gview_eqD(5) [OF v] by simp
  let ?log = "install_log is (m_log ?s3)"
  define s7 where "s7 = (\<lambda>b1 b2 j d n. call_if b1 (EvPersistLogCompact j) (call_if b2 (EvSnapshotLoad d n)
      (?s3\<lparr>m_log := ?log, m_commit_index := max (m_commit_index ?s3) (lr_base ?log),
           m_last_applied := max (m_last_applied ?s3) (lr_base ?log)\<rparr>)))"
  have s3: "sound ?s3" and ok: "log_ok (m_log ?s3)"
    using grows_sound [OF g3 assms(1)] by (simp_all add: sound_def)
  have "grows A ?s3 (s7 b1 b2 j d n)" for b1 b2 j d n
    using ran_install_log [OF ok, of "is"] install_log_ok(1) [OF ok, of "is"] assms(2) st s3
    by (intro growsI) (auto simp: s7_def known_def sound_def)
  then have "grows A s (apply_committed (emit (snap_reply l (s7 b1 b2 j d n)) (s7 b1 b2 j d n)))" for b1 b2 j d n l
    using grows_reply_apply [OF grows_trans [OF g3] assms(1)] by simp
  moreover have "grows A s (emit (snap_reply l ?s3) ?s3)" for l
    by (rule grows_trans [OF g3 grows_same]) simp
  ultimately show ?thesis
    unfolding handle_install_snapshot_def Let_def s7_def by (simp add: grows_same)
qed

section \<open>Steps of a leader\<close>

text \<open>
  \<open>leads\<close>: a candidate or leader ends as leader of the same term, with at most one new entry, of
  that term and for the index after its last one.
\<close>

definition leads :: "Server \<Rightarrow> Server \<Rightarrow> bool" where
  "leads s s' \<longleftrightarrow>
     m_current_term s' = m_current_term s \<and> m_state s \<noteq> FOLLOWER \<and> m_state s' = LEADER \<and> (sound s \<longrightarrow> sound s') \<and>
     last_index (m_log s) \<le> last_index (m_log s') \<and>
     (known s' \<subseteq> known s \<or>
      (\<exists>e. known s' \<subseteq> insert e (known s) \<and> e_term e = m_current_term s \<and>
           last_index (m_log s) < e_index e \<and> e_index e \<le> last_index (m_log s')))"

text \<open>One call of an entry point: no new entry, or a single one in the role of leader.\<close>

definition advances :: "Entry set \<Rightarrow> Server \<Rightarrow> Server \<Rightarrow> bool" where
  "advances A s s' \<longleftrightarrow>
     grows A s s' \<or>
     (\<exists>t u. grows A s t \<and> leads t u \<and> grows A u s' \<and> m_state s' = LEADER \<and> m_current_term s' = m_current_term u)"

lemma grows_advances: "grows A s s' \<Longrightarrow> advances A s s'"
  by (simp add: advances_def)

lemma leads_advances:
  assumes "grows A s t" and "leads t u" and "grows A u s'" and "m_state s' = LEADER" and "m_current_term s' = m_current_term u"
  shows "advances A s s'"
  using assms by (auto simp: advances_def)

lemma advances_after:
  assumes "grows A s t" and "advances A t u"
  shows "advances A s u"
  using assms grows_trans unfolding advances_def by blast

lemma advances_then:
  assumes "advances A s t" and "grows A t u" and "m_state u = m_state t" and "m_current_term u = m_current_term t"
  shows "advances A s u"
proof -
  have "grows A s u" if "grows A s t"
    using that assms(2) by (rule grows_trans)
  moreover have "grows A v u \<and> m_state u = LEADER \<and> m_current_term u = m_current_term v"
    if "grows A v t" "m_state t = LEADER" "m_current_term t = m_current_term v" for v
    using grows_trans [OF that(1) assms(2)] that(2,3) assms(3,4) by simp
  ultimately show ?thesis
    using assms(1) unfolding advances_def by blast
qed

lemma advances_sound: "advances A s t \<Longrightarrow> sound s \<Longrightarrow> sound t"
  unfolding advances_def leads_def using grows_sound by blast

lemma advances_apply: "advances A s t \<Longrightarrow> sound s \<Longrightarrow> advances A s (apply_committed t)"
  using advances_then [OF _ grows_apply_committed] quiet_eview(1,2) [OF quiet_apply_committed] advances_sound by blast

lemma leadsI:
  assumes "sound s" and "headroom s" and "e_index e = last_index (m_log s) + 1" and "e_term e = m_current_term s"
    and "m_log s' = snd (push e (m_log s))" and "heard s' = heard s" and "tidy s' = tidy s"
    and "m_current_term s' = m_current_term s" and "m_state s \<noteq> FOLLOWER" and "m_state s' = LEADER"
  shows "leads s s'"
proof (cases "full (m_log s)")
  case True
  then show ?thesis
    using assms by (simp add: leads_def sound_def push_full known_def)
next
  case False
  have wf: "wf_ring (m_log s)" and h: "unat (last_index (m_log s)) + 2 < 2 ^ 64"
    using assms(1,2) by (simp_all add: sound_def log_ok_def headroom_def)
  have "sound s'"
    using assms(1,3,5,7) log_ok_push [OF _ h, of e] by (simp add: sound_def)
  moreover have "known s' \<subseteq> insert e (known s)"
    using ran_push [OF wf, of e] h assms(5,6) by (auto simp: known_def)
  moreover have "last_index (m_log s') = last_index (m_log s) + 1" "last_index (m_log s) < last_index (m_log s) + 1"
    using last_index_push [OF wf False h] h assms(5) by (simp_all add: word_less_nat_alt unat_add_no_wrap)
  ultimately show ?thesis
    using assms unfolding leads_def by (auto intro: less_imp_le)
qed

lemmas heard_simple = gview_simple [THEN gview_eqD(2)]
lemmas tidy_simple = gview_simple [THEN gview_eqD(3)]

lemma become_leader_heard: "heard (become_leader s) = heard s" "tidy (become_leader s) = tidy s"
  unfolding become_leader_def Let_def
  by (simp_all add: heard_simple tidy_simple set_state_gview split: prod.split)

lemma leads_become_leader:
  assumes "sound s" and "headroom s" and "m_state s \<noteq> FOLLOWER"
  shows "leads s (become_leader s)"
proof -
  obtain e where e: "e_index e = last_index (m_log s) + 1" "e_term e = m_current_term s"
      "lview (become_leader s) = lview (s\<lparr>m_log := snd (push e (m_log s))\<rparr>)"
    using become_leader_lview by blast
  have log: "m_log (become_leader s) = snd (push e (m_log s))"
    using lview_eqD(1) [OF e(3)] by simp
  show ?thesis
    using assms leadsI [OF _ assms(2) e(1,2) log] become_leader_heard become_leader_view by simp
qed

lemma campaign_start_gview:
  "gview (campaign_start s) = (m_log s, heard s, tidy s, m_current_term s + 1, CANDIDATE)"
proof -
  let ?s2 = "(set_state CANDIDATE (s\<lparr>m_pre_vote_active := False\<rparr>))\<lparr>m_current_term := t, m_voted_for := n\<rparr>"
  have "gview ((set_state CANDIDATE (s\<lparr>m_pre_vote_active := False\<rparr>))\<lparr>m_current_term := t, m_voted_for := n\<rparr>) =
      (m_log s, heard s, tidy s, t, CANDIDATE)" for t n
    by (simp add: gview_def) (simp add: set_state_gview heard_simple tidy_simple)
  then show ?thesis
    by (simp add: campaign_start_def Let_def set_state_fields split: option.split)
qed

lemma advances_become_candidate:
  assumes "sound s" and "headroom s" and "m_current_term s \<noteq> - 1"
  shows "advances A s (become_candidate s)"
proof -
  let ?s6 = "each_other send_request_vote (reset_election_timer (campaign_start s))"
  have v: "gview ?s6 = (m_log s, heard s, tidy s, m_current_term s + 1, CANDIDATE)"
    by (simp add: campaign_start_gview)
  have "m_current_term s < m_current_term s + 1"
    using assms(3) by (rule word_less_succ)
  then have g: "grows A s ?s6"
    using v by (simp add: gview_def grows_def known_def sound_def less_imp_le)
  have inv: "sound ?s6" "headroom ?s6"
    using grows_sound [OF g assms(1)] headroom_cong [of ?s6 s] assms(2) by simp_all
  have "m_state ?s6 \<noteq> FOLLOWER"
    using v by (simp add: gview_def)
  then have "leads ?s6 (become_leader ?s6)"
    using inv by (intro leads_become_leader)
  then have "advances A s (become_leader ?s6)"
    by (rule leads_advances [OF g _ grows_refl]) (simp_all add: become_leader_view)
  then show ?thesis
    using g by (simp add: become_candidate_eq Let_def grows_advances)
qed

lemma advances_become_candidate_after:
  assumes "gview t = gview s" and "lview t = lview s" and "sound s" and "headroom s" and "m_current_term s \<noteq> - 1"
  shows "advances A s (become_candidate t)"
proof -
  have "sound t" "headroom t" "m_current_term t \<noteq> - 1"
    using sound_gview [OF assms(1)] headroom_cong [OF assms(2)] gview_eqD(4) [OF assms(1)] assms(3-5) by simp_all
  then show ?thesis
    using advances_after [OF grows_same [OF assms(1)]] advances_become_candidate by blast
qed

lemma advances_start_pre_vote:
  assumes "sound s" and "headroom s" and "m_current_term s \<noteq> - 1"
  shows "advances A s (start_pre_vote s)"
  using assms
  by (simp add: start_pre_vote_def Let_def advances_become_candidate_after grows_advances grows_same)

section \<open>Every entry point\<close>

lemma advances_request_vote_resp:
  assumes "sound s" and "headroom s" and "m_current_term s \<noteq> - 1"
  shows "advances A s (handle_request_vote_resp from rr s)"
proof -
  have lead: "advances A s (become_leader t)" if "m_state s = CANDIDATE" "gview t = gview s" "lview t = lview s" for t
  proof -
    have "sound t" "headroom t" "m_state t \<noteq> FOLLOWER"
      using sound_gview [OF that(2)] headroom_cong [OF that(3)] gview_eqD(5) [OF that(2)] that(1) assms(1,2) by simp_all
    then have "leads t (become_leader t)"
      by (rule leads_become_leader)
    then show ?thesis
      by (rule leads_advances [OF grows_same [OF that(2)] _ grows_refl]) (simp_all add: become_leader_view)
  qed
  show ?thesis
    using assms lead
    by (simp add: handle_request_vote_resp_def Let_def advances_become_candidate_after grows_advances grows_same
        grows_maybe_step_down split: option.split)
qed

text \<open>Chains of the operations a leader performs.\<close>

lemma grows_then:
  assumes "sound s" and "grows A s t"
  shows "grows A s (send_append_entries p t)" "grows A s (each_other send_append_entries t)"
    "grows A s (leader_advance_commit t)" "grows A s (apply_committed t)"
  using assms grows_sound [OF assms(2,1)]
  by (blast intro: grows_trans grows_send_append_entries grows_each_append grows_leader_advance_commit grows_apply_committed)+

lemma grows_append_entries_resp: "sound s \<Longrightarrow> grows A s (handle_append_entries_resp from rr s)"
  by (simp add: handle_append_entries_resp_def Let_def grows_maybe_step_down grows_then grows_same split: option.split)

lemma grows_install_snapshot_resp: "sound s \<Longrightarrow> grows A s (handle_install_snapshot_resp from rr s)"
  by (simp add: handle_install_snapshot_resp_def Let_def grows_maybe_step_down grows_then grows_same split: option.split)

text \<open>The entries a message brings.\<close>

definition brings :: "Message \<Rightarrow> Entry set" where
  "brings m = event_entries (EvSend m)"

lemma advances_handle:
  assumes "sound s" and "headroom s" and "payload_ok (msg_payload m)" and "m_current_term s \<noteq> - 1"
    and "event_ok (EvSend m)"
  shows "advances (brings m) s (handle m s)"
proof (cases "msg_payload m")
  case (PAppendEntries ae)
  then show ?thesis
    using grows_handle_append_entries [OF assms(1), of ae] assms(3,5) by (simp add: handle_def brings_def grows_advances)
next
  case (PInstallSnapshot "is")
  then show ?thesis
    using grows_handle_install_snapshot [OF assms(1)] assms(3) by (simp add: handle_def grows_advances)
qed (use assms in \<open>simp_all add: handle_def grows_advances grows_handle_request_vote advances_request_vote_resp
      grows_append_entries_resp grows_install_snapshot_resp\<close>)

lemma advances_periodic:
  assumes "sound s" and "headroom s" and "m_current_term s \<noteq> - 1"
  shows "advances A s (periodic s)"
proof -
  let ?s1 = "now_called s"
  have g1: "grows A s ?s1" and i1: "sound ?s1" "headroom ?s1" "m_current_term ?s1 \<noteq> - 1"
    using sound_gview [of ?s1 s] headroom_cong [of ?s1 s] gview_eqD(4) [of ?s1 s] assms by (simp_all add: grows_same)
  have "advances A s (apply_committed (start_pre_vote ?s1))"
    using advances_after [OF g1 advances_start_pre_vote [OF i1]] assms(1) by (rule advances_apply)
  moreover have "grows A s (become_follower t l ?s1)" for t l
    using g1 grows_become_follower by (rule grows_trans)
  ultimately show ?thesis
    using g1 assms(1) by (simp add: periodic_def Let_def grows_advances grows_then grows_same)
qed

lemma send_append_role:
  "m_state (send_append_entries p s) = m_state s" "m_current_term (send_append_entries p s) = m_current_term s"
  using gview_ops(4) [THEN gview_eqD(4)] gview_ops(4) [THEN gview_eqD(5)]
  by (simp_all add: send_append_entries_def Let_def emit_def split: option.split)

lemma each_append_role:
  "m_state (each_other send_append_entries s) = m_state s" "m_current_term (each_other send_append_entries s) = m_current_term s"
  by (simp_all add: each_other_field send_append_role)

lemma advances_submit:
  assumes "sound s" and "headroom s"
  shows "advances A s (snd (submit ty data s))"
proof (cases "m_state s = LEADER \<and> \<not> full (m_log s)")
  case True
  let ?e = "submit_entry ty data s"
  obtain l where p: "push ?e (m_log s) = (OK, l)"
    using True by (simp add: push_def Let_def)
  have e: "e_index ?e = last_index (m_log s) + 1" "e_term ?e = m_current_term s"
    by (simp_all add: submit_entry_def)
  define s2 where "s2 = upd_self (\<lambda>p. p\<lparr>p_match_index := e_index ?e\<rparr>)
    (call_if (cb_persist_log_append (m_cbs s)) (EvPersistLogAppend ?e) (s\<lparr>m_log := l\<rparr>))"
  define s3 where "s3 = each_other send_append_entries s2"
  have gv: "gview s2 = gview (s\<lparr>m_log := l\<rparr>)"
    by (simp add: s2_def gview_call_if)
  have lead: "leads s s2"
    using assms True gview_eqD(1-5) [OF gv] by (intro leadsI [where e = ?e]) (simp_all add: e p)
  have role: "m_state s2 = LEADER" "m_current_term s2 = m_current_term s"
    using lead by (simp_all add: leads_def)
  have "sound s2"
    using lead assms(1) by (simp add: leads_def)
  then have g3: "grows A s2 s3"
    unfolding s3_def by (rule grows_each_append)
  have role3: "m_state s3 = LEADER" "m_current_term s3 = m_current_term s2"
    using role by (simp_all add: s3_def each_append_role)
  have a3: "advances A s s3"
    by (rule leads_advances [OF grows_refl lead g3 role3])
  then have "advances A s (leader_advance_commit s3)"
    using advances_then [OF a3 grows_leader_advance_commit] advances_sound [OF a3 assms(1)] quiet_eview(1,2) [OF quiet_leader_advance_commit] by blast
  then have "advances A s (apply_committed (leader_advance_commit s3))"
    using assms(1) by (rule advances_apply)
  then show ?thesis
    using a3 p by (simp add: submit_def Let_def ok_def s3_def s2_def grows_advances)
qed (auto simp: submit_def grows_advances)

section \<open>The cluster\<close>

text \<open>
  Runs in which no index comes near the largest 64-bit value and no snapshot message claims to end
  at index 0.
\<close>

fun payload_bounded :: "Payload \<Rightarrow> bool" where
  "payload_bounded (PAppendEntries ae) \<longleftrightarrow> view_ok ae \<and> ae_prev_log_index ae < - 2 - ucast (ae_n_entries ae)"
| "payload_bounded (PInstallSnapshot is) \<longleftrightarrow> is_last_included_index is \<noteq> 0 \<and> is_last_included_index is < - 1"
| "payload_bounded _ \<longleftrightarrow> True"

fun event_bounded :: "Event \<Rightarrow> bool" where
  "event_bounded (EvSend m) = payload_bounded (msg_payload m)"
| "event_bounded _ = True"

definition bounded :: "NodeId list \<Rightarrow> Cluster \<Rightarrow> bool" where
  "bounded ids c \<longleftrightarrow>
     list_all (\<lambda>j. last_index (m_log (c j)) < - 2 \<and> list_all event_bounded (io_events (c j))) ids"

lemma payload_bounded_ok:
  assumes "payload_bounded p"
  shows "payload_ok p"
proof (cases p)
  case (PAppendEntries ae)
  let ?n = "ucast (ae_n_entries ae) :: u64"
  have lt: "unat (ae_n_entries ae) < 65536"
    by (rule unat_lt_16)
  then have n: "unat ?n = unat (ae_n_entries ae)"
    by (simp add: unsigned_ucast_eq take_bit_nat_eq_self order_less_trans [OF unat_lt_16])
  have "unat (- 2 - ?n) = 2 ^ 64 - 2 - unat ?n"
    using n lt by (subst unat_sub_no_wrap) (simp_all add: word_le_nat_alt del: unat_lt_16)
  then show ?thesis
    using assms PAppendEntries n lt by (auto simp: word_less_nat_alt simp del: unat_lt_16)
next
  case (PInstallSnapshot "is")
  have "unat (- 1 :: u64) = 2 ^ 64 - 1"
    by (simp add: unsigned_minus_1_eq_mask mask_eq_exp_minus_1)
  then show ?thesis
    using assms PInstallSnapshot by (auto simp: word_less_nat_alt)
qed simp_all

lemma bounded_headroom: "bounded ids c \<Longrightarrow> j \<in> set ids \<Longrightarrow> headroom (c j)"
  by (auto simp: bounded_def list_all_iff headroom_def word_less_nat_alt)

lemma bounded_event: "bounded ids c \<Longrightarrow> i \<in> set ids \<Longrightarrow> EvSend m \<in> set (io_events (c i)) \<Longrightarrow> payload_ok (msg_payload m)"
  by (metis (no_types, lifting) bounded_def event_bounded.simps(1) list_all_iff payload_bounded_ok)

inductive bounded_run :: "NodeId list \<Rightarrow> (NodeId \<Rightarrow> Callbacks) \<Rightarrow> Cluster \<Rightarrow> bool" for ids cbs where
  boot: "bounded ids (initial ids cbs) \<Longrightarrow> bounded_run ids cbs (initial ids cbs)"
| move: "bounded_run ids cbs c \<Longrightarrow> cstep ids c c' \<Longrightarrow> bounded ids c' \<Longrightarrow> bounded_run ids cbs c'"

lemma bounded_run_reachable: "bounded_run ids cbs c \<Longrightarrow> reachable ids cbs c \<and> bounded ids c"
  by (induction rule: bounded_run.induct) (auto simp: reachable_def intro: rtranclp.rtrancl_into_rtrancl)

text \<open>
  The node whose term an entry bears made it: it has left that term, or follows in it, or leads
  and still holds every index it has given out.
\<close>

definition made :: "Server \<Rightarrow> Entry \<Rightarrow> bool" where
  "made s e \<longleftrightarrow> e_term e < m_current_term s \<or>
     e_term e = m_current_term s \<and> (m_state s = FOLLOWER \<or> m_state s = LEADER \<and> e_index e \<le> last_index (m_log s))"

definition somewhere :: "NodeId list \<Rightarrow> Cluster \<Rightarrow> Entry set" where
  "somewhere ids c = (\<Union>j \<in> set ids. known (c j))"

definition one_each :: "Entry set \<Rightarrow> bool" where
  "one_each E \<longleftrightarrow> (\<forall>e \<in> E. \<forall>e' \<in> E. e_index e = e_index e' \<longrightarrow> e_term e = e_term e' \<longrightarrow> e = e')"

definition entries_inv :: "NodeId list \<Rightarrow> Cluster \<Rightarrow> bool" where
  "entries_inv ids c \<longleftrightarrow>
     (\<forall>j \<in> set ids. sound (c j)) \<and> one_each (somewhere ids c) \<and>
     (\<forall>e \<in> somewhere ids c. \<exists>k \<in> set ids. quorum_for (voted_in c) ids (e_term e) k \<and> made (c k) e)"

lemma made_grows:
  assumes "made s e" and "grows A s t"
  shows "made t e"
proof (cases "m_current_term t = m_current_term s")
  case True
  have "m_state t = FOLLOWER \<or> m_state t = LEADER \<and> last_index (m_log s) \<le> last_index (m_log t)" if "m_state s = LEADER"
    using that assms(2) True State.exhaust [of "m_state t"] by (auto simp: grows_def)
  moreover have "m_state t = FOLLOWER" if "m_state s = FOLLOWER"
    using that assms(2) True by (simp add: grows_def)
  ultimately show ?thesis
    using assms(1) True unfolding made_def by (metis order_trans)
next
  case False
  then have "m_current_term s < m_current_term t"
    using assms(2) by (auto simp: grows_def)
  then show ?thesis
    using assms(1) unfolding made_def by (metis order.strict_trans)
qed

lemma made_leads: "made s e \<Longrightarrow> leads s t \<Longrightarrow> made t e"
  by (auto simp: made_def leads_def intro: order_trans)

lemma made_advances: "made s e \<Longrightarrow> advances A s t \<Longrightarrow> made t e"
  unfolding advances_def by (blast intro: made_grows made_leads)

text \<open>Either a step creates nothing, or it ends in a leader that made one entry nobody had.\<close>

lemma advances_cases:
  assumes "advances A s s'"
  obtains "known s' \<subseteq> known s \<union> A"
  | e where "known s' \<subseteq> insert e (known s \<union> A)" "m_state s' = LEADER" "e_term e = m_current_term s'" "made s' e"
      "\<And>e'. made s e' \<Longrightarrow> e_term e' = e_term e \<Longrightarrow> e_index e' \<noteq> e_index e"
  using assms unfolding advances_def
proof (elim disjE exE conjE)
  assume "grows A s s'"
  then show thesis
    using that(1) by (simp add: grows_def)
next
  fix t u
  assume g: "grows A s t" "leads t u" "grows A u s'" and l: "m_state s' = LEADER" "m_current_term s' = m_current_term u"
  have sub: "known t \<subseteq> known s \<union> A" "known s' \<subseteq> known u \<union> A"
    using g(1,3) by (simp_all add: grows_def)
  from g(2) consider "known u \<subseteq> known t"
    | e where "known u \<subseteq> insert e (known t)" "e_term e = m_current_term t" "last_index (m_log t) < e_index e"
        "e_index e \<le> last_index (m_log u)"
    by (auto simp: leads_def)
  then show thesis
  proof cases
    case 1
    then show ?thesis
      using that(1) sub by blast
  next
    case (2 e)
    have u: "m_state u = LEADER" "m_current_term u = m_current_term t" "m_state t \<noteq> FOLLOWER"
      using g(2) by (simp_all add: leads_def)
    have "made s' e"
      by (rule made_grows [OF _ g(3)]) (use 2 u in \<open>simp add: made_def\<close>)
    moreover have "e_index e' \<noteq> e_index e" if "made s e'" "e_term e' = e_term e" for e'
      using made_grows [OF that(1) g(1)] that(2) 2(2,3) u(3) by (auto simp: made_def)
    moreover have "known s' \<subseteq> insert e (known s \<union> A)"
      using 2(1) sub by blast
    ultimately show ?thesis
      using that(2) [of e] 2(2) u(2) l by metis
  qed
qed

lemma entries_inv_step:
  assumes inv: "entries_inv ids c" and j: "j \<in> set ids" and adv: "advances A (c j) s'" and A: "A \<subseteq> somewhere ids c"
    and votes: "\<And>p t v. voted_in c p t v \<Longrightarrow> voted_in (c(j := s')) p t v"
    and lead: "m_state s' = LEADER \<Longrightarrow> quorum_for (voted_in (c(j := s'))) ids (m_current_term s') j"
    and uniq: "\<And>t k. k \<in> set ids \<Longrightarrow> quorum_for (voted_in (c(j := s'))) ids t k \<Longrightarrow>
      quorum_for (voted_in (c(j := s'))) ids t j \<Longrightarrow> k = j"
  shows "entries_inv ids (c(j := s'))"
proof -
  let ?c = "c(j := s')" and ?E = "somewhere ids c"
  have E: "somewhere ids ?c \<subseteq> X" if "known s' \<subseteq> X" "?E \<subseteq> X" for X
    using that unfolding somewhere_def UN_subset_iff by simp
  have kj: "known (c j) \<union> A \<subseteq> ?E"
    using A j by (auto simp: somewhere_def)
  have old: "\<exists>k \<in> set ids. quorum_for (voted_in ?c) ids (e_term e) k \<and> made (c k) e \<and> made (?c k) e" if "e \<in> ?E" for e
  proof -
    obtain k where k: "k \<in> set ids" "quorum_for (voted_in c) ids (e_term e) k" "made (c k) e"
      using inv \<open>e \<in> ?E\<close> by (auto simp: entries_inv_def)
    then show ?thesis
      using made_advances [OF _ adv] quorum_mono [OF k(2) votes] by (intro bexI [of _ k]) auto
  qed
  have one: "one_each ?E" and snd: "\<forall>k \<in> set ids. sound (?c k)"
    using inv j advances_sound [OF adv] by (auto simp: entries_inv_def)
  from adv show ?thesis
  proof (cases rule: advances_cases)
    case 1
    then have "somewhere ids ?c \<subseteq> ?E"
      using kj by (intro E) auto
    then show ?thesis
      using one snd old unfolding entries_inv_def one_each_def by blast
  next
    case (2 e)
    have sub: "somewhere ids ?c \<subseteq> insert e ?E"
      using 2(1) kj by (intro E) auto
    have qj: "quorum_for (voted_in ?c) ids (e_term e) j"
      using lead 2(2,3) by simp
    have "e_index e' \<noteq> e_index e" if "e' \<in> ?E" "e_term e' = e_term e" for e'
      using old [OF that(1)] that(2) uniq [OF _ _ qj] 2(5) [of e'] by auto
    then have "one_each (insert e ?E)"
      using one unfolding one_each_def by (metis insert_iff)
    moreover have "\<exists>k \<in> set ids. quorum_for (voted_in ?c) ids (e_term e) k \<and> made (?c k) e"
      using qj 2(4) j by (intro bexI [of _ j]) simp_all
    ultimately show ?thesis
      using sub snd old unfolding entries_inv_def one_each_def by blast
  qed
qed

lemma cstep_votes:
  assumes cfg: "config_ok ids cbs" and inv: "cluster_inv ids cbs c" and "cstep ids c c'" and "voted_in c p t v"
  shows "voted_in c' p t v"
  using assms(3) inv
proof (rule cstep_runs)
  fix j R s'
  assume j: "j \<in> set ids" "c' = c(j := s')"
    and r: "runs R (c j) s' \<and> (\<forall>p t. R p t \<longrightarrow> voted_in c p t j) \<or> s' = reboot ids (c j)"
  have "set (vote_hist (io_events (c j))) \<subseteq> set (vote_hist (io_events s'))"
    using r
  proof
    assume "s' = reboot ids (c j)"
    moreover have "ids \<noteq> []" "length ids \<le> MAX_NODES" "callbacks_valid (m_cbs (c j))"
      using config_node [OF cfg j(1)] inv j(1) by (simp_all add: cluster_inv_def node_inv_def)
    ultimately show ?thesis
      using arg_cong [OF reboot_view(1) [of ids "c j"], of ev_hist] by simp
  qed (use esteps_hist_mono [of R "eview (c j)" "eview s'"] in \<open>auto simp: runs_def\<close>)
  then show ?thesis
    using assms(4) j by (auto simp: voted_in_def)
qed

text \<open>A restarted node has an empty log and knows only what it has sent and applied.\<close>

lemma at_new_ring [simp]: "at new_ring = Map.empty"
  by (auto simp: fun_eq_iff at_def last_index_def new_ring_def Let_def word_cmp_unat)

lemma reboot_gview:
  "m_log (reboot ids s) = new_ring" "heard (reboot ids s) = heard s" "tidy (reboot ids s) = tidy s"
  "m_state (reboot ids s) = FOLLOWER" "known (reboot ids s) = heard s"
proof -
  define n where "n = (new_server (m_self_id s) ids (m_cbs s))\<lparr>io_events := io_events s, io_now := io_now s, io_rand := io_rand s\<rparr>"
  have n: "m_log n = new_ring" "heard n = heard s" "tidy n = tidy s"
    by (simp_all add: n_def new_server_def blank_server_def Let_def heard_def tidy_def)
  have "heard (n\<lparr>m_current_term := t\<rparr>) = heard s" "tidy (n\<lparr>m_current_term := t\<rparr>) = tidy s" for t
    using n by (simp_all add: heard_def tidy_def)
  then have "gview (reboot ids s) = (new_ring, heard s, tidy s, rp_term (load (nvs_content (io_events s))), FOLLOWER)"
    unfolding reboot_def n_def [symmetric] engine_start_def start_def restore_state_def Let_def
    by (simp add: gview_set_state heard_simple tidy_simple) (simp add: n)
  then show "m_log (reboot ids s) = new_ring" "heard (reboot ids s) = heard s" "tidy (reboot ids s) = tidy s"
    "m_state (reboot ids s) = FOLLOWER" "known (reboot ids s) = heard s"
    by (simp_all add: gview_def known_def)
qed

lemma grows_reboot:
  assumes "config_ok ids cbs" and "cluster_inv ids cbs c" and "j \<in> set ids"
  shows "grows A (c j) (reboot ids (c j))"
  using reboot_term [OF assms] by (auto simp: grows_def sound_def reboot_gview known_def)

lemma cstep_advances:
  assumes step: "cstep ids c c'" and cfg: "config_ok ids cbs" and inv: "cluster_inv ids cbs c"
    and b: "bounded ids c" and snd: "\<And>j. j \<in> set ids \<Longrightarrow> sound (c j)"
  obtains j A s' where "j \<in> set ids" "c' = c(j := s')" "advances A (c j) s'" "A \<subseteq> somewhere ids c"
proof -
  note head = bounded_headroom [OF b]
  from step show thesis
  proof (cases rule: cstep.cases)
    case (deliver i j m)
    let ?m = "m\<lparr>msg_from := i\<rparr>"
    have "event_ok (EvSend ?m)"
      using snd [OF deliver(2)] deliver(4) by (auto simp: sound_def tidy_def list_all_iff)
    then have "advances (brings ?m) (c j) (handle ?m (c j))"
      using deliver bounded_event [OF b deliver(2,4)] by (intro advances_handle snd head) simp_all
    moreover have "brings ?m \<subseteq> somewhere ids c"
    proof -
      have "event_entries (EvSend ?m) = event_entries (EvSend m)"
        by simp
      then have "brings ?m \<subseteq> known (c i)"
        unfolding brings_def known_def heard_def using deliver(4) by blast
      then show ?thesis
        unfolding somewhere_def using deliver(2) by blast
    qed
    ultimately show ?thesis
      using that deliver(1,3) by blast
  next
    case (tick j)
    then show ?thesis
      using that [of j _ "{}"] advances_periodic snd head by blast
  next
    case (command j ty data)
    then show ?thesis
      using that [of j _ "{}"] advances_submit snd head by blast
  next
    case (snapshot j)
    then show ?thesis
      using that [of j _ "{}"] grows_advances [OF grows_begin_snapshot] snd by blast
  next
    case (halt j)
    then show ?thesis
      using that [of j _ "{}"] grows_advances [OF grows_same] by (simp add: stop_def)
  next
    case (restart j)
    then show ?thesis
      using that [of j _ "{}"] grows_advances [OF grows_reboot [OF cfg inv]] by blast
  qed
qed

lemma initial_entries: "entries_inv ids (initial ids cbs)"
proof -
  have "heard (blank_server i cb) = {}" "tidy (blank_server i cb)" for i cb
    by (simp_all add: heard_def tidy_def blank_server_def)
  then show ?thesis
    by (simp add: entries_inv_def one_each_def somewhere_def initial_def sound_def reboot_gview)
qed

lemma bounded_run_entries:
  assumes cfg: "config_ok ids cbs"
  shows "bounded_run ids cbs c \<Longrightarrow> entries_inv ids c"
proof (induction rule: bounded_run.induct)
  case (move c c')
  have r: "reachable ids cbs c" "bounded ids c" "reachable ids cbs c'"
    using bounded_run_reachable [OF move.hyps(1)] bounded_run_reachable [OF bounded_run.move [OF move.hyps]] by simp_all
  have inv: "cluster_inv ids cbs c" "cluster_inv ids cbs c'"
    using reachable_inv [OF cfg] r(1,3) by simp_all
  have "sound (c j)" if "j \<in> set ids" for j
    using move.IH that by (simp add: entries_inv_def)
  then obtain j A s' where j: "j \<in> set ids" "c' = c(j := s')" "advances A (c j) s'" "A \<subseteq> somewhere ids c"
    using cstep_advances [OF move.hyps(2) cfg inv(1) r(2)] by blast
  have "entries_inv ids (c(j := s'))"
    using move.IH j(1,3,4)
  proof (rule entries_inv_step)
    show "voted_in c p t v \<Longrightarrow> voted_in (c(j := s')) p t v" for p t v
      using cstep_votes [OF cfg inv(1) move.hyps(2)] j(2) by simp
    show "m_state s' = LEADER \<Longrightarrow> quorum_for (voted_in (c(j := s'))) ids (m_current_term s') j"
      using leader_quorum [OF cfg r(3) j(1)] j(2) by simp
    show "k \<in> set ids \<Longrightarrow> quorum_for (voted_in (c(j := s'))) ids t k \<Longrightarrow>
        quorum_for (voted_in (c(j := s'))) ids t j \<Longrightarrow> k = j" for t k
      using cluster_unique_quorum [OF cfg inv(2) _ j(1)] j(2) by simp
  qed
  then show ?case
    unfolding j(2) .
qed (rule initial_entries)

section \<open>Properties\<close>


text \<open>A script whose clusters are all bounded.\<close>

fun bounded_script :: "NodeId list \<Rightarrow> Action list \<Rightarrow> Cluster \<Rightarrow> Cluster option" where
  "bounded_script ids [] c = (if bounded ids c then Some c else None)"
| "bounded_script ids (a # as) c =
     (if bounded ids c then case act ids a c of None \<Rightarrow> None | Some c' \<Rightarrow> bounded_script ids as c' else None)"

lemma bounded_script_run:
  "(bounded ids c \<Longrightarrow> bounded_run ids cbs c) \<Longrightarrow> bounded_script ids as c = Some c' \<Longrightarrow> bounded_run ids cbs c'"
proof (induction ids as c rule: bounded_script.induct)
  case (2 ids a as c)
  then show ?case
    by (auto split: if_splits option.splits intro: bounded_run.move [OF _ act_cstep])
qed (auto split: if_splits)

text \<open>The election of the demonstration cluster, and its first AppendEntries delivered to node 2.\<close>

definition entries_cluster :: "Cluster option" where
  "entries_cluster = bounded_script demo_ids (demo_script @ [Deliver 1 5 2]) (initial demo_ids demo_cbs)"

lemma entries_cluster_logs:
  "map_option (\<lambda>c. map (\<lambda>i. map_option (\<lambda>e. (e_index e, e_term e)) (get_entry 1 (c i))) [1, 2]) entries_cluster =
   Some [Some (1, 1), Some (1, 1)]"
  by code_simp


section \<open>Limits\<close>

text \<open>
  Only the term and the vote survive a restart, not the log. An entry that a majority held and the
  leader has applied is forgotten when a member of that majority restarts; another node can then
  be elected and have its own entry applied at the same index.
\<close>

definition forgetful_run :: "Action list" where
  "forgetful_run = demo_script @ [Deliver 1 5 2, Deliver 2 4 1, Deliver 1 4 3, Restart 2, Tick 3, Deliver 3 4 2,
     Deliver 2 5 3, Deliver 3 7 2, Deliver 2 8 3, Tick 3, Deliver 3 9 2, Deliver 2 9 3]"

lemma forgetful_run_applies:
  "map_option (\<lambda>c. map (\<lambda>i. map (\<lambda>e. (e_index e, e_term e)) (applied (c i))) [1, 3])
     (script demo_ids forgetful_run (initial demo_ids demo_cbs)) = Some [[(1, 1)], [(1, 2)]]"
  by code_simp

lemma restart_forgets_committed_entries:
  "\<exists>c e e'. reachable demo_ids demo_cbs c \<and> EvApply e \<in> set (io_events (c 1)) \<and> EvApply e' \<in> set (io_events (c 3)) \<and>
     e_index e = e_index e' \<and> e_term e \<noteq> e_term e'"
proof -
  obtain c where c: "script demo_ids forgetful_run (initial demo_ids demo_cbs) = Some c"
    using forgetful_run_applies by (cases "script demo_ids forgetful_run (initial demo_ids demo_cbs)") simp_all
  have app: "EvApply x \<in> set (io_events s)" if x: "x \<in> set (applied s)" for x s
  proof -
    obtain ev where "ev \<in> set (io_events s)" "x \<in> set (apply_event ev)"
      using x by (auto simp: applied_def)
    then show ?thesis
      by - (cases ev, auto)
  qed
  obtain e e' where "applied (c 1) = [e]" "applied (c 3) = [e']" "e_index e = 1" "e_index e' = 1" "e_term e = 1" "e_term e' = 2"
    using forgetful_run_applies c by (auto simp: map_eq_Cons_conv)
  then show ?thesis
    using script_reachable [OF initial_reachable c] app [of e "c 1"] app [of e' "c 3"] by (intro exI [of _ c] exI [of _ e] exI [of _ e']) simp
qed

end
