(* ===== verification/Spec2Isabelle.thy ===== *)
theory Spec2Isabelle
  imports Start_Up Fault_Injection Raft_Entries
begin

text \<open>
  Verification of the firmware of a flood early-warning system.

  \<^bold>\<open>The system.\<close> Edge nodes (\<^verbatim>\<open>firmware/edge\<close>) measure a water level with an
  ultrasonic sensor and send signed readings over Thread to three fog nodes
  (\<^verbatim>\<open>firmware/fog\<close>). A fog node collects the readings of a window, votes with the median,
  marks outliers and decides about the flood alert; the leader among the fog nodes enters the batch
  into a log replicated by a consensus server. When an entry is applied the nodes broadcast a change of
  the alert, and the leader sends the batch over LoRaWAN to a gateway, recording in the same log which
  uplinks are started and which are done, so that a new leader can take them over.

  \<^bold>\<open>Shared theories.\<close>
  \<^item> \<open>Flood_Prelude\<close>: integer types, collections of facts, lemmas on words and lists.
  \<^item> \<open>Slot_Table\<close>: the discipline of the fixed-size tables as the locales \<open>slot_table\<close> and
    \<open>front_table\<close>. They are interpreted on the voting slots and reputations (\<open>Vote_Window\<close>), the
    replay table (\<open>Replay_Detection\<close>), the trusted peers (\<open>Trusted_Devices\<close>) and the
    directory (\<open>Network_Service\<close>).
  \<^item> \<open>Memory_Image\<close>: structures as bytes, with the locales \<open>memory_image\<close> and \<open>entry_image\<close>,
    interpreted on batches, signed readings, log entries, consensus messages, egress records and fault
    requests.
  \<^item> \<open>Kernel_Objects\<close>: the wrappers of Zephyr's queues, timers and work items
    (\<^verbatim>\<open>message_queue.hpp\<close>, \<^verbatim>\<open>periodic_task.hpp\<close>,
    \<^verbatim>\<open>work_task.hpp\<close>). The locales \<open>zephyr_msgq\<close> and \<open>zephyr_kernel\<close> say what the kernel
    documents, show first-in first-out order, the bound and the end of a drain, and are interpreted on
    the queue and the kernel that the other theories run on.

  \<^bold>\<open>Consensus\<close> (\<^verbatim>\<open>fog/src/raft\<close>, \<^verbatim>\<open>fog/src/fs/persist.hpp\<close>).
  \<^item> \<open>Raft_Types\<close>: \<^verbatim>\<open>raft_types.hpp\<close>. \<open>Log_Ring\<close>: \<^verbatim>\<open>log/log_ring.hpp\<close>, refined to a list
    behind a snapshot edge and offered to replication as the locale \<open>log_store\<close>.
  \<^item> \<open>Raft_Server\<close>: the server of \<^verbatim>\<open>server/server.hpp\<close> and its \<^verbatim>\<open>.inl\<close> files, one
    definition per member function, and \<^verbatim>\<open>callback.hpp\<close>.
  \<^item> \<open>Raft_Election\<close>, \<open>Raft_Refinement\<close>, \<open>Raft_Handlers\<close>, \<open>Raft_Cluster\<close>: an abstract election
    machine, the refinement of every entry point of the server to it, and the cluster of servers on
    a network that loses, repeats and reorders messages, with nodes that restart from their stored
    term and vote. They show election safety, one vote per term, majorities behind leaders and
    monotone terms in all reachable clusters.
  \<^item> \<open>Log_Merge\<close>, \<open>Raft_Replication\<close>, \<open>Raft_Contracts\<close>: what a merge leaves at each index, the
    invariant of the log and its cursors over all runs, the commit rule, the order of application,
    submissions, votes and snapshot transfer; and the runs in which the code misbehaves.
  \<^item> \<open>Raft_Entries\<close>: the entries across the cluster. Every entry point creates at most one entry,
    as a leader; an index and a term determine an entry in all logs and messages. The log is not
    durable, and a run shows a committed entry forgotten by a restart. The other half of log
    matching, equal prefixes, is not claimed: it needs a durable log.
  \<^item> \<open>Raft_Coap\<close>: \<^verbatim>\<open>coap/coap.hpp\<close> and \<^verbatim>\<open>coap.cpp\<close>, the signed transport of the
    messages, with the bytes of all six kinds. \<open>Network_Service\<close>:
    \<^verbatim>\<open>service/network_service.hpp\<close> and its implementation.

  \<^bold>\<open>Voting\<close> (\<^verbatim>\<open>fog/src/outlier_vote\<close>). \<open>Vote_Engine\<close> models \<^verbatim>\<open>engine.hpp\<close>,
  \<open>Vote_Median\<close> shows what the median is worth with an honest majority, \<open>Vote_Window\<close> what a window
  reports and when the alert is raised and cleared, and \<open>Vote_Service\<close> models \<^verbatim>\<open>service.hpp\<close>
  and shows its timing.

  \<^bold>\<open>Sensors.\<close> \<open>Sensor_Reading\<close> holds the readings (\<^verbatim>\<open>common/sensor_reading.hpp\<close>),
  \<open>Jsn_Driver\<close> the driver (\<^verbatim>\<open>edge/src/jsn\<close>) with its sequence lock as an interleaving of reader
  and writer, \<open>Sensor_Cycle\<close> the measurement cycle as a transition system of timers and work items,
  \<open>Edge_Node\<close> the sender with its stored sequence number, \<open>Replay_Detection\<close> the intake of the fog
  node, \<open>Trusted_Devices\<close> the key store, \<open>Provisioned_Devices\<close> the table of its devices, \<open>Alert_Packets\<close> the alert broadcast, and \<open>Coap_Utils\<close> the
  CoAP helpers.

  \<^bold>\<open>Uplinks.\<close> \<open>Egress_Tracker\<close> and \<open>Egress_Coordinator\<close> model \<^verbatim>\<open>fog/src/egress\<close>,
  \<open>Lora_Protocol\<close> and \<open>Lora_Service\<close> model \<^verbatim>\<open>fog/src/lorawan\<close> and the decoder of the gateway
  (\<^verbatim>\<open>gateway/chirpstack-codec/codec.js\<close>), \<open>Modem_Setup\<close> the set-up of the modem and the
  start and stop of its service, and \<open>Fog_Application\<close> the engine and the application that join all
  parts of a fog node, and shows that no accepted message is left in the engine's queue. This theory
  follows a batch from the vote into the log and from the log to the gateway.

  \<^bold>\<open>Start and test build.\<close> \<open>Start_Up\<close> models both \<^verbatim>\<open>main.cpp\<close>, the initialisation of
  both applications, the storage, the identifiers and the network clock; the locale \<open>boots_once\<close> is what
  the state change handlers of both nodes promise. It shows that a node boots exactly once, what a
  booted fog node has, and what is started in spite of an error. \<open>Fault_Injection\<close> models the build
  under \<^verbatim>\<open>CONFIG_ENABLE_FAULT_INJECTION\<close>: without an active fault it does what the deployed
  build does, and the faults meant to be caught are caught by the fog node.

  \<^bold>\<open>Conventions.\<close> A member function is a function on the record of its class with the same
  name. Integers have their width. An operation under a mutex or on one work queue is one step.
  Calls out of a component are recorded in ghost fields (\<open>io_events\<close>, timers, submitted batches,
  completions) or are arguments. The hooks of the consensus server do not call back into it: what
  the application does in its apply hook, submissions included, is a step of its own, \<open>app_on_apply\<close>.
  Parameters, since they are not part of the firmware: the PSA crypto functions, OpenThread's
  network data, message, link and clock functions, Zephyr's modem, flash and kernel functions, the values of
  clocks and random sources, and the padding bytes of copied structures, which the targets lay out
  at natural alignment, little-endian.

  \<^bold>\<open>Bounds and fuel.\<close> Every function terminates. The scans, the commit loop and the apply loop
  of the server recurse on the distance between two indices, the merge on the entries of the
  message, the join and set-up of the modem on the list of commands. The reader of the sequence lock is a loop that may spin: \<open>load_reading\<close> has the
  value \<open>None\<close> when it does, and it is shown to return as soon as the writer pauses. The loop that drains a queue is partial as well and shown
  to return on every queue of the kernel. \<open>thread_entry\<close> runs a given number of rounds of the uplink
  thread, whose loop ends only by \<^verbatim>\<open>stop\<close>. Cluster
  steps exclude a node at the largest 64-bit term, where an increment would wrap.

  \<^bold>\<open>Not modelled.\<close> Log output; the lock classes of \<^verbatim>\<open>mutex.hpp\<close> (an operation
  under a lock is one step); the priorities and the stack of the uplink thread and the semaphore that
  cuts its back-off short; the shorter intervals \<^verbatim>\<open>global_config.h\<close> sets for tests; the
  third-party \<^verbatim>\<open>inplace_function.hpp\<close> and \<^verbatim>\<open>overload.hpp\<close>; the Go server and
  the dashboard with its generated runners. None of these holds logic of the firmware.
\<close>

section \<open>From the vote to the gateway\<close>

lemma batch_leaves_for_the_gateway:
  fixes now :: "u64 option"
  assumes "can_append (en_server (app_engine a))" and "length pad = 3" and "carries e b" and "unat (sb_count b) \<le> MAX_SENSORS"
    and "get_entry (e_index e) (en_server (app_engine a)) = Some e"
    and "e_index e \<noteq> last_index (m_log (en_server (app_engine a))) + 1"
    and "ls_joined (app_lora a)" and "ls_tx_q (app_lora a) = []"
    and "\<forall>command m. cr_ret (fst (chat command ''+MSGHEX: Done'' 10000 12 m)) = 0"
  shows "\<exists>hex bytes lora. handle_downlink [hex] BUFFER_SIZE = Some bytes \<and>
    decodeUplink bytes = (Some (uplink_of (app_eui a) b (e_term e) (e_index e) (next_seq (app_tracker a))), []) \<and>
    thread_step chat (app_lora (app_on_apply pad now e a)) m =
      Some (None, lora, snd (chat (MSG_START_CMD @ hex @ MSG_END_CMD) ''+MSGHEX: Done'' 10000 12 m)) \<and>
    ls_tx_q lora = [] \<and> ls_completed lora = ls_completed (app_lora a) @ [(next_seq (app_tracker a), ucast (ucast (e_index e) :: u32))]"
proof -
  let ?lora = "app_lora (app_on_apply pad now e a)" and ?p = "make_payload (app_eui a) b (e_term e) (e_index e) (next_seq (app_tracker a))"
  have "length (ls_tx_q (app_lora a)) < TX_QUEUE_DEPTH"
    using assms(8) by (simp add: TX_QUEUE_DEPTH_def)
  note app = apply_batch [OF assms(1-3,5,6) this, of now]
  have frame: "ls_joined ?lora" "ls_completed ?lora = ls_completed (app_lora a)"
    using apply_batch_frame [OF assms(1-3,5,6), of now] assms(7) by simp_all
  have "length (sb_entries b) = MAX_SENSORS"
    using assms(3) by (auto simp: carries_def storable_batch_def)
  from payload_decodes [OF this assms(4)] obtain hex bytes where
    up: "build_uplink ?p BUFFER_SIZE = Some (MSG_START_CMD @ hex @ MSG_END_CMD)" "length hex \<le> 140"
      "handle_downlink [hex] BUFFER_SIZE = Some bytes"
      "decodeUplink bytes = (Some (uplink_of (app_eui a) b (e_term e) (e_index e) (next_seq (app_tracker a))), [])"
    by blast
  obtain r m' where chat: "chat (MSG_START_CMD @ hex @ MSG_END_CMD) ''+MSGHEX: Done'' 10000 12 m = (r, m')"
    by (cases "chat (MSG_START_CMD @ hex @ MSG_END_CMD) ''+MSGHEX: Done'' 10000 12 m")
  have "cr_ret r = 0"
    using assms(9) chat by (metis fst_conv)
  moreover have "length (MSG_START_CMD @ hex @ MSG_END_CMD) < REQUEST_BUF_SIZE"
    using up(2) by (simp add: MSG_START_CMD_def MSG_END_CMD_def REQUEST_BUF_SIZE_def)
  moreover have "ls_tx_q ?lora = ?p # []"
    using app assms(8) by simp
  ultimately have step: "thread_step chat ?lora m =
      Some (None, ?lora\<lparr>ls_tx_q := [], ls_completed := ls_completed ?lora @ [(lp_sequence ?p, ucast (lp_raft_log_index ?p))]\<rparr>, m')"
    using thread_step_sends [where chat = chat and m = m, OF frame(1) _ up(1) _ chat] by simp
  have "lp_sequence ?p = next_seq (app_tracker a)" "lp_raft_log_index ?p = ucast (e_index e)"
    by (simp_all add: make_payload_def Let_def)
  then show ?thesis
    using up(3,4) step frame(2) chat by (intro exI [of _ hex] exI [of _ bytes] exI conjI) auto
qed


definition demo_chat :: "unit chat" where
  "demo_chat = (\<lambda>_ _ _ _ m. (\<lparr>cr_ret = 0, cr_abort = None, cr_downlinks = []\<rparr>, m))"

definition demo_joined_node :: Application where
  "demo_joined_node = demo_node\<lparr>app_lora := (app_lora demo_node)\<lparr>ls_joined := True\<rparr>\<rparr>"



definition demo_voting_node :: Application where
  "demo_voting_node = demo_node\<lparr>app_vote := (app_vote demo_node)\<lparr>vs_engine := demo_engine 500 510 9000\<rparr>\<rparr>"


end
